(* ===== verification/Prelude.thy ===== *)
theory Prelude
  imports Main "HOL-Library.Word"
begin

text \<open>
  Shared material of the development: the collections of rewrite rules the components
  fill, and the facts about lists, searches and suffixes that several of them use.
  Nothing here models code.

  Collections: \<open>cstr\<close> holds what the string primitives of the C library do to well-formed
  strings, \<open>wire_simps\<close> what the builders of protocol lines produce, \<open>frame_simps\<close> which
  parts of the server's state an operation leaves alone.
\<close>

named_theorems cstr
named_theorems wire_simps
named_theorems frame_simps

section \<open>Lists\<close>

text \<open>The last \<open>n\<close> elements of a list.\<close>

definition lastn :: "nat \<Rightarrow> 'a list \<Rightarrow> 'a list" where
  "lastn n xs = drop (length xs - n) xs"

lemma length_lastn [simp]: "length (lastn n xs) = min n (length xs)"
  by (simp add: lastn_def)

lemma lastn_all: "length xs \<le> n \<Longrightarrow> lastn n xs = xs"
  by (simp add: lastn_def)

lemma lastn_snoc_full: "length xs = Suc n \<Longrightarrow> lastn (Suc n) (xs @ [x]) = tl xs @ [x]"
  by (cases xs) (simp_all add: lastn_def)

lemma lastn_lastn_append: "lastn n (lastn n xs @ ys) = lastn n (xs @ ys)"
proof (cases "length xs \<le> n")
  case True
  then show ?thesis by (simp add: lastn_all)
next
  case False
  then show ?thesis
    by (cases "length ys \<le> n") (simp_all add: lastn_def add.commute)
qed

text \<open>An update at an index equal to an append is a push at the end.\<close>

lemma take_Suc_update: "i < length xs \<Longrightarrow> take (Suc i) (xs[i := x]) = take i xs @ [x]"
  by (simp add: take_Suc_conv_app_nth)

lemma take_update_at: "take n (xs[n := x]) = take n xs"
  by simp

lemma takeWhile_neq_append:
  "c \<notin> set xs \<Longrightarrow> takeWhile (\<lambda>x. x \<noteq> c) (xs @ c # ys) = xs"
  by (induction xs) auto

lemma takeWhile_neq_id: "c \<notin> set xs \<Longrightarrow> takeWhile (\<lambda>x. x \<noteq> c) xs = xs"
  by (induction xs) auto

lemma notin_takeWhile_neq [simp]: "c \<notin> set (takeWhile (\<lambda>x. x \<noteq> c) xs)"
  by (auto dest: set_takeWhileD)

text \<open>
  Search by a predicate over a list with distinct keys: what \<open>List.find\<close> returns is the
  only element with that key.
\<close>

lemma find_key_unique:
  "distinct (map f xs) \<Longrightarrow> x \<in> set xs \<Longrightarrow> List.find (\<lambda>y. f y = f x) xs = Some x"
  by (induction xs) (auto simp: image_iff)

lemma find_key_None: "List.find (\<lambda>y. f y = k) xs = None \<longleftrightarrow> k \<notin> f ` set xs"
  by (induction xs) auto

lemma find_key_Some: "List.find (\<lambda>y. f y = k) xs = Some x \<Longrightarrow> x \<in> set xs \<and> f x = k"
  by (induction xs) (auto split: if_splits)

lemma find_cong_on: "(\<And>x. x \<in> set xs \<Longrightarrow> P x = Q x) \<Longrightarrow> List.find P xs = List.find Q xs"
  by (induction xs) auto

text \<open>Removal of the first element with a given key, the unlinking loop of a linked list.\<close>

fun remove_first :: "('a \<Rightarrow> bool) \<Rightarrow> 'a list \<Rightarrow> 'a list option" where
  "remove_first P [] = None"
| "remove_first P (x # xs) =
     (if P x then Some xs else map_option ((#) x) (remove_first P xs))"

lemma remove_first_None: "remove_first P xs = None \<longleftrightarrow> (\<forall>x \<in> set xs. \<not> P x)"
  by (induction xs) auto

lemma remove_first_length: "remove_first P xs = Some ys \<Longrightarrow> length xs = Suc (length ys)"
  by (induction xs arbitrary: ys) (auto split: if_splits)

lemma remove_first_subset: "remove_first P xs = Some ys \<Longrightarrow> set ys \<subseteq> set xs"
  by (induction xs arbitrary: ys) (auto split: if_splits)

lemma remove_first_distinct:
  "remove_first P xs = Some ys \<Longrightarrow> distinct (map f xs) \<Longrightarrow> distinct (map f ys)"
proof (induction xs arbitrary: ys)
  case Nil
  then show ?case by simp
next
  case (Cons x xs)
  then show ?case
    by (cases "P x") (fastforce dest: remove_first_subset simp: image_iff)+
qed

lemma remove_first_key:
  assumes "remove_first (\<lambda>x. f x = k) xs = Some ys" and "distinct (map f xs)"
  shows "ys = filter (\<lambda>x. f x \<noteq> k) xs"
  using assms
proof (induction xs arbitrary: ys)
  case Nil
  then show ?case by simp
next
  case (Cons x xs)
  show ?case
  proof (cases "f x = k")
    case True
    with Cons.prems have "\<forall>y \<in> set xs. f y \<noteq> k" by (auto simp: image_iff)
    then have "filter (\<lambda>y. f y \<noteq> k) xs = xs" by simp
    with True Cons.prems(1) show ?thesis by simp
  next
    case False
    with Cons show ?thesis by auto
  qed
qed

text \<open>Indices that start somewhere in a ring and run around it.\<close>

lemma ring_tail_index:
  "s < n \<Longrightarrow> i < n - 1 \<Longrightarrow> (Suc s mod n + i) mod n \<noteq> s"
proof -
  assume s: "s < n" and i: "i < n - 1"
  show ?thesis
  proof (cases "Suc s = n")
    case True
    with i show ?thesis by simp
  next
    case False
    with s have "Suc s mod n = Suc s" by simp
    moreover have "(Suc s + i) mod n \<noteq> s"
    proof (cases "Suc s + i < n")
      case True
      then show ?thesis by simp
    next
      case False
      with s i have "(Suc s + i) mod n = Suc s + i - n"
        by (simp add: mod_if)
      with s i False show ?thesis by simp
    qed
    ultimately show ?thesis by simp
  qed
qed

lemma ring_succ_index: "(Suc s mod n + i) mod n = (s + Suc i) mod (n::nat)"
  by (simp add: mod_simps)

end
