(* ===== verification/C_Base.thy ===== *)
theory C_Base
  imports Prelude
begin

text \<open>
  What the sources use of C and of \<open>common.h\<close>: the status codes, the size limits, and the
  functions of the C library on character arrays. A \<open>char *\<close> that is read as a string is a
  \<^typ>\<open>string\<close> without NUL; a \<open>char\<close> array whose bytes matter one by one (a field of an
  uninitialised structure, a receive buffer) is a \<open>cbuf\<close>, a list as long as the array.
  \<open>c_str\<close> reads an array as a string. Reading an array that holds no NUL is undefined
  in C; \<open>c_str\<close> stops at the end of the array there, and \<open>nul_terminated\<close> says that it
  does not happen.
\<close>

section \<open>Status codes and limits\<close>

datatype chat_status =
    CHAT_OK
  | CHAT_ERR
  | CHAT_ERR_NOMEM
  | CHAT_ERR_PROTOCOL
  | CHAT_ERR_DUPLICATE
  | CHAT_ERR_NOT_FOUND
  | CHAT_ERR_IO
  | CHAT_ERR_FULL
  | CHAT_ERR_AUTH
  | CHAT_ERR_FORBIDDEN

definition MAX_USERNAME_LEN :: nat where [simp]: "MAX_USERNAME_LEN = 32"
definition MAX_PASSWORD_LEN :: nat where [simp]: "MAX_PASSWORD_LEN = 64"
definition MAX_MSG_LEN :: nat where [simp]: "MAX_MSG_LEN = 512"
definition MAX_LINE_LEN :: nat where [simp]: "MAX_LINE_LEN = 2048"
definition MAX_CLIENTS :: nat where [simp]: "MAX_CLIENTS = 100"
definition MAX_ROOM_NAME_LEN :: nat where [simp]: "MAX_ROOM_NAME_LEN = 32"
definition MAX_ROOM_HISTORY :: nat where [simp]: "MAX_ROOM_HISTORY = 100"
definition MAX_ROOMS :: nat where [simp]: "MAX_ROOMS = 64"
definition SHA256_HEX_LEN :: nat where [simp]: "SHA256_HEX_LEN = 65"
definition DEFAULT_PORT :: nat where [simp]: "DEFAULT_PORT = 8080"
definition DEFAULT_ROOM :: string where "DEFAULT_ROOM = ''lobby''"
definition DEFAULT_USERS_DB :: string where "DEFAULT_USERS_DB = ''data/users.db''"

text \<open>The size of the \<open>timestamp\<close> arrays and of the token buffer of the parsers.\<close>

definition TIMESTAMP_LEN :: nat where [simp]: "TIMESTAMP_LEN = 32"
definition CMD_BUF_LEN :: nat where [simp]: "CMD_BUF_LEN = 16"

section \<open>Strings and character arrays\<close>

type_synonym cbuf = "char list"

abbreviation NUL :: char where "NUL \<equiv> CHR 0x00"
abbreviation LF :: char where "LF \<equiv> CHR 0x0A"
abbreviation CR :: char where "CR \<equiv> CHR 0x0D"
abbreviation SP :: char where "SP \<equiv> CHR '' ''"

definition c_str :: "cbuf \<Rightarrow> string" where
  "c_str b = takeWhile (\<lambda>c. c \<noteq> NUL) b"

definition nul_terminated :: "cbuf \<Rightarrow> bool" where
  "nul_terminated b \<longleftrightarrow> NUL \<in> set b"

definition is_c_string :: "string \<Rightarrow> bool" where
  "is_c_string s \<longleftrightarrow> NUL \<notin> set s"

text \<open>
  \<open>strncpy(dst, src, n)\<close> writes exactly \<open>n\<close> bytes: the string, then NULs to fill up, and no
  NUL at all when the string has \<open>n\<close> bytes or more. The rest of the array keeps its bytes.
\<close>

definition strncpy :: "cbuf \<Rightarrow> string \<Rightarrow> nat \<Rightarrow> cbuf" where
  "strncpy dst src n = take n (src @ replicate n NUL) @ drop n dst"

text \<open>\<open>strchr\<close> gives the offset of the first occurrence of a character.\<close>

fun strchr :: "string \<Rightarrow> char \<Rightarrow> nat option" where
  "strchr [] c = None"
| "strchr (x # xs) c = (if x = c then Some 0 else map_option Suc (strchr xs c))"

text \<open>
  \<open>snprintf(buf, buflen, ...)\<close> leaves at most \<open>buflen - 1\<close> characters in the buffer and returns
  the length of the whole output; the callers compare it with \<open>buflen\<close>.
\<close>

definition snprintf_line :: "nat \<Rightarrow> string \<Rightarrow> chat_status \<times> string" where
  "snprintf_line buflen s =
     (if buflen \<le> length s then CHAT_ERR else CHAT_OK, take (buflen - 1) s)"

text \<open>
  A loop of \<open>snprintf(buf + used, buflen - used, ...)\<close> prints pieces one behind the other with a
  separator between them and stops at the first that does not fit, with an error and the
  piece cut off in the buffer.
\<close>

fun print_pieces :: "string \<Rightarrow> string list \<Rightarrow> string \<Rightarrow> bool \<Rightarrow> nat \<Rightarrow> chat_status \<times> string" where
  "print_pieces sep [] buf first buflen = (CHAT_OK, buf)"
| "print_pieces sep (x # xs) buf first buflen =
     (let used = length buf; piece = (if first then x else sep @ x)
      in if buflen - used \<le> length piece then (CHAT_ERR, buf @ take (buflen - used - 1) piece)
         else print_pieces sep xs (buf @ piece) False buflen)"

fun join_sep :: "string \<Rightarrow> bool \<Rightarrow> string list \<Rightarrow> string" where
  "join_sep sep first [] = []"
| "join_sep sep first (x # xs) = (if first then x else sep @ x) @ join_sep sep False xs"

text \<open>What such a loop leaves of the whole text: all of it, or the beginning that fits.\<close>

definition printed :: "nat \<Rightarrow> string \<Rightarrow> chat_status \<times> string" where
  "printed buflen s = (if length s < buflen then (CHAT_OK, s) else (CHAT_ERR, take (buflen - 1) s))"

section \<open>Numbers in text\<close>

definition digit :: "nat \<Rightarrow> char" where
  "digit d = ''0123456789abcdef'' ! d"

fun dec :: "nat \<Rightarrow> string" where
  "dec n = (if n < 10 then [digit n] else dec (n div 10) @ [digit (n mod 10)])"

declare dec.simps [simp del]

definition dec2 :: "nat \<Rightarrow> string" where
  "dec2 n = (if n < 10 then CHR ''0'' # dec n else dec n)"

definition hex2 :: "8 word \<Rightarrow> string" where
  "hex2 b = [digit (unat b div 16), digit (unat b mod 16)]"

definition is_space :: "char \<Rightarrow> bool" where
  "is_space c \<longleftrightarrow> c \<in> {SP, CHR 0x09, LF, CHR 0x0B, CHR 0x0C, CR}"

definition is_digit :: "char \<Rightarrow> bool" where
  "is_digit c \<longleftrightarrow> c \<in> set ''0123456789''"

definition digit_val :: "char \<Rightarrow> nat" where
  "digit_val c = length (takeWhile (\<lambda>d. d \<noteq> c) ''0123456789'')"

definition num_of_digits :: "string \<Rightarrow> nat" where
  "num_of_digits ds = foldl (\<lambda>n c. 10 * n + digit_val c) 0 ds"

text \<open>
  \<open>strtol(s, &end, 10)\<close>: the value, the number of characters consumed (0 when there is no
  number) and whether \<open>errno\<close> was set, which is when the number does not fit in 64 bits.
\<close>

definition strtol10 :: "string \<Rightarrow> int \<times> nat \<times> bool" where
  "strtol10 s =
     (let w = length (takeWhile is_space s); r = drop w s;
          neg = (r \<noteq> [] \<and> hd r = CHR ''-'');
          sgn_len = (if r \<noteq> [] \<and> (hd r = CHR ''-'' \<or> hd r = CHR ''+'') then 1 else 0);
          ds = takeWhile is_digit (drop sgn_len r);
          v = (if neg then - int (num_of_digits ds) else int (num_of_digits ds));
          n = w + sgn_len + length ds
      in if ds = [] then (0, 0, False)
         else if v > 2 ^ 63 - 1 then (2 ^ 63 - 1, n, True)
         else if v < - (2 ^ 63) then (- (2 ^ 63), n, True)
         else (v, n, False))"

section \<open>Facts about the primitives\<close>

lemma c_str_no_nul [simp]: "NUL \<notin> set (c_str b)"
  by (simp add: c_str_def)

lemma is_c_string_c_str [simp]: "is_c_string (c_str b)"
  by (simp add: is_c_string_def)

lemma c_str_append_nul [cstr]: "is_c_string s \<Longrightarrow> c_str (s @ NUL # r) = s"
  by (simp add: c_str_def is_c_string_def takeWhile_neq_append)

lemma c_str_id [cstr]: "is_c_string s \<Longrightarrow> c_str s = s"
  by (simp add: c_str_def is_c_string_def takeWhile_neq_id)

lemma length_c_str_le: "length (c_str b) \<le> length b"
  by (simp add: c_str_def length_takeWhile_le)

lemma length_c_str_less: "nul_terminated b \<Longrightarrow> length (c_str b) < length b"
proof -
  assume "nul_terminated b"
  then have "takeWhile (\<lambda>c. c \<noteq> NUL) b \<noteq> b"
    by (metis nul_terminated_def notin_takeWhile_neq)
  then have "length (takeWhile (\<lambda>c. c \<noteq> NUL) b) \<noteq> length b"
    by (metis takeWhile_eq_take take_all_iff order_refl)
  with length_c_str_le [of b] show ?thesis
    by (simp add: c_str_def)
qed

lemma is_c_string_take [intro]: "is_c_string s \<Longrightarrow> is_c_string (take n s)"
  by (auto simp: is_c_string_def dest: in_set_takeD)

lemma is_c_string_append [simp]: "is_c_string (s @ t) \<longleftrightarrow> is_c_string s \<and> is_c_string t"
  by (auto simp: is_c_string_def)

lemma length_strncpy [simp]: "n \<le> length dst \<Longrightarrow> length (strncpy dst src n) = length dst"
  by (simp add: strncpy_def)

lemma strncpy_short:
  "length src < n \<Longrightarrow>
   strncpy dst src n = src @ NUL # replicate (n - Suc (length src)) NUL @ drop n dst"
proof -
  assume l: "length src < n"
  then obtain k where n: "n = length src + Suc k"
    by (metis less_imp_Suc_add add_Suc_right)
  then have "take n (src @ replicate n NUL) = src @ NUL # replicate k NUL"
    by (simp add: min_def)
  with n show ?thesis
    by (simp add: strncpy_def)
qed

lemma c_str_strncpy_short [cstr]:
  "is_c_string src \<Longrightarrow> length src < n \<Longrightarrow> c_str (strncpy dst src n) = src"
  by (simp add: strncpy_short c_str_append_nul)

lemma nul_terminated_strncpy_short [cstr]:
  "length src < n \<Longrightarrow> nul_terminated (strncpy dst src n)"
  by (simp add: strncpy_short nul_terminated_def)

lemma strncpy_long:
  "n \<le> length src \<Longrightarrow> strncpy dst src n = take n src @ drop n dst"
  by (simp add: strncpy_def)

text \<open>A copy of one byte less than the array keeps the array's last byte.\<close>

lemma strncpy_last:
  assumes "length dst = Suc n"
  shows "strncpy dst src n = take n (src @ replicate n NUL) @ [dst ! n]"
proof -
  have "drop n dst = [dst ! n]"
    using assms by (simp add: Cons_nth_drop_Suc [symmetric])
  then show ?thesis by (simp only: strncpy_def)
qed

lemma strncpy_then_nul:
  assumes "length dst = Suc n" and "is_c_string src"
  shows "c_str ((strncpy dst src n)[n := NUL]) = take n src"
    and "nul_terminated ((strncpy dst src n)[n := NUL])"
proof -
  let ?p = "take n (src @ replicate n NUL)"
  have len: "length ?p = n" by simp
  have eq: "(strncpy dst src n)[n := NUL] = ?p @ [NUL]"
    by (metis strncpy_last [OF assms(1)] list_update_length len)
  then show "nul_terminated ((strncpy dst src n)[n := NUL])"
    by (simp add: nul_terminated_def)
  show "c_str ((strncpy dst src n)[n := NUL]) = take n src"
  proof (cases "length src < n")
    case True
    then obtain k where "n = length src + Suc k"
      by (metis less_imp_Suc_add add_Suc_right)
    then have "?p @ [NUL] = src @ NUL # replicate (Suc k) NUL"
      by (simp add: min_def replicate_append_same)
    with eq True assms(2) show ?thesis
      by (simp add: c_str_append_nul)
  next
    case False
    then have "?p = take n src" by simp
    with eq assms(2) show ?thesis
      by (metis c_str_append_nul is_c_string_take)
  qed
qed

lemma strchr_None: "strchr s c = None \<longleftrightarrow> c \<notin> set s"
  by (induction s) auto

lemma strchr_notin [cstr]: "c \<notin> set s \<Longrightarrow> strchr s c = None"
  by (simp add: strchr_None)

lemma strchr_append [cstr]: "c \<notin> set s \<Longrightarrow> strchr (s @ c # t) c = Some (length s)"
  by (induction s) auto

lemma strchr_Some:
  "strchr s c = Some i \<Longrightarrow> i < length s \<and> c \<notin> set (take i s) \<and> s = take i s @ c # drop (Suc i) s"
  by (induction s arbitrary: i) (auto split: if_splits)

lemma snprintf_line_fits [cstr]: "length s < n \<Longrightarrow> snprintf_line n s = (CHAT_OK, s)"
  by (simp add: snprintf_line_def)

lemma snprintf_line_OK: "fst (snprintf_line n s) = CHAT_OK \<longleftrightarrow> length s < n"
  by (simp add: snprintf_line_def)

lemma snprintf_line_bound: "0 < n \<Longrightarrow> length (snd (snprintf_line n s)) < n"
  by (simp add: snprintf_line_def)

lemma print_pieces_printed:
  "length buf < buflen \<Longrightarrow>
   print_pieces sep xs buf first buflen = printed buflen (buf @ join_sep sep first xs)"
proof (induction xs arbitrary: buf first)
  case Nil
  then show ?case by (simp add: printed_def)
next
  case (Cons x xs)
  define p where "p = (if first then x else sep @ x)"
  show ?case
  proof (cases "buflen - length buf \<le> length p")
    case True
    with Cons.prems have "print_pieces sep (x # xs) buf first buflen
        = (CHAT_ERR, buf @ take (buflen - length buf - 1) p)"
      by (simp add: Let_def p_def)
    moreover have "\<not> length (buf @ p @ join_sep sep False xs) < buflen"
      using True Cons.prems by auto
    moreover have "take (buflen - 1) (buf @ p @ join_sep sep False xs)
        = buf @ take (buflen - length buf - 1) p"
      using True Cons.prems by simp
    ultimately show ?thesis unfolding printed_def join_sep.simps p_def [symmetric] by simp
  next
    case False
    then have "length (buf @ p) < buflen" by simp
    from Cons.IH [OF this, of False] False show ?thesis
      by (simp add: Let_def p_def [symmetric])
  qed
qed

subsection \<open>Decimal numbers\<close>

lemma digit_val_digit: "d < 10 \<Longrightarrow> digit_val (digit d) = d"
proof -
  have "\<forall>d \<in> {0..<10}. digit_val (digit d) = d" by code_simp
  then show "d < 10 \<Longrightarrow> digit_val (digit d) = d" by simp
qed

lemma is_digit_digit: "d < 10 \<Longrightarrow> is_digit (digit d)"
proof -
  have "\<forall>d \<in> {0..<10}. is_digit (digit d)" by code_simp
  then show "d < 10 \<Longrightarrow> is_digit (digit d)" by simp
qed

lemma dec_not_Nil [simp]: "dec n \<noteq> []"
  by (subst dec.simps) simp

lemma dec_digits: "\<forall>c \<in> set (dec n). is_digit c"
proof (induction n rule: dec.induct)
  case (1 n)
  then show ?case
    by (cases "n < 10") (auto simp: dec.simps [of n] is_digit_digit)
qed

lemma num_of_digits_snoc:
  "num_of_digits (ds @ [c]) = 10 * num_of_digits ds + digit_val c"
  by (simp add: num_of_digits_def)

lemma num_of_digits_dec: "num_of_digits (dec n) = n"
proof (induction n rule: dec.induct)
  case (1 n)
  show ?case
  proof (cases "n < 10")
    case True
    then show ?thesis
      by (simp add: dec.simps [of n] num_of_digits_def digit_val_digit)
  next
    case False
    with "1" show ?thesis
      by (simp add: dec.simps [of n] num_of_digits_snoc digit_val_digit)
  qed
qed

lemma dec_length: "n < 10 ^ k \<Longrightarrow> 0 < k \<Longrightarrow> length (dec n) \<le> k"
proof (induction k arbitrary: n)
  case 0
  then show ?case by simp
next
  case (Suc k)
  show ?case
  proof (cases "n < 10")
    case True
    then show ?thesis by (simp add: dec.simps [of n])
  next
    case False
    with Suc.prems have "n div 10 < 10 ^ k" and "0 < k"
      by (auto simp: less_mult_imp_div_less mult.commute intro: gr0I)
    with Suc.IH have "length (dec (n div 10)) \<le> k" by blast
    with False show ?thesis by (simp add: dec.simps [of n])
  qed
qed

lemma is_digit_not_space: "is_digit c \<Longrightarrow> \<not> is_space c"
  by (auto simp: is_digit_def is_space_def)

lemma is_digit_not_sign: "is_digit c \<Longrightarrow> c \<noteq> CHR ''-'' \<and> c \<noteq> CHR ''+''"
  by (auto simp: is_digit_def)

lemma strtol10_dec: "int n \<le> 2 ^ 63 - 1 \<Longrightarrow> strtol10 (dec n) = (int n, length (dec n), False)"
proof -
  assume n: "int n \<le> 2 ^ 63 - 1"
  obtain c cs where d: "dec n = c # cs"
    using dec_not_Nil [of n] by (cases "dec n") auto
  have dig: "\<forall>x \<in> set (dec n). is_digit x" by (rule dec_digits)
  with d have c: "is_digit c" by simp
  then have nsp: "\<not> is_space c" and sgn: "c \<noteq> CHR ''-''" "c \<noteq> CHR ''+''"
    using is_digit_not_space is_digit_not_sign by blast+
  have tw: "takeWhile is_digit (dec n) = dec n"
    using dig by (simp add: takeWhile_eq_all_conv)
  have ws: "takeWhile is_space (dec n) = []"
    using d nsp by simp
  have "drop 0 (dec n) = dec n" by simp
  moreover have "hd (dec n) \<noteq> CHR ''-''" "hd (dec n) \<noteq> CHR ''+''"
    using d sgn by simp_all
  ultimately show ?thesis
    using n unfolding strtol10_def Let_def ws by (simp add: tw num_of_digits_dec)
qed

end
