(* ===== verification/Auth_DB.thy ===== *)
theory Auth_DB
  imports C_Base
begin

text \<open>
  \<open>src/server/auth.c\<close>: the user database and the check of passwords. OpenSSL's digest is a
  parameter: \<open>evp pw\<close> is what the calls return for a password, no context, a failure of one of
  the three calls, or the digest's bytes. What the code relies on is that a digest has 32
  bytes (\<open>evp_sha256\<close>). \<open>fgets\<close> and \<open>sscanf\<close> are modelled for the way they are called.
\<close>

section \<open>Data\<close>

record user_record =
  ur_username :: string
  ur_password_hash :: string
  ur_is_admin :: bool

record auth_db =
  ad_head :: "user_record list"
  ad_db_path :: string

datatype evp_result = Evp_No_Context | Evp_Failed | Evp_Digest "8 word list"

definition evp_sha256 :: "(string \<Rightarrow> evp_result) \<Rightarrow> bool" where
  "evp_sha256 evp \<longleftrightarrow> (\<forall>pw ds. evp pw = Evp_Digest ds \<longrightarrow> length ds = 32)"

section \<open>Passwords\<close>

text \<open>
  \<open>auth_hash_password\<close>: each byte as two hexadecimal digits. \<open>out_len\<close> is the size of the
  caller's buffer.
\<close>

definition auth_hash_password :: "(string \<Rightarrow> evp_result) \<Rightarrow> string \<Rightarrow> nat \<Rightarrow> chat_status \<times> string option" where
  "auth_hash_password evp password out_len =
     (if out_len < SHA256_HEX_LEN then (CHAT_ERR, None)
      else case evp password of
             Evp_No_Context \<Rightarrow> (CHAT_ERR_NOMEM, None)
           | Evp_Failed \<Rightarrow> (CHAT_ERR, None)
           | Evp_Digest digest \<Rightarrow> (CHAT_OK, Some (concat (map hex2 digest))))"

section \<open>Reading the database\<close>

text \<open>\<open>strip_line\<close> cuts at the first line feed, then at the first carriage return.\<close>

definition strip_line :: "string \<Rightarrow> string" where
  "strip_line s = takeWhile (\<lambda>c. c \<noteq> CR) (takeWhile (\<lambda>c. c \<noteq> LF) s)"

text \<open>
  \<open>fgets(line, 512, fp)\<close>: up to 511 characters, up to and including a line feed; NULL at the
  end of the file. \<open>read_lines\<close> is the sequence of lines the loop reads.
\<close>

definition fgets_line :: "nat \<Rightarrow> string \<Rightarrow> (string \<times> string) option" where
  "fgets_line n file =
     (if file = [] then None
      else let l = takeWhile (\<lambda>c. c \<noteq> LF) (take (n - 1) file);
               k = (if length l < min (n - 1) (length file) then length l + 1 else length l)
           in Some (take k file, drop k file))"

fun read_lines :: "nat \<Rightarrow> nat \<Rightarrow> string \<Rightarrow> string list" where
  "read_lines 0 n file = []"
| "read_lines (Suc fuel) n file =
     (case fgets_line n file of
        None \<Rightarrow> []
      | Some (l, rest) \<Rightarrow> c_str l # read_lines fuel n rest)"

text \<open>
  \<open>sscanf(line, "%31[^:]:%64[^:]:%7s", ...)\<close>: a conversion \<open>%n[^:]\<close> takes one to \<open>n\<close>
  characters other than a colon and fails on none, a colon in the format must match, and
  \<open>%7s\<close> skips white space and takes one to seven other characters. The result is the three
  fields when all three conversions succeed.
\<close>

definition scan_not_colon :: "nat \<Rightarrow> string \<Rightarrow> (string \<times> string) option" where
  "scan_not_colon n s =
     (let w = take n (takeWhile (\<lambda>c. c \<noteq> CHR '':'') s)
      in if w = [] then None else Some (w, drop (length w) s))"

definition scan_colon :: "string \<Rightarrow> string option" where
  "scan_colon s = (case s of [] \<Rightarrow> None | c # r \<Rightarrow> if c = CHR '':'' then Some r else None)"

definition scan_word :: "nat \<Rightarrow> string \<Rightarrow> string option" where
  "scan_word n s =
     (let w = take n (takeWhile (\<lambda>c. \<not> is_space c) (dropWhile is_space s))
      in if w = [] then None else Some w)"

definition sscanf_user :: "string \<Rightarrow> (string \<times> string \<times> string) option" where
  "sscanf_user line =
     (case scan_not_colon 31 line of
        None \<Rightarrow> None
      | Some (username, r1) \<Rightarrow>
     (case scan_colon r1 of
        None \<Rightarrow> None
      | Some r2 \<Rightarrow>
     (case scan_not_colon 64 r2 of
        None \<Rightarrow> None
      | Some (hash, r3) \<Rightarrow>
     (case scan_colon r3 of
        None \<Rightarrow> None
      | Some r4 \<Rightarrow>
     (case scan_word 7 r4 of
        None \<Rightarrow> None
      | Some admin_flag \<Rightarrow> Some (username, hash, admin_flag))))))"

definition to_lower :: "char \<Rightarrow> char" where
  "to_lower c = (if 65 \<le> (of_char c :: nat) \<and> (of_char c :: nat) \<le> 90
                 then char_of ((of_char c :: nat) + 32) else c)"

definition strcasecmp_eq :: "string \<Rightarrow> string \<Rightarrow> bool" where
  "strcasecmp_eq s t \<longleftrightarrow> map to_lower s = map to_lower t"

definition admin_flag_set :: "string \<Rightarrow> bool" where
  "admin_flag_set admin_flag \<longleftrightarrow>
     (admin_flag \<noteq> [] \<and> hd admin_flag = CHR ''1'') \<or> strcasecmp_eq admin_flag ''admin'' \<or>
     strcasecmp_eq admin_flag ''true'' \<or> strcasecmp_eq admin_flag ''yes''"

text \<open>
  The loop of \<open>auth_init\<close> over the lines, given whether \<open>malloc\<close> succeeds for each of the
  records in turn (a list that has run out means it does). A record goes to the head of
  the list.
\<close>

fun load_users :: "bool list \<Rightarrow> string list \<Rightarrow> user_record list \<Rightarrow> chat_status \<times> user_record list" where
  "load_users mems [] users = (CHAT_OK, users)"
| "load_users mems (l # ls) users =
     (let line = strip_line l
      in if line = [] \<or> hd line = CHR ''#'' then load_users mems ls users
         else case sscanf_user line of
                None \<Rightarrow> load_users mems ls users
              | Some (username, hash, admin_flag) \<Rightarrow>
                  if mems \<noteq> [] \<and> \<not> hd mems then (CHAT_ERR_NOMEM, [])
                  else load_users (tl mems) ls
                         (\<lparr>ur_username = take (MAX_USERNAME_LEN - 1) username,
                           ur_password_hash = take (SHA256_HEX_LEN - 1) hash,
                           ur_is_admin = admin_flag_set admin_flag\<rparr> # users))"

text \<open>
  \<open>auth_init\<close>: the file system is a parameter, \<open>files p\<close> being the contents of the file that
  \<open>fopen\<close> finds at \<open>p\<close>. The fuel of \<open>read_lines\<close> is the length of the file, as every line
  takes at least one character of it.
\<close>

definition auth_init ::
  "(string \<Rightarrow> string option) \<Rightarrow> bool \<Rightarrow> bool list \<Rightarrow> string option \<Rightarrow> chat_status \<times> auth_db" where
  "auth_init files mutex_ok mems path =
     (let db_path = (case path of Some p \<Rightarrow> if p \<noteq> [] then p else DEFAULT_USERS_DB | None \<Rightarrow> DEFAULT_USERS_DB);
          db = \<lparr>ad_head = [], ad_db_path = take 255 db_path\<rparr>
      in if \<not> mutex_ok then (CHAT_ERR, db)
         else case files db_path of
                None \<Rightarrow> (CHAT_ERR, db)
              | Some contents \<Rightarrow>
                  (case load_users mems (read_lines (length contents) 512 contents) [] of
                     (CHAT_OK, users) \<Rightarrow>
                       if users = [] then (CHAT_ERR, db) else (CHAT_OK, db\<lparr>ad_head := users\<rparr>)
                   | (st, _) \<Rightarrow> (st, db)))"

definition auth_destroy :: "auth_db \<Rightarrow> auth_db" where
  "auth_destroy db = db\<lparr>ad_head := []\<rparr>"

section \<open>Checking\<close>

definition auth_verify :: "(string \<Rightarrow> evp_result) \<Rightarrow> auth_db \<Rightarrow> string \<Rightarrow> string \<Rightarrow> chat_status" where
  "auth_verify evp db username password =
     (case auth_hash_password evp password SHA256_HEX_LEN of
        (CHAT_OK, Some computed) \<Rightarrow>
          (case List.find (\<lambda>cur. ur_username cur = username) (ad_head db) of
             None \<Rightarrow> CHAT_ERR_AUTH
           | Some cur \<Rightarrow> if ur_password_hash cur = computed then CHAT_OK else CHAT_ERR_AUTH)
      | _ \<Rightarrow> CHAT_ERR)"

definition auth_is_admin :: "auth_db \<Rightarrow> string \<Rightarrow> bool" where
  "auth_is_admin db username =
     (case List.find (\<lambda>cur. ur_username cur = username) (ad_head db) of
        None \<Rightarrow> False | Some cur \<Rightarrow> ur_is_admin cur)"

section \<open>The database as a map\<close>

definition auth_users :: "auth_db \<Rightarrow> string \<Rightarrow> (string \<times> bool) option" where
  "auth_users db = map_of (map (\<lambda>u. (ur_username u, ur_password_hash u, ur_is_admin u)) (ad_head db))"

lemma find_user_map_of:
  "map_of (map (\<lambda>u. (ur_username u, ur_password_hash u, ur_is_admin u)) us) name =
     map_option (\<lambda>u. (ur_password_hash u, ur_is_admin u)) (List.find (\<lambda>cur. ur_username cur = name) us)"
  by (induction us) auto

text \<open>The record a line of the database stands for, if any.\<close>

definition user_of_line :: "string \<Rightarrow> user_record option" where
  "user_of_line l =
     (let line = strip_line l
      in if line = [] \<or> hd line = CHR ''#'' then None
         else map_option (\<lambda>(username, hash, admin_flag).
                \<lparr>ur_username = take 31 username, ur_password_hash = take 64 hash,
                 ur_is_admin = admin_flag_set admin_flag\<rparr>) (sscanf_user line))"

lemma load_users_records:
  "load_users [] ls users = (CHAT_OK, rev (List.map_filter user_of_line ls) @ users)"
proof (induction ls arbitrary: users)
  case Nil
  then show ?case by simp
next
  case (Cons l ls)
  then show ?case
    by (auto simp: user_of_line_def Let_def List.map_filter_simps split: option.split)
qed

section \<open>Writing and reading back\<close>

definition user_ok :: "user_record \<Rightarrow> bool" where
  "user_ok u \<longleftrightarrow> ur_username u \<noteq> [] \<and> length (ur_username u) \<le> 31 \<and> hd (ur_username u) \<noteq> CHR ''#'' \<and>
     ur_password_hash u \<noteq> [] \<and> length (ur_password_hash u) \<le> 64 \<and>
     set (ur_username u @ ur_password_hash u) \<inter> {CHR '':'', NUL, LF, CR} = {}"

definition user_line :: "user_record \<Rightarrow> string" where
  "user_line u = ur_username u @ '':'' @ ur_password_hash u @ '':'' @
     (if ur_is_admin u then ''1'' else ''0'')"

lemma takeWhile_neq_stop: "c \<notin> set s \<Longrightarrow> takeWhile (\<lambda>x. x \<noteq> c) (s @ c # r) = s"
  by (rule takeWhile_neq_append)

lemma scan_not_colon_field:
  "s \<noteq> [] \<Longrightarrow> length s \<le> n \<Longrightarrow> CHR '':'' \<notin> set s \<Longrightarrow>
   scan_not_colon n (s @ CHR '':'' # r) = Some (s, CHR '':'' # r)"
  by (simp add: scan_not_colon_def takeWhile_neq_append)

lemma sscanf_user_line:
  assumes "user_ok u"
  shows "sscanf_user (user_line u)
      = Some (ur_username u, ur_password_hash u, if ur_is_admin u then ''1'' else ''0'')"
proof -
  have c: "CHR '':'' \<notin> set (ur_username u)" "CHR '':'' \<notin> set (ur_password_hash u)"
    using assms by (auto simp: user_ok_def)
  have "scan_word 7 (if ur_is_admin u then ''1'' else ''0'') = Some (if ur_is_admin u then ''1'' else ''0'')"
    by (simp add: scan_word_def is_space_def)
  then show ?thesis
    using assms c by (simp add: sscanf_user_def user_line_def scan_not_colon_field scan_colon_def user_ok_def)
qed

lemma user_line_chars: "user_ok u \<Longrightarrow> LF \<notin> set (user_line u) \<and> CR \<notin> set (user_line u) \<and> NUL \<notin> set (user_line u)"
  by (auto simp: user_ok_def user_line_def)

lemma admin_flag_set_digit: "admin_flag_set (if b then ''1'' else ''0'') = b"
  by (cases b) (simp_all add: admin_flag_set_def strcasecmp_eq_def)

lemma user_of_line_user_line:
  assumes "user_ok u"
  shows "user_of_line (user_line u @ [LF]) = Some u"
proof -
  have strip: "strip_line (user_line u @ [LF]) = user_line u"
    using user_line_chars [OF assms] takeWhile_neq_append [of LF "user_line u" "[]"]
    by (simp add: strip_line_def takeWhile_neq_id)
  have "user_line u \<noteq> []" "hd (user_line u) \<noteq> CHR ''#''"
    using assms by (auto simp: user_line_def user_ok_def hd_append)
  then show ?thesis
    unfolding user_of_line_def Let_def strip
    using assms by (simp add: sscanf_user_line [OF assms] admin_flag_set_digit user_ok_def)
qed

lemma length_user_line: "user_ok u \<Longrightarrow> length (user_line u) \<le> 98"
  by (simp add: user_ok_def user_line_def)

text \<open>A short line at the front of the file is what \<open>fgets\<close> reads next.\<close>

lemma fgets_line_short:
  assumes "LF \<notin> set l" and "length l + 2 \<le> n"
  shows "fgets_line n (l @ LF # r) = Some (l @ [LF], r)"
proof -
  have "take (n - 1) (l @ LF # r) = l @ LF # take (n - 2 - length l) r"
    using assms(2) by (simp add: take_Cons' diff_diff_add)
  then have "takeWhile (\<lambda>c. c \<noteq> LF) (take (n - 1) (l @ LF # r)) = l"
    using assms(1) by (simp add: takeWhile_neq_append)
  with assms(2) show ?thesis by (simp add: fgets_line_def Let_def)
qed

text \<open>A line of the file: a comment or a user.\<close>

fun db_line :: "string + user_record \<Rightarrow> string" where
  "db_line (Inl comment) = CHR ''#'' # comment @ [LF]"
| "db_line (Inr u) = user_line u @ [LF]"

fun db_line_ok :: "string + user_record \<Rightarrow> bool" where
  "db_line_ok (Inl comment) \<longleftrightarrow> LF \<notin> set comment \<and> NUL \<notin> set comment \<and> length comment \<le> 500"
| "db_line_ok (Inr u) \<longleftrightarrow> user_ok u"

fun db_line_user :: "string + user_record \<Rightarrow> user_record option" where
  "db_line_user (Inl _) = None"
| "db_line_user (Inr u) = Some u"

lemma db_line_fgets:
  assumes "db_line_ok x"
  shows "fgets_line 512 (db_line x @ r) = Some (db_line x, r)" and "c_str (db_line x) = db_line x"
proof -
  obtain l where l: "db_line x = l @ [LF]" "LF \<notin> set l" "NUL \<notin> set l" "length l + 2 \<le> 512"
  proof (cases x)
    case (Inl c)
    with assms that [of "CHR ''#'' # c"] show ?thesis by simp
  next
    case (Inr u)
    then have u: "user_ok u" using assms by simp
    show ?thesis
      using that [of "user_line u"] Inr user_line_chars [OF u] length_user_line [OF u] by simp
  qed
  show "fgets_line 512 (db_line x @ r) = Some (db_line x, r)"
    using fgets_line_short [OF l(2,4), of r] l(1) by simp
  show "c_str (db_line x) = db_line x"
    using l by (intro c_str_id) (simp add: is_c_string_def)
qed

lemma read_lines_db:
  "list_all db_line_ok xs \<Longrightarrow> length xs \<le> fuel \<Longrightarrow>
   read_lines fuel 512 (concat (map db_line xs)) = map db_line xs"
proof (induction xs arbitrary: fuel)
  case Nil
  then show ?case by (cases fuel) (simp_all add: fgets_line_def)
next
  case (Cons x xs)
  then obtain f where fuel: "fuel = Suc f" "length xs \<le> f" and x: "db_line_ok x"
    by (cases fuel) auto
  then show ?case
    using Cons db_line_fgets(1) [OF x, of "concat (map db_line xs)"] db_line_fgets(2) [OF x] by simp
qed

lemma length_db_file: "length xs \<le> length (concat (map db_line xs))"
proof (induction xs)
  case (Cons x xs)
  then show ?case by (cases x) simp_all
qed simp

lemma user_of_db_line: "db_line_ok x \<Longrightarrow> user_of_line (db_line x) = db_line_user x"
proof (cases x)
  case (Inl c)
  then show ?thesis by (simp add: user_of_line_def strip_line_def Let_def)
next
  case (Inr u)
  then show "db_line_ok x \<Longrightarrow> user_of_line (db_line x) = db_line_user x"
    by (simp add: user_of_line_user_line)
qed

lemma map_filter_db_lines:
  "list_all db_line_ok xs \<Longrightarrow>
   List.map_filter user_of_line (map db_line xs) = List.map_filter db_line_user xs"
  by (induction xs) (auto simp: List.map_filter_simps user_of_db_line split: option.split)

text \<open>The database a list of records stands for: a later record replaces an earlier one.\<close>

definition users_map :: "user_record list \<Rightarrow> string \<Rightarrow> (string \<times> bool) option" where
  "users_map us = fold (\<lambda>u m. m(ur_username u \<mapsto> (ur_password_hash u, ur_is_admin u))) us Map.empty"

lemma users_map_rev: "auth_users \<lparr>ad_head = rev us, ad_db_path = p\<rparr> = users_map us"
  by (induction us rule: rev_induct) (simp_all add: auth_users_def users_map_def)

section \<open>Hash strings\<close>

lemma hex2_inj: "hex2 a = hex2 b \<Longrightarrow> a = b"
proof -
  assume h: "hex2 a = hex2 b"
  have dig: "digit i = digit j \<Longrightarrow> i = j" if "i < 16" "j < 16" for i j
  proof -
    have "\<forall>i \<in> {0..<16}. \<forall>j \<in> {0..<16}. digit i = digit j \<longrightarrow> i = j" by code_simp
    then show "digit i = digit j \<Longrightarrow> i = j" using that by simp
  qed
  have "unat a < 256" "unat b < 256"
    using unsigned_less [of a, where ?'a = nat] unsigned_less [of b, where ?'a = nat] by simp_all
  then have "unat a div 16 = unat b div 16" "unat a mod 16 = unat b mod 16"
    using h by (auto simp: hex2_def intro!: dig less_mult_imp_div_less)
  then have "unat a = unat b" by (metis div_mult_mod_eq)
  then show "a = b" by (simp add: word_unat_eq_iff)
qed

lemma length_hex [simp]: "length (concat (map hex2 ds)) = 2 * length ds"
  by (induction ds) (simp_all add: hex2_def)

lemma hex_inj: "concat (map hex2 as) = concat (map hex2 bs) \<Longrightarrow> as = bs"
proof (induction as arbitrary: bs)
  case Nil
  then show ?case by (cases bs) (simp_all add: hex2_def)
next
  case (Cons a as)
  then obtain b bs' where b: "bs = b # bs'"
    by (cases bs) (simp_all add: hex2_def)
  have "length (hex2 a) = length (hex2 b)" by (simp add: hex2_def)
  with Cons.prems b have "hex2 a = hex2 b" "concat (map hex2 as) = concat (map hex2 bs')"
    by (simp_all add: append_eq_append_conv)
  with b Cons.IH hex2_inj show ?case by blast
qed

section \<open>Properties\<close>

text \<open>
  Property C26. The database file is read for what it says: of a file of comments and
  well-formed user lines, every user line becomes a record with its name, hash and admin
  flag, comments count for nothing, and where a name occurs twice the later line wins. A
  file without a user line is refused.
\<close>

theorem auth_init_reads_file:
  assumes "path \<noteq> []" and "files path = Some (concat (map db_line xs))" and "list_all db_line_ok xs"
  shows "fst (auth_init files True [] (Some path))
           = (if List.map_filter db_line_user xs = [] then CHAT_ERR else CHAT_OK) \<and>
         auth_users (snd (auth_init files True [] (Some path))) = users_map (List.map_filter db_line_user xs)"
proof -
  let ?us = "List.map_filter db_line_user xs" and ?file = "concat (map db_line xs)"
  have "load_users [] (read_lines (length ?file) 512 ?file) [] = (CHAT_OK, rev ?us)"
    using assms(3) length_db_file [of xs]
    by (simp add: read_lines_db load_users_records map_filter_db_lines)
  then have "auth_init files True [] (Some path)
      = (if ?us = [] then CHAT_ERR else CHAT_OK, \<lparr>ad_head = rev ?us, ad_db_path = take 255 path\<rparr>)"
    using assms(1,2) by (simp add: auth_init_def)
  then show ?thesis by (simp add: users_map_rev)
qed

definition sample_user :: "string \<Rightarrow> string \<Rightarrow> bool \<Rightarrow> user_record" where
  "sample_user u h a = \<lparr>ur_username = u, ur_password_hash = h, ur_is_admin = a\<rparr>"

theorem auth_init_reads_file_witness:
  "let xs = [Inl '' users'', Inr (sample_user ''alice'' ''0a'' True), Inr (sample_user ''alice'' ''0b'' False)];
       db = snd (auth_init (\<lambda>_. Some (concat (map db_line xs))) True [] (Some ''u.db''))
   in auth_users db ''alice'' = Some (''0b'', False) \<and> auth_users db ''bob'' = None"
proof -
  let ?xs = "[Inl '' users'', Inr (sample_user ''alice'' ''0a'' True), Inr (sample_user ''alice'' ''0b'' False)]"
  have ok: "list_all db_line_ok ?xs" by (simp add: user_ok_def sample_user_def)
  show ?thesis
    using auth_init_reads_file [of "''u.db''" "\<lambda>_. Some (concat (map db_line ?xs))" ?xs, OF _ refl ok]
    by (simp add: Let_def List.map_filter_simps users_map_def sample_user_def)
qed

text \<open>
  A database whose names leave one of the 32 bytes of a name free: no name has 31 characters.
  Only names of the database can log in.
\<close>

definition names_short :: "auth_db \<Rightarrow> bool" where
  "names_short db \<longleftrightarrow> (\<forall>r \<in> set (ad_head db). length (ur_username r) + 1 < MAX_USERNAME_LEN)"

lemma auth_verify_short:
  assumes "auth_verify evp db u pw = CHAT_OK" and "names_short db"
  shows "length u + 1 < MAX_USERNAME_LEN"
proof -
  have "List.find (\<lambda>cur. ur_username cur = u) (ad_head db) \<noteq> None"
    using assms(1) by (auto simp: auth_verify_def split: prod.splits chat_status.splits option.splits)
  then have "\<exists>r \<in> set (ad_head db). ur_username r = u" by (auto simp: find_None_iff)
  with assms(2) show ?thesis by (auto simp: names_short_def)
qed

text \<open>
  Property C27. A stored hash accepts exactly the passwords with the digest of the one it
  was made from: the hexadecimal text fits the 65 bytes with its NUL and loses nothing.
\<close>

theorem auth_verify_digest:
  assumes "evp_sha256 evp" and "auth_hash_password evp pw0 SHA256_HEX_LEN = (CHAT_OK, Some h)"
    and "auth_users db u = Some (h, a)"
  shows "length h = SHA256_HEX_LEN - 1 \<and> (auth_verify evp db u pw = CHAT_OK \<longleftrightarrow> evp pw = evp pw0)"
proof -
  obtain ds where ds: "evp pw0 = Evp_Digest ds" "h = concat (map hex2 ds)"
    using assms(2) by (auto simp: auth_hash_password_def split: evp_result.splits)
  with assms(1) have "length ds = 32" by (simp add: evp_sha256_def)
  moreover have "auth_verify evp db u pw = CHAT_OK \<longleftrightarrow> evp pw = evp pw0"
  proof -
    obtain cur where cur: "List.find (\<lambda>cur. ur_username cur = u) (ad_head db) = Some cur"
        "ur_password_hash cur = h"
      using assms(3) by (auto simp: auth_users_def find_user_map_of)
    show ?thesis
      using cur ds hex_inj
      by (auto simp: auth_verify_def auth_hash_password_def split: evp_result.splits)
  qed
  ultimately show ?thesis using ds(2) by simp
qed

text \<open>A stand-in for the digest, to run the definitions on.\<close>

definition sample_evp :: "string \<Rightarrow> evp_result" where
  "sample_evp pw = Evp_Digest (take 32 (map (\<lambda>c. word_of_nat (of_char c)) pw @ replicate 32 0))"

lemma sample_evp_sha256: "evp_sha256 sample_evp"
  by (auto simp: evp_sha256_def sample_evp_def)

theorem auth_verify_digest_witness:
  "let h = the (snd (auth_hash_password sample_evp ''pw'' SHA256_HEX_LEN));
       db = \<lparr>ad_head = [sample_user ''alice'' h False], ad_db_path = []\<rparr>
   in length h = 64 \<and> auth_verify sample_evp db ''alice'' ''pw'' = CHAT_OK"
proof -
  let ?h = "the (snd (auth_hash_password sample_evp ''pw'' SHA256_HEX_LEN))"
  let ?db = "\<lparr>ad_head = [sample_user ''alice'' ?h False], ad_db_path = []\<rparr>"
  have h: "auth_hash_password sample_evp ''pw'' SHA256_HEX_LEN = (CHAT_OK, Some ?h)"
    by (simp add: auth_hash_password_def sample_evp_def)
  have u: "auth_users ?db ''alice'' = Some (?h, False)"
    by (simp add: auth_users_def sample_user_def)
  show ?thesis
    using auth_verify_digest [OF sample_evp_sha256 h u, of "''pw''"] by (simp add: Let_def)
qed

end
