(* ===== verification/Client_Registry.thy ===== *)
theory Client_Registry
  imports C_Base
begin

text \<open>
  \<open>src/server/client_registry.c\<close>: the table of users that are online, a linked list that
  grows at its head, here a list with the head first. A node comes from \<open>malloc\<close>, so that
  its arrays hold whatever the memory held before \<open>strncpy\<close> writes to them: \<open>registry_add\<close>
  is given that memory, or \<^term>\<open>None\<close> when there is none. Every operation runs under the
  registry's mutex and is one step.
\<close>

section \<open>Data\<close>

record client_node =
  cn_sockfd :: int
  cn_username :: cbuf
  cn_room :: cbuf
  cn_authenticated :: bool
  cn_is_admin :: bool

record client_registry =
  cr_nodes :: "client_node list"
  cr_count :: nat

section \<open>Operations\<close>

definition registry_empty :: client_registry where
  "registry_empty = \<lparr>cr_nodes = [], cr_count = 0\<rparr>"

definition registry_init :: "bool \<Rightarrow> chat_status \<times> client_registry" where
  "registry_init mutex_ok = ((if mutex_ok then CHAT_OK else CHAT_ERR), registry_empty)"

definition registry_destroy :: "client_registry \<Rightarrow> client_registry" where
  "registry_destroy reg = reg\<lparr>cr_nodes := [], cr_count := 0\<rparr>"

definition registry_add ::
  "client_node option \<Rightarrow> client_registry \<Rightarrow> int \<Rightarrow> string \<Rightarrow> string \<Rightarrow> bool \<Rightarrow> chat_status \<times> client_registry" where
  "registry_add mem reg sockfd username room is_admin =
     (case mem of
        None \<Rightarrow> (CHAT_ERR_NOMEM, reg)
      | Some junk \<Rightarrow>
          let node = junk\<lparr>cn_sockfd := sockfd,
                 cn_username := strncpy (cn_username junk) username (MAX_USERNAME_LEN - 1),
                 cn_room := strncpy (cn_room junk) room (MAX_ROOM_NAME_LEN - 1),
                 cn_authenticated := True,
                 cn_is_admin := is_admin\<rparr>
          in if MAX_CLIENTS \<le> cr_count reg then (CHAT_ERR_FULL, reg)
             else if list_ex (\<lambda>cur. c_str (cn_username cur) = username) (cr_nodes reg)
             then (CHAT_ERR_DUPLICATE, reg)
             else (CHAT_OK, reg\<lparr>cr_nodes := node # cr_nodes reg, cr_count := cr_count reg + 1\<rparr>))"

definition registry_remove :: "client_registry \<Rightarrow> int \<Rightarrow> chat_status \<times> client_registry" where
  "registry_remove reg sockfd =
     (case remove_first (\<lambda>cur. cn_sockfd cur = sockfd) (cr_nodes reg) of
        Some nodes \<Rightarrow> (CHAT_OK, reg\<lparr>cr_nodes := nodes, cr_count := cr_count reg - 1\<rparr>)
      | None \<Rightarrow> (CHAT_ERR_NOT_FOUND, reg))"

definition registry_username_exists :: "client_registry \<Rightarrow> string \<Rightarrow> bool" where
  "registry_username_exists reg username =
     (case List.find (\<lambda>cur. c_str (cn_username cur) = username) (cr_nodes reg) of
        Some _ \<Rightarrow> True | None \<Rightarrow> False)"

text \<open>The two getters copy to a buffer of \<open>buflen\<close> bytes; the result has the string in it.\<close>

definition registry_get_username :: "client_registry \<Rightarrow> int \<Rightarrow> nat \<Rightarrow> chat_status \<times> string" where
  "registry_get_username reg sockfd buflen =
     (if buflen = 0 then (CHAT_ERR, [])
      else case List.find (\<lambda>cur. cn_sockfd cur = sockfd) (cr_nodes reg) of
             Some cur \<Rightarrow> (CHAT_OK, take (buflen - 1) (c_str (cn_username cur)))
           | None \<Rightarrow> (CHAT_ERR_NOT_FOUND, []))"

definition registry_get_room :: "client_registry \<Rightarrow> int \<Rightarrow> nat \<Rightarrow> chat_status \<times> string" where
  "registry_get_room reg sockfd buflen =
     (if buflen = 0 then (CHAT_ERR, [])
      else case List.find (\<lambda>cur. cn_sockfd cur = sockfd) (cr_nodes reg) of
             Some cur \<Rightarrow> (CHAT_OK, take (buflen - 1) (c_str (cn_room cur)))
           | None \<Rightarrow> (CHAT_ERR_NOT_FOUND, []))"

text \<open>\<open>registry_set_room\<close> writes to the first node with the descriptor and stops there.\<close>

definition write_room :: "string \<Rightarrow> client_node \<Rightarrow> client_node" where
  "write_room room cur =
     cur\<lparr>cn_room := (strncpy (cn_room cur) room (MAX_ROOM_NAME_LEN - 1))[MAX_ROOM_NAME_LEN - 1 := NUL]\<rparr>"

fun set_room_loop :: "client_node list \<Rightarrow> int \<Rightarrow> string \<Rightarrow> client_node list option" where
  "set_room_loop [] sockfd room = None"
| "set_room_loop (cur # ns) sockfd room =
     (if cn_sockfd cur = sockfd then Some (write_room room cur # ns)
      else map_option ((#) cur) (set_room_loop ns sockfd room))"

definition registry_set_room :: "client_registry \<Rightarrow> int \<Rightarrow> string \<Rightarrow> chat_status \<times> client_registry" where
  "registry_set_room reg sockfd room =
     (case set_room_loop (cr_nodes reg) sockfd room of
        Some nodes \<Rightarrow> (CHAT_OK, reg\<lparr>cr_nodes := nodes\<rparr>)
      | None \<Rightarrow> (CHAT_ERR_NOT_FOUND, reg))"

definition registry_is_admin :: "client_registry \<Rightarrow> int \<Rightarrow> bool" where
  "registry_is_admin reg sockfd =
     (case List.find (\<lambda>cur. cn_sockfd cur = sockfd) (cr_nodes reg) of
        Some cur \<Rightarrow> cn_is_admin cur | None \<Rightarrow> False)"

definition registry_get_sockfd_by_username :: "client_registry \<Rightarrow> string \<Rightarrow> int" where
  "registry_get_sockfd_by_username reg username =
     (case List.find (\<lambda>cur. c_str (cn_username cur) = username) (cr_nodes reg) of
        Some cur \<Rightarrow> cn_sockfd cur | None \<Rightarrow> -1)"

definition registry_count :: "client_registry \<Rightarrow> nat" where
  "registry_count reg = cr_count reg"

text \<open>
  The two list builders print behind what is already in the buffer, \<open>used\<close> being its
  length; a piece that does not fit is cut by \<open>snprintf\<close> and ends the loop.
\<close>

fun user_list_loop :: "client_node list \<Rightarrow> string \<Rightarrow> bool \<Rightarrow> nat \<Rightarrow> chat_status \<times> string" where
  "user_list_loop [] buf first buflen = (CHAT_OK, buf)"
| "user_list_loop (cur # ns) buf first buflen =
     (let used = length buf;
          piece = (if first then c_str (cn_username cur) else '','' @ c_str (cn_username cur))
      in if buflen - used \<le> length piece then (CHAT_ERR, buf @ take (buflen - used - 1) piece)
         else user_list_loop ns (buf @ piece) False buflen)"

definition registry_build_user_list :: "client_registry \<Rightarrow> nat \<Rightarrow> chat_status \<times> string" where
  "registry_build_user_list reg buflen =
     (if buflen = 0 then (CHAT_ERR, []) else user_list_loop (cr_nodes reg) [] True buflen)"

fun room_user_list_loop ::
  "client_node list \<Rightarrow> string \<Rightarrow> string \<Rightarrow> bool \<Rightarrow> nat \<Rightarrow> chat_status \<times> string" where
  "room_user_list_loop [] room buf first buflen = (CHAT_OK, buf)"
| "room_user_list_loop (cur # ns) room buf first buflen =
     (if c_str (cn_room cur) \<noteq> room then room_user_list_loop ns room buf first buflen
      else
        let used = length buf;
            piece = (if first then c_str (cn_username cur) else '','' @ c_str (cn_username cur))
        in if buflen - used \<le> length piece then (CHAT_ERR, buf @ take (buflen - used - 1) piece)
           else room_user_list_loop ns room (buf @ piece) False buflen)"

definition registry_build_room_user_list ::
  "client_registry \<Rightarrow> string \<Rightarrow> nat \<Rightarrow> chat_status \<times> string" where
  "registry_build_room_user_list reg room buflen =
     (if buflen = 0 then (CHAT_ERR, []) else room_user_list_loop (cr_nodes reg) room [] True buflen)"

text \<open>
  The iterators call \<open>fn\<close> on a copy of each node and stop at the first status that is not
  \<open>CHAT_OK\<close>. The lock is released around the call; here no other thread changes the list
  in between (the walk of \<open>Interleaving\<close> is the one in which they do).
\<close>

fun foreach_loop ::
  "(client_node \<Rightarrow> 's \<Rightarrow> chat_status \<times> 's) \<Rightarrow> client_node list \<Rightarrow> 's \<Rightarrow> chat_status \<times> 's" where
  "foreach_loop fn [] ctx = (CHAT_OK, ctx)"
| "foreach_loop fn (cur # ns) ctx =
     (let (rc, ctx') = fn cur ctx in if rc \<noteq> CHAT_OK then (rc, ctx') else foreach_loop fn ns ctx')"

definition registry_foreach ::
  "client_registry \<Rightarrow> (client_node \<Rightarrow> 's \<Rightarrow> chat_status \<times> 's) \<Rightarrow> 's \<Rightarrow> chat_status \<times> 's" where
  "registry_foreach reg fn ctx = foreach_loop fn (cr_nodes reg) ctx"

fun foreach_in_room_loop ::
  "string \<Rightarrow> (client_node \<Rightarrow> 's \<Rightarrow> chat_status \<times> 's) \<Rightarrow> client_node list \<Rightarrow> 's \<Rightarrow> chat_status \<times> 's" where
  "foreach_in_room_loop room fn [] ctx = (CHAT_OK, ctx)"
| "foreach_in_room_loop room fn (cur # ns) ctx =
     (if c_str (cn_room cur) = room then
        (let (rc, ctx') = fn cur ctx
         in if rc \<noteq> CHAT_OK then (rc, ctx') else foreach_in_room_loop room fn ns ctx')
      else foreach_in_room_loop room fn ns ctx)"

definition registry_foreach_in_room ::
  "client_registry \<Rightarrow> string \<Rightarrow> (client_node \<Rightarrow> 's \<Rightarrow> chat_status \<times> 's) \<Rightarrow> 's \<Rightarrow> chat_status \<times> 's" where
  "registry_foreach_in_room reg room fn ctx = foreach_in_room_loop room fn (cr_nodes reg) ctx"

section \<open>The contract of a session table\<close>

text \<open>
  What the command handlers rely on: the table is a finite map from descriptors to a user
  name, a room and the admin flag, no name occurs twice, and there are at most
  \<open>MAX_CLIENTS\<close> entries. \<open>mem_ok\<close> says when the memory given to \<open>add\<close> is usable for a name
  and a room.
\<close>

locale session_table =
  fixes sessions :: "'r \<Rightarrow> int \<Rightarrow> (string \<times> string \<times> bool) option"
    and inv :: "'r \<Rightarrow> bool"
    and mem_ok :: "'m \<Rightarrow> string \<Rightarrow> string \<Rightarrow> bool"
    and add :: "'m \<Rightarrow> 'r \<Rightarrow> int \<Rightarrow> string \<Rightarrow> string \<Rightarrow> bool \<Rightarrow> chat_status \<times> 'r"
    and del :: "'r \<Rightarrow> int \<Rightarrow> chat_status \<times> 'r"
    and move :: "'r \<Rightarrow> int \<Rightarrow> string \<Rightarrow> chat_status \<times> 'r"
  assumes add_keeps: "inv r \<Longrightarrow> mem_ok m u rm \<Longrightarrow> sessions r fd = None \<Longrightarrow> inv (snd (add m r fd u rm a))"
    and add_ok: "inv r \<Longrightarrow> mem_ok m u rm \<Longrightarrow> sessions r fd = None \<Longrightarrow> add m r fd u rm a = (CHAT_OK, r') \<Longrightarrow>
      sessions r' = (sessions r)(fd \<mapsto> (u, rm, a)) \<and> (\<forall>fd' rm' a'. sessions r fd' \<noteq> Some (u, rm', a'))"
    and add_fails: "add m r fd u rm a = (st, r') \<Longrightarrow> st \<noteq> CHAT_OK \<Longrightarrow> r' = r"
    and del_keeps: "inv r \<Longrightarrow> inv (snd (del r fd))"
    and del_sessions: "inv r \<Longrightarrow> sessions (snd (del r fd)) = (sessions r)(fd := None)"
    and del_status: "inv r \<Longrightarrow> fst (del r fd) = (if sessions r fd = None then CHAT_ERR_NOT_FOUND else CHAT_OK)"
    and move_keeps: "inv r \<Longrightarrow> is_c_string rm \<Longrightarrow> inv (snd (move r fd rm))"
    and move_sessions: "inv r \<Longrightarrow> is_c_string rm \<Longrightarrow> sessions (snd (move r fd rm)) =
      (case sessions r fd of None \<Rightarrow> sessions r
       | Some (u, _, a) \<Rightarrow> (sessions r)(fd \<mapsto> (u, take (MAX_ROOM_NAME_LEN - 1) rm, a)))"
    and one_owner: "inv r \<Longrightarrow> sessions r fd = Some (u, rm, a) \<Longrightarrow> sessions r fd' = Some (u, rm', a') \<Longrightarrow> fd = fd'"
    and bounded: "inv r \<Longrightarrow> finite (dom (sessions r)) \<and> card (dom (sessions r)) \<le> MAX_CLIENTS"
begin

text \<open>Who is online under which name.\<close>

definition online :: "'r \<Rightarrow> string set" where
  "online r = {u. \<exists>fd rm a. sessions r fd = Some (u, rm, a)}"

lemma online_add: "inv r \<Longrightarrow> mem_ok m u rm \<Longrightarrow> sessions r fd = None \<Longrightarrow>
    add m r fd u rm a = (CHAT_OK, r') \<Longrightarrow> u \<notin> online r \<and> online r' = insert u (online r)"
proof -
  assume "inv r" "mem_ok m u rm" and none: "sessions r fd = None" and "add m r fd u rm a = (CHAT_OK, r')"
  then have new: "sessions r' = (sessions r)(fd \<mapsto> (u, rm, a))"
      "\<forall>fd' rm' a'. sessions r fd' \<noteq> Some (u, rm', a')"
    using add_ok by blast+
  have "online r' = insert u (online r)"
    unfolding online_def new(1) using none by (auto split: if_splits) (metis option.distinct(1))
  with new(2) show ?thesis by (auto simp: online_def)
qed

lemma online_move: "inv r \<Longrightarrow> is_c_string rm \<Longrightarrow> online (snd (move r fd rm)) = online r"
proof -
  assume r: "inv r" "is_c_string rm"
  show ?thesis
  proof (cases "sessions r fd")
    case None
    then show ?thesis by (simp add: online_def move_sessions [OF r])
  next
    case (Some e)
    then obtain u rm' a where e: "sessions r fd = Some (u, rm', a)" by (cases e) auto
    show ?thesis
      unfolding online_def move_sessions [OF r] e using e
      by (auto split: if_splits) (metis Pair_inject option.inject)
  qed
qed

text \<open>A session that is added, moved and removed leaves no trace.\<close>

lemma login_logout:
  assumes "inv r" "mem_ok m u rm" "sessions r fd = None" "add m r fd u rm a = (CHAT_OK, r')"
  shows "sessions (snd (del r' fd)) = sessions r"
proof -
  have "inv r'" using add_keeps [OF assms(1-3), of a] assms(4) by simp
  moreover have "sessions r' = (sessions r)(fd \<mapsto> (u, rm, a))"
    using add_ok [OF assms] by simp
  ultimately show ?thesis
    using assms(3) by (simp add: del_sessions fun_upd_idem)
qed

end

section \<open>The registry keeps the contract\<close>

definition node_view :: "client_node \<Rightarrow> string \<times> string \<times> bool" where
  "node_view n = (c_str (cn_username n), c_str (cn_room n), cn_is_admin n)"

definition registry_sessions :: "client_registry \<Rightarrow> int \<Rightarrow> (string \<times> string \<times> bool) option" where
  "registry_sessions reg fd =
     map_option node_view (List.find (\<lambda>cur. cn_sockfd cur = fd) (cr_nodes reg))"

text \<open>The arrays of a node have their sizes and hold terminated strings.\<close>

definition node_ok :: "client_node \<Rightarrow> bool" where
  "node_ok n \<longleftrightarrow> length (cn_username n) = MAX_USERNAME_LEN \<and> nul_terminated (cn_username n) \<and>
     length (cn_room n) = MAX_ROOM_NAME_LEN \<and> nul_terminated (cn_room n) \<and> cn_authenticated n"

definition registry_inv :: "client_registry \<Rightarrow> bool" where
  "registry_inv reg \<longleftrightarrow> cr_count reg = length (cr_nodes reg) \<and> cr_count reg \<le> MAX_CLIENTS \<and>
     distinct (map cn_sockfd (cr_nodes reg)) \<and>
     distinct (map (\<lambda>n. c_str (cn_username n)) (cr_nodes reg)) \<and> (\<forall>n \<in> set (cr_nodes reg). node_ok n)"

text \<open>The bytes of a node: its arrays have the declared sizes, in a node and in the memory for one.\<close>

definition node_typed :: "client_node \<Rightarrow> bool" where
  "node_typed n \<longleftrightarrow> length (cn_username n) = MAX_USERNAME_LEN \<and> length (cn_room n) = MAX_ROOM_NAME_LEN"

definition node_sized :: "client_node option \<Rightarrow> bool" where
  "node_sized mem \<longleftrightarrow> (\<forall>n. mem = Some n \<longrightarrow> node_typed n)"

text \<open>
  When a copy of one byte less than the array ends in a NUL: the string is shorter than
  that, or the last byte of the array happens to be a NUL already.
\<close>

definition copy_ok :: "cbuf \<Rightarrow> string \<Rightarrow> nat \<Rightarrow> bool" where
  "copy_ok dst s n \<longleftrightarrow> length dst = n \<and> is_c_string s \<and> length s < n \<and>
     (length s + 1 < n \<or> dst ! (n - 1) = NUL)"

definition node_mem_ok :: "client_node option \<Rightarrow> string \<Rightarrow> string \<Rightarrow> bool" where
  "node_mem_ok mem u rm =
     (case mem of None \<Rightarrow> True
      | Some junk \<Rightarrow> copy_ok (cn_username junk) u MAX_USERNAME_LEN \<and> copy_ok (cn_room junk) rm MAX_ROOM_NAME_LEN)"

text \<open>A name that leaves a byte of the array free needs nothing of the memory but its size.\<close>

lemma node_mem_short:
  assumes "node_sized mem" and "is_c_string u" and "length u + 1 < MAX_USERNAME_LEN"
    and "is_c_string rm" and "length rm + 1 < MAX_ROOM_NAME_LEN"
  shows "node_mem_ok mem u rm"
  using assms by (auto simp: node_mem_ok_def node_sized_def node_typed_def copy_ok_def split: option.split)

lemma copy_ok_copy:
  assumes "copy_ok dst s n"
  shows "c_str (strncpy dst s (n - 1)) = s" and "nul_terminated (strncpy dst s (n - 1))"
    and "length (strncpy dst s (n - 1)) = n"
proof -
  from assms obtain k where n: "n = Suc k" by (cases n) (auto simp: copy_ok_def)
  with assms have s: "length dst = Suc k" "is_c_string s" "length s \<le> k" "length s < k \<or> dst ! k = NUL"
    by (auto simp: copy_ok_def)
  show "length (strncpy dst s (n - 1)) = n" using n s by simp
  have "c_str (strncpy dst s k) = s \<and> nul_terminated (strncpy dst s k)"
  proof (cases "length s < k")
    case True
    with s show ?thesis by (simp add: c_str_strncpy_short nul_terminated_strncpy_short)
  next
    case False
    with s have "strncpy dst s k = s @ NUL # []" by (simp add: strncpy_last)
    with s(2) show ?thesis by (simp add: c_str_append_nul nul_terminated_def)
  qed
  then show "c_str (strncpy dst s (n - 1)) = s" "nul_terminated (strncpy dst s (n - 1))"
    using n by simp_all
qed

lemma set_room_loop_None: "set_room_loop ns fd room = None \<longleftrightarrow> fd \<notin> cn_sockfd ` set ns"
  by (induction ns) auto

text \<open>Only the room of the node with the descriptor changes.\<close>

lemma set_room_loop_Some:
  "set_room_loop ns fd room = Some ns' \<Longrightarrow> distinct (map cn_sockfd ns) \<Longrightarrow>
   ns' = map (\<lambda>n. if cn_sockfd n = fd then write_room room n else n) ns"
proof (induction ns arbitrary: ns')
  case Nil
  then show ?case by simp
next
  case (Cons n ns)
  show ?case
  proof (cases "cn_sockfd n = fd")
    case True
    with Cons.prems have "\<forall>m \<in> set ns. cn_sockfd m \<noteq> fd" by (auto simp: image_iff)
    then have "map (\<lambda>n. if cn_sockfd n = fd then write_room room n else n) ns = ns"
      by (simp add: map_idI)
    with True Cons.prems(1) show ?thesis by simp
  next
    case False
    with Cons show ?thesis by auto
  qed
qed

lemma write_room_simps [simp]:
  "cn_sockfd (write_room room n) = cn_sockfd n"
  "cn_username (write_room room n) = cn_username n"
  "cn_is_admin (write_room room n) = cn_is_admin n"
  "cn_authenticated (write_room room n) = cn_authenticated n"
  by (simp_all add: write_room_def)

lemma write_room_room:
  assumes "length (cn_room n) = 32" and "is_c_string room"
  shows "c_str (cn_room (write_room room n)) = take 31 room"
    and "nul_terminated (cn_room (write_room room n))"
    and "length (cn_room (write_room room n)) = 32"
  using strncpy_then_nul [of "cn_room n" 31 room] assms by (simp_all add: write_room_def)

lemma registry_inv_empty: "registry_inv registry_empty"
  by (simp add: registry_inv_def registry_empty_def)

lemma registry_sessions_None:
  "registry_sessions reg fd = None \<longleftrightarrow> fd \<notin> cn_sockfd ` set (cr_nodes reg)"
  by (simp add: registry_sessions_def find_key_None)

lemma registry_sessions_node:
  "registry_inv reg \<Longrightarrow> registry_sessions reg fd = Some e \<longleftrightarrow>
     (\<exists>n \<in> set (cr_nodes reg). cn_sockfd n = fd \<and> node_view n = e)"
proof -
  assume inv: "registry_inv reg"
  then have d: "distinct (map cn_sockfd (cr_nodes reg))" by (simp add: registry_inv_def)
  show ?thesis
  proof
    assume "registry_sessions reg fd = Some e"
    then show "\<exists>n \<in> set (cr_nodes reg). cn_sockfd n = fd \<and> node_view n = e"
      by (auto simp: registry_sessions_def dest: find_key_Some)
  next
    assume "\<exists>n \<in> set (cr_nodes reg). cn_sockfd n = fd \<and> node_view n = e"
    then obtain n where "n \<in> set (cr_nodes reg)" "cn_sockfd n = fd" "node_view n = e" by blast
    with find_key_unique [OF d] show "registry_sessions reg fd = Some e"
      by (auto simp: registry_sessions_def)
  qed
qed

lemma registry_add_inv:
  assumes inv: "registry_inv reg" and mem: "node_mem_ok mem u rm" and new: "registry_sessions reg fd = None"
  shows "registry_inv (snd (registry_add mem reg fd u rm a))"
    and "registry_add mem reg fd u rm a = (CHAT_OK, reg') \<Longrightarrow>
      registry_sessions reg' = (registry_sessions reg)(fd \<mapsto> (u, rm, a)) \<and>
      (\<forall>fd' rm' a'. registry_sessions reg fd' \<noteq> Some (u, rm', a'))"
proof -
  have "registry_inv (snd (registry_add mem reg fd u rm a)) \<and>
    (registry_add mem reg fd u rm a = (CHAT_OK, reg') \<longrightarrow>
      registry_sessions reg' = (registry_sessions reg)(fd \<mapsto> (u, rm, a)) \<and>
      (\<forall>fd' rm' a'. registry_sessions reg fd' \<noteq> Some (u, rm', a')))"
  proof (cases "fst (registry_add mem reg fd u rm a) = CHAT_OK")
    case False
    then have "snd (registry_add mem reg fd u rm a) = reg"
      by (auto simp: registry_add_def Let_def split: option.splits if_splits)
    with False inv show ?thesis by auto
  next
    case True
    then obtain junk where m: "mem = Some junk"
      by (auto simp: registry_add_def split: option.splits)
    let ?un = "strncpy (cn_username junk) u 31" and ?rn = "strncpy (cn_room junk) rm 31"
    let ?node = "junk\<lparr>cn_sockfd := fd, cn_username := ?un, cn_room := ?rn,
                   cn_authenticated := True, cn_is_admin := a\<rparr>"
    have copies: "c_str ?un = u" "nul_terminated ?un" "length ?un = 32"
        "c_str ?rn = rm" "nul_terminated ?rn" "length ?rn = 32"
      using mem m copy_ok_copy [of "cn_username junk" u 32] copy_ok_copy [of "cn_room junk" rm 32]
      by (simp_all add: node_mem_ok_def)
    from True m have cond: "cr_count reg < 100" "\<forall>n \<in> set (cr_nodes reg). c_str (cn_username n) \<noteq> u"
      and res: "registry_add mem reg fd u rm a
          = (CHAT_OK, reg\<lparr>cr_nodes := ?node # cr_nodes reg, cr_count := cr_count reg + 1\<rparr>)"
      by (auto simp: registry_add_def list_ex_iff Let_def split: if_splits)
    have fd: "fd \<notin> cn_sockfd ` set (cr_nodes reg)"
      using new by (simp add: registry_sessions_None)
    have inv': "registry_inv (snd (registry_add mem reg fd u rm a))"
      using inv fd cond copies unfolding res
      by (auto simp: registry_inv_def node_ok_def)
    have sess: "registry_sessions (snd (registry_add mem reg fd u rm a))
        = (registry_sessions reg)(fd \<mapsto> (u, rm, a))"
      unfolding res using copies by (auto simp: registry_sessions_def node_view_def fun_eq_iff)
    have "registry_sessions reg fd' \<noteq> Some (u, rm', a')" for fd' rm' a'
      using cond(2) registry_sessions_node [OF inv] by (auto simp: node_view_def)
    with inv' sess show ?thesis by auto
  qed
  then show "registry_inv (snd (registry_add mem reg fd u rm a))"
    and "registry_add mem reg fd u rm a = (CHAT_OK, reg') \<Longrightarrow>
      registry_sessions reg' = (registry_sessions reg)(fd \<mapsto> (u, rm, a)) \<and>
      (\<forall>fd' rm' a'. registry_sessions reg fd' \<noteq> Some (u, rm', a'))"
    by blast+
qed

lemma registry_add_fails:
  "registry_add mem reg fd u rm a = (st, reg') \<Longrightarrow> st \<noteq> CHAT_OK \<Longrightarrow> reg' = reg"
  by (auto simp: registry_add_def Let_def split: option.splits if_splits)

lemma find_filter_key:
  "List.find (\<lambda>x. f x = k) (filter (\<lambda>x. f x \<noteq> j) xs) =
     (if k = j then None else List.find (\<lambda>x. f x = k) xs)"
  by (induction xs) auto

lemma registry_remove_inv:
  assumes inv: "registry_inv reg"
  shows "registry_inv (snd (registry_remove reg fd))"
    and "registry_sessions (snd (registry_remove reg fd)) = (registry_sessions reg)(fd := None)"
    and "fst (registry_remove reg fd)
      = (if registry_sessions reg fd = None then CHAT_ERR_NOT_FOUND else CHAT_OK)"
proof -
  have d: "distinct (map cn_sockfd (cr_nodes reg))" using inv by (simp add: registry_inv_def)
  have "registry_inv (snd (registry_remove reg fd)) \<and>
      registry_sessions (snd (registry_remove reg fd)) = (registry_sessions reg)(fd := None) \<and>
      fst (registry_remove reg fd)
        = (if registry_sessions reg fd = None then CHAT_ERR_NOT_FOUND else CHAT_OK)"
  proof (cases "remove_first (\<lambda>cur. cn_sockfd cur = fd) (cr_nodes reg)")
    case None
    then have "fd \<notin> cn_sockfd ` set (cr_nodes reg)" by (auto simp: remove_first_None)
    then have "registry_sessions reg fd = None" by (simp add: registry_sessions_None)
    with None inv show ?thesis by (simp add: registry_remove_def fun_upd_idem)
  next
    case (Some ys)
    have ys: "ys = filter (\<lambda>n. cn_sockfd n \<noteq> fd) (cr_nodes reg)"
      using remove_first_key [OF Some d] .
    have "\<exists>n \<in> set (cr_nodes reg). cn_sockfd n = fd"
      using Some remove_first_None [of "\<lambda>n. cn_sockfd n = fd" "cr_nodes reg"] by force
    then have "registry_sessions reg fd \<noteq> None" by (auto simp: registry_sessions_None)
    moreover have "registry_sessions (snd (registry_remove reg fd)) = (registry_sessions reg)(fd := None)"
      using Some by (auto simp: registry_remove_def registry_sessions_def ys find_filter_key fun_eq_iff)
    moreover have "registry_inv (snd (registry_remove reg fd))"
      using inv Some remove_first_length [OF Some] remove_first_subset [OF Some]
        remove_first_distinct [OF Some, of cn_sockfd]
        remove_first_distinct [OF Some, of "\<lambda>n. c_str (cn_username n)"]
      by (auto simp: registry_inv_def registry_remove_def)
    ultimately show ?thesis using Some by (simp add: registry_remove_def)
  qed
  then show "registry_inv (snd (registry_remove reg fd))"
    and "registry_sessions (snd (registry_remove reg fd)) = (registry_sessions reg)(fd := None)"
    and "fst (registry_remove reg fd)
      = (if registry_sessions reg fd = None then CHAT_ERR_NOT_FOUND else CHAT_OK)"
    by blast+
qed

lemma find_map_key:
  "(\<And>x. f (g x) = f x) \<Longrightarrow>
   List.find (\<lambda>x. f x = k) (map g xs) = map_option g (List.find (\<lambda>x. f x = k) xs)"
  by (induction xs) auto

lemma registry_set_room_nodes:
  assumes "registry_inv reg"
  shows "cr_nodes (snd (registry_set_room reg fd room)) =
      map (\<lambda>n. if cn_sockfd n = fd then write_room room n else n) (cr_nodes reg)"
    and "cr_count (snd (registry_set_room reg fd room)) = cr_count reg"
    and "fst (registry_set_room reg fd room)
      = (if registry_sessions reg fd = None then CHAT_ERR_NOT_FOUND else CHAT_OK)"
proof -
  have d: "distinct (map cn_sockfd (cr_nodes reg))" using assms by (simp add: registry_inv_def)
  have "map (\<lambda>n. if cn_sockfd n = fd then write_room room n else n) (cr_nodes reg) = cr_nodes reg"
    if "fd \<notin> cn_sockfd ` set (cr_nodes reg)"
    using that by (intro map_idI) auto
  then show "cr_nodes (snd (registry_set_room reg fd room)) =
      map (\<lambda>n. if cn_sockfd n = fd then write_room room n else n) (cr_nodes reg)"
    using d set_room_loop_Some [of "cr_nodes reg" fd room] set_room_loop_None [of "cr_nodes reg" fd room]
    by (auto simp: registry_set_room_def split: option.splits)
  show "cr_count (snd (registry_set_room reg fd room)) = cr_count reg"
    by (simp add: registry_set_room_def split: option.splits)
  show "fst (registry_set_room reg fd room)
      = (if registry_sessions reg fd = None then CHAT_ERR_NOT_FOUND else CHAT_OK)"
    using set_room_loop_None [of "cr_nodes reg" fd room]
    by (auto simp: registry_set_room_def registry_sessions_None split: option.splits)
qed

lemma registry_set_room_inv:
  assumes inv: "registry_inv reg" and rm: "is_c_string rm"
  shows "registry_inv (snd (registry_set_room reg fd rm))"
    and "registry_sessions (snd (registry_set_room reg fd rm)) =
      (case registry_sessions reg fd of None \<Rightarrow> registry_sessions reg
       | Some (u, _, a) \<Rightarrow> (registry_sessions reg)(fd \<mapsto> (u, take (MAX_ROOM_NAME_LEN - 1) rm, a)))"
proof -
  let ?g = "\<lambda>n. if cn_sockfd n = fd then write_room rm n else n"
  note nodes = registry_set_room_nodes [OF inv, of fd rm]
  have keys: "map cn_sockfd (map ?g (cr_nodes reg)) = map cn_sockfd (cr_nodes reg)"
    "map (\<lambda>n. c_str (cn_username n)) (map ?g (cr_nodes reg)) = map (\<lambda>n. c_str (cn_username n)) (cr_nodes reg)"
    by auto
  have "node_ok (?g n)" if "n \<in> set (cr_nodes reg)" for n
    using inv that write_room_room [of n rm] rm by (auto simp: registry_inv_def node_ok_def)
  then have "\<forall>n \<in> set (map ?g (cr_nodes reg)). node_ok n" by (auto simp only: set_map)
  then show "registry_inv (snd (registry_set_room reg fd rm))"
    using inv unfolding registry_inv_def nodes(1,2) keys length_map by blast
  have view: "node_view (write_room rm n) = (c_str (cn_username n), take 31 rm, cn_is_admin n)"
    if "n \<in> set (cr_nodes reg)" for n
    using inv that write_room_room [of n rm] rm by (auto simp: registry_inv_def node_ok_def node_view_def)
  have find: "List.find (\<lambda>cur. cn_sockfd cur = x) (map ?g (cr_nodes reg))
      = map_option ?g (List.find (\<lambda>cur. cn_sockfd cur = x) (cr_nodes reg))" for x
    by (rule find_map_key) simp
  have other: "registry_sessions (snd (registry_set_room reg fd rm)) x = registry_sessions reg x"
    if "x \<noteq> fd" for x
    using that unfolding registry_sessions_def nodes(1) find
    by (cases "List.find (\<lambda>cur. cn_sockfd cur = x) (cr_nodes reg)") (auto dest: find_key_Some)
  have at_fd: "registry_sessions (snd (registry_set_room reg fd rm)) fd
      = map_option (\<lambda>(u, _, a). (u, take 31 rm, a)) (registry_sessions reg fd)"
  proof (cases "List.find (\<lambda>cur. cn_sockfd cur = fd) (cr_nodes reg)")
    case None
    then show ?thesis unfolding registry_sessions_def nodes(1) find by simp
  next
    case (Some n)
    then have n: "n \<in> set (cr_nodes reg)" "cn_sockfd n = fd" by (auto dest: find_key_Some)
    with Some view [OF n(1)] show ?thesis
      unfolding registry_sessions_def nodes(1) find by (simp add: node_view_def)
  qed
  show "registry_sessions (snd (registry_set_room reg fd rm)) =
      (case registry_sessions reg fd of None \<Rightarrow> registry_sessions reg
       | Some (u, _, a) \<Rightarrow> (registry_sessions reg)(fd \<mapsto> (u, take (MAX_ROOM_NAME_LEN - 1) rm, a)))"
  proof (rule ext)
    fix x
    show "registry_sessions (snd (registry_set_room reg fd rm)) x =
      (case registry_sessions reg fd of None \<Rightarrow> registry_sessions reg
       | Some (u, _, a) \<Rightarrow> (registry_sessions reg)(fd \<mapsto> (u, take (MAX_ROOM_NAME_LEN - 1) rm, a))) x"
      using other [of x] at_fd by (cases "x = fd") (simp_all split: option.split prod.split)
  qed
qed

interpretation reg: session_table registry_sessions registry_inv node_mem_ok
  registry_add registry_remove registry_set_room
proof
  fix r fd u rm a fd' rm' a'
  assume inv: "registry_inv r" and "registry_sessions r fd = Some (u, rm, a)"
    "registry_sessions r fd' = Some (u, rm', a')"
  then obtain n n' where n: "n \<in> set (cr_nodes r)" "cn_sockfd n = fd" "c_str (cn_username n) = u"
      "n' \<in> set (cr_nodes r)" "cn_sockfd n' = fd'" "c_str (cn_username n') = u"
    by (auto simp: registry_sessions_node node_view_def)
  moreover have "inj_on (\<lambda>n. c_str (cn_username n)) (set (cr_nodes r))"
    using inv by (simp add: registry_inv_def distinct_map)
  ultimately have "n = n'" by (metis inj_onD)
  with n show "fd = fd'" by simp
next
  fix r
  assume inv: "registry_inv r"
  have dom: "dom (registry_sessions r) = cn_sockfd ` set (cr_nodes r)"
    using registry_sessions_None [of r] by (auto simp: dom_def)
  have "card (cn_sockfd ` set (cr_nodes r)) \<le> length (cr_nodes r)"
    by (metis card_length image_set length_map)
  with inv show "finite (dom (registry_sessions r)) \<and> card (dom (registry_sessions r)) \<le> MAX_CLIENTS"
    unfolding dom by (auto simp: registry_inv_def)
qed (rule registry_add_inv registry_add_fails registry_remove_inv registry_set_room_inv; assumption)+

lemma registry_count_sessions: "registry_inv r \<Longrightarrow> registry_count r = card (dom (registry_sessions r))"
proof -
  assume inv: "registry_inv r"
  have dom: "dom (registry_sessions r) = set (map cn_sockfd (cr_nodes r))"
    using registry_sessions_None [of r] by (auto simp: dom_def)
  have "card (set (map cn_sockfd (cr_nodes r))) = length (map cn_sockfd (cr_nodes r))"
    using inv by (intro distinct_card) (simp add: registry_inv_def)
  with inv show ?thesis by (simp add: dom registry_count_def registry_inv_def)
qed

section \<open>Lists of users and iteration\<close>

definition node_name :: "client_node \<Rightarrow> string" where
  "node_name n = c_str (cn_username n)"

lemma user_list_loop_pieces:
  "user_list_loop ns buf first buflen = print_pieces '','' (map node_name ns) buf first buflen"
  by (induction ns arbitrary: buf first) (simp_all add: Let_def node_name_def)

lemma user_list_loop_printed:
  "length buf < buflen \<Longrightarrow>
   user_list_loop ns buf first buflen = printed buflen (buf @ join_sep '','' first (map node_name ns))"
  by (simp add: user_list_loop_pieces print_pieces_printed)

lemma room_user_list_loop_filter:
  "room_user_list_loop ns room buf first buflen
     = user_list_loop (filter (\<lambda>n. c_str (cn_room n) = room) ns) buf first buflen"
  by (induction ns arbitrary: buf first) (simp_all add: Let_def)

lemma foreach_in_room_loop_filter:
  "foreach_in_room_loop room fn ns ctx = foreach_loop fn (filter (\<lambda>n. c_str (cn_room n) = room) ns) ctx"
  by (induction ns arbitrary: ctx) (simp_all split: prod.split)

lemma foreach_loop_guard:
  "foreach_loop (\<lambda>n ctx. if P n then fn n ctx else (CHAT_OK, ctx)) ns ctx
     = foreach_loop fn (filter P ns) ctx"
  by (induction ns arbitrary: ctx) (simp_all split: prod.split)

lemma foreach_loop_append_ok:
  "foreach_loop fn ns ctx = (CHAT_OK, ctx') \<Longrightarrow>
   foreach_loop fn (ns @ ms) ctx = foreach_loop fn ms ctx'"
  by (induction ns arbitrary: ctx) (auto split: prod.splits if_splits)

section \<open>Looking up\<close>

lemma registry_get_username_sessions:
  "0 < buflen \<Longrightarrow> registry_get_username reg fd buflen =
     (case registry_sessions reg fd of
        None \<Rightarrow> (CHAT_ERR_NOT_FOUND, [])
      | Some (u, _, _) \<Rightarrow> (CHAT_OK, take (buflen - 1) u))"
  by (simp add: registry_get_username_def registry_sessions_def node_view_def split: option.split)

lemma registry_get_room_sessions:
  "0 < buflen \<Longrightarrow> registry_get_room reg fd buflen =
     (case registry_sessions reg fd of
        None \<Rightarrow> (CHAT_ERR_NOT_FOUND, [])
      | Some (_, rm, _) \<Rightarrow> (CHAT_OK, take (buflen - 1) rm))"
  by (simp add: registry_get_room_def registry_sessions_def node_view_def split: option.split)

lemma registry_is_admin_sessions:
  "registry_is_admin reg fd =
     (case registry_sessions reg fd of None \<Rightarrow> False | Some (_, _, a) \<Rightarrow> a)"
  by (simp add: registry_is_admin_def registry_sessions_def node_view_def split: option.split)

text \<open>A stored string fits the 32 bytes that every caller of a getter has.\<close>

lemma registry_sessions_short:
  assumes "registry_inv reg" and "registry_sessions reg fd = Some (u, rm, a)"
  shows "length u < 32" "length rm < 32" "is_c_string u" "is_c_string rm"
proof -
  obtain n where n: "n \<in> set (cr_nodes reg)" "node_view n = (u, rm, a)"
    using assms by (auto simp: registry_sessions_node)
  then have ok: "node_ok n" using assms(1) by (simp add: registry_inv_def)
  have "u = c_str (cn_username n)" "rm = c_str (cn_room n)"
    using n(2) by (simp_all add: node_view_def)
  with ok length_c_str_less [of "cn_username n"] length_c_str_less [of "cn_room n"]
  show "length u < 32" "length rm < 32" "is_c_string u" "is_c_string rm"
    by (simp_all add: node_ok_def)
qed

lemma registry_online_node:
  "registry_inv reg \<Longrightarrow> u \<in> reg.online reg \<longleftrightarrow> (\<exists>n \<in> set (cr_nodes reg). c_str (cn_username n) = u)"
  by (auto simp: reg.online_def registry_sessions_node node_view_def)

lemma registry_username_exists_online:
  "registry_inv reg \<Longrightarrow> registry_username_exists reg u \<longleftrightarrow> u \<in> reg.online reg"
  using find_key_None [of "\<lambda>n. c_str (cn_username n)" u "cr_nodes reg"]
  by (auto simp: registry_username_exists_def registry_online_node split: option.splits)

lemma registry_get_sockfd_sessions:
  assumes inv: "registry_inv reg"
  shows "registry_sessions reg fd = Some (u, rm, a) \<Longrightarrow> registry_get_sockfd_by_username reg u = fd"
    and "u \<notin> reg.online reg \<Longrightarrow> registry_get_sockfd_by_username reg u = -1"
proof -
  have d: "distinct (map (\<lambda>n. c_str (cn_username n)) (cr_nodes reg))"
    using inv by (simp add: registry_inv_def)
  show "registry_get_sockfd_by_username reg u = fd" if s: "registry_sessions reg fd = Some (u, rm, a)"
  proof -
    obtain n where n: "n \<in> set (cr_nodes reg)" "cn_sockfd n = fd" "c_str (cn_username n) = u"
      using inv s by (auto simp: registry_sessions_node node_view_def)
    with find_key_unique [OF d n(1)] show ?thesis
      by (simp add: registry_get_sockfd_by_username_def)
  qed
  show "registry_get_sockfd_by_username reg u = -1" if "u \<notin> reg.online reg"
    using that registry_username_exists_online [OF inv, of u]
    by (auto simp: registry_get_sockfd_by_username_def registry_username_exists_def split: option.splits)
qed

section \<open>Properties\<close>

text \<open>
  Property C12. Adding a session, branch by branch: no memory, a full table and a name that is
  already online are refused in this order and change nothing; otherwise the table is
  extended by exactly the new session, under the name, room and flag given. The registry
  stays well formed: count and list agree, at most 100 entries, descriptors and names
  unique, every stored string terminated. The descriptor is new to the table, and the memory
  \<open>malloc\<close> gives leaves name and room terminated (\<open>node_mem_ok\<close>): any memory does when they have
  at most 30 characters, and C36 is the case in which it does not.
\<close>

theorem registry_add_functional:
  assumes "registry_inv reg" and "node_mem_ok mem u rm" and "registry_sessions reg fd = None"
    and "registry_add mem reg fd u rm a = (st, reg')"
  shows "st = (if mem = None then CHAT_ERR_NOMEM
               else if registry_count reg = MAX_CLIENTS then CHAT_ERR_FULL
               else if \<exists>fd' rm' a'. registry_sessions reg fd' = Some (u, rm', a') then CHAT_ERR_DUPLICATE
               else CHAT_OK) \<and>
         registry_sessions reg' =
           (if st = CHAT_OK then (registry_sessions reg)(fd \<mapsto> (u, rm, a)) else registry_sessions reg) \<and>
         registry_inv reg'"
proof -
  have dup: "list_ex (\<lambda>cur. c_str (cn_username cur) = u) (cr_nodes reg)
      \<longleftrightarrow> (\<exists>fd' rm' a'. registry_sessions reg fd' = Some (u, rm', a'))"
    using registry_online_node [OF assms(1), of u] by (auto simp: reg.online_def list_ex_iff)
  have "cr_count reg \<le> 100" using assms(1) by (simp add: registry_inv_def)
  then have "st = (if mem = None then CHAT_ERR_NOMEM
               else if registry_count reg = MAX_CLIENTS then CHAT_ERR_FULL
               else if \<exists>fd' rm' a'. registry_sessions reg fd' = Some (u, rm', a') then CHAT_ERR_DUPLICATE
               else CHAT_OK)"
    using assms(4) dup
    by (auto simp: registry_add_def registry_count_def Let_def split: option.splits if_splits)
  moreover have "registry_inv reg'" using reg.add_keeps [OF assms(1-3), of a] assms(4) by simp
  moreover have "registry_sessions reg' =
           (if st = CHAT_OK then (registry_sessions reg)(fd \<mapsto> (u, rm, a)) else registry_sessions reg)"
    using reg.add_ok [OF assms(1-3), of a reg'] reg.add_fails [OF assms(4)] assms(4) by auto
  ultimately show ?thesis by blast
qed

definition zero_node :: client_node where
  "zero_node = \<lparr>cn_sockfd = 0, cn_username = replicate 32 NUL, cn_room = replicate 32 NUL,
     cn_authenticated = False, cn_is_admin = False\<rparr>"

theorem registry_add_functional_witness:
  "registry_sessions (snd (registry_add (Some zero_node) registry_empty 5 ''alice'' ''lobby'' True)) 5
     = Some (''alice'', ''lobby'', True)"
proof -
  have mem: "node_mem_ok (Some zero_node) ''alice'' ''lobby''"
    by (simp add: node_mem_ok_def zero_node_def copy_ok_def is_c_string_def)
  have none: "registry_sessions registry_empty 5 = None"
    by (simp add: registry_sessions_def registry_empty_def)
  have add: "registry_add (Some zero_node) registry_empty 5 ''alice'' ''lobby'' True
      = (CHAT_OK, snd (registry_add (Some zero_node) registry_empty 5 ''alice'' ''lobby'' True))"
    by (simp add: registry_add_def registry_empty_def Let_def)
  show ?thesis
    using registry_add_functional [OF registry_inv_empty mem none add] by simp
qed

text \<open>
  A session that logs in, changes rooms any number of times and logs out leaves
  the table as it found it.
\<close>

theorem registry_login_moves_logout:
  assumes "registry_inv reg" and "node_mem_ok mem u rm" and "registry_sessions reg fd = None"
    and "registry_add mem reg fd u rm a = (CHAT_OK, reg')" and "list_all is_c_string rooms"
  shows "registry_sessions (snd (registry_remove (fold (\<lambda>r t. snd (registry_set_room t fd r)) rooms reg') fd))
           = registry_sessions reg"
proof -
  have "registry_inv (fold (\<lambda>r t. snd (registry_set_room t fd r)) rooms t) \<and>
        (\<forall>x. x \<noteq> fd \<longrightarrow> registry_sessions (fold (\<lambda>r t. snd (registry_set_room t fd r)) rooms t) x
                     = registry_sessions t x)"
    if "registry_inv t" for t
    using that assms(5)
  proof (induction rooms arbitrary: t)
    case Nil
    then show ?case by simp
  next
    case (Cons r rooms)
    then have "is_c_string r" by simp
    with Cons.prems have "registry_inv (snd (registry_set_room t fd r))"
      "\<forall>x. x \<noteq> fd \<longrightarrow> registry_sessions (snd (registry_set_room t fd r)) x = registry_sessions t x"
      by (auto simp: reg.move_keeps reg.move_sessions split: option.split)
    with Cons show ?case by simp
  qed
  moreover have "registry_inv reg'" and "registry_sessions reg' = (registry_sessions reg)(fd \<mapsto> (u, rm, a))"
    using reg.add_keeps [OF assms(1-3), of a] reg.add_ok [OF assms(1-4)] assms(4) by simp_all
  ultimately show ?thesis
    using assms(3) by (auto simp: reg.del_sessions fun_eq_iff)
qed

theorem registry_login_moves_logout_witness:
  "let reg' = snd (registry_add (Some zero_node) registry_empty 5 ''alice'' ''lobby'' True)
   in registry_sessions reg' 5 \<noteq> None \<and>
      registry_sessions (snd (registry_remove (fold (\<lambda>r t. snd (registry_set_room t 5 r))
        [''dev'', ''ops''] reg') 5)) = registry_sessions registry_empty"
proof -
  let ?reg' = "snd (registry_add (Some zero_node) registry_empty 5 ''alice'' ''lobby'' True)"
  have mem: "node_mem_ok (Some zero_node) ''alice'' ''lobby''"
    by (simp add: node_mem_ok_def zero_node_def copy_ok_def is_c_string_def)
  have none: "registry_sessions registry_empty 5 = None"
    by (simp add: registry_sessions_def registry_empty_def)
  have add: "registry_add (Some zero_node) registry_empty 5 ''alice'' ''lobby'' True = (CHAT_OK, ?reg')"
    by (simp add: registry_add_def registry_empty_def Let_def)
  have "registry_sessions ?reg' 5 \<noteq> None"
    by (simp add: registry_add_def registry_empty_def Let_def registry_sessions_def)
  moreover have rooms: "list_all is_c_string [''dev'', ''ops'']" by (simp add: is_c_string_def)
  ultimately show ?thesis
    using registry_login_moves_logout [OF registry_inv_empty mem none add rooms] unfolding Let_def by blast
qed

text \<open>
  Property C36. \<open>registry_add\<close> copies at most 31 bytes of the name into memory that
  \<open>malloc\<close> did not clear and never writes the last byte: for a name of exactly 31
  characters, which the protocol and the user database accept, the stored array is
  terminated only if the memory happened to hold a NUL there.
\<close>

theorem registry_add_unterminated:
  assumes "length (cn_username junk) = MAX_USERNAME_LEN" and "cn_username junk ! 31 \<noteq> NUL"
    and "is_c_string u" and "length u = 31"
    and "registry_add (Some junk) reg fd u rm a = (CHAT_OK, reg')"
  shows "\<not> nul_terminated (cn_username (hd (cr_nodes reg')))"
proof -
  have "cn_username (hd (cr_nodes reg')) = strncpy (cn_username junk) u 31"
    using assms(5) by (auto simp: registry_add_def Let_def split: if_splits)
  also have "\<dots> = u @ [cn_username junk ! 31]"
    using assms(1,4) by (simp add: strncpy_last)
  finally show ?thesis
    using assms(2,3) by (auto simp: nul_terminated_def is_c_string_def)
qed

theorem registry_add_unterminated_witness:
  "let junk = zero_node\<lparr>cn_username := replicate 32 CHR ''x''\<rparr>; u = replicate 31 CHR ''a'';
       res = registry_add (Some junk) registry_empty 5 u ''lobby'' False
   in fst res = CHAT_OK \<and> \<not> nul_terminated (cn_username (hd (cr_nodes (snd res))))"
proof -
  let ?junk = "zero_node\<lparr>cn_username := replicate 32 CHR ''x''\<rparr>" and ?u = "replicate 31 CHR ''a''"
  have res: "registry_add (Some ?junk) registry_empty 5 ?u ''lobby'' False
      = (CHAT_OK, snd (registry_add (Some ?junk) registry_empty 5 ?u ''lobby'' False))"
    by (simp add: registry_add_def registry_empty_def Let_def)
  have "\<not> nul_terminated (cn_username (hd (cr_nodes
      (snd (registry_add (Some ?junk) registry_empty 5 ?u ''lobby'' False)))))"
    by (rule registry_add_unterminated [OF _ _ _ _ res]) (simp_all add: is_c_string_def)
  then show ?thesis unfolding Let_def using res by (metis fst_conv)
qed

text \<open>
  The user lists: the names in list order, separated by commas, when they fit
  the buffer with their NUL, and otherwise an error with the cut list in the buffer. The
  list of a room is the list of the registry's nodes in that room, and iterating over a room
  is iterating over those nodes.
\<close>

theorem registry_user_lists:
  "registry_build_user_list reg buflen = printed buflen (join_sep '','' True (map node_name (cr_nodes reg))) \<and>
   registry_build_room_user_list reg room buflen =
     registry_build_user_list (reg\<lparr>cr_nodes := filter (\<lambda>n. c_str (cn_room n) = room) (cr_nodes reg)\<rparr>) buflen \<and>
   registry_foreach_in_room reg room fn ctx =
     registry_foreach (reg\<lparr>cr_nodes := filter (\<lambda>n. c_str (cn_room n) = room) (cr_nodes reg)\<rparr>) fn ctx"
  by (simp_all add: registry_build_user_list_def registry_build_room_user_list_def printed_def
      user_list_loop_printed room_user_list_loop_filter registry_foreach_in_room_def
      registry_foreach_def foreach_in_room_loop_filter)

end
