(* ===== verification/Utils.thy ===== *)
theory Utils
  imports C_Base
begin

text \<open>
  \<open>src/common/utils.c\<close>: line trimming, the socket loops \<open>send_all\<close> and \<open>recv_line\<close>,
  time stamps, port numbers and the non-blocking flag. A system call that the loops make
  again and again is a script, the list of results the kernel gives to the successive
  calls. A send script that has run out stands for a kernel that takes everything it is
  given; a receive script that has run out stands for a call that is still blocked, and
  the result is then \<^term>\<open>None\<close>.
\<close>

section \<open>Trimming\<close>

text \<open>\<open>trim_newline\<close> on the string, and on the array that holds it.\<close>

fun trim_newline :: "string \<Rightarrow> string" where
  "trim_newline s =
     (if s \<noteq> [] \<and> (last s = LF \<or> last s = CR) then trim_newline (butlast s) else s)"

declare trim_newline.simps [simp del]

definition trim_newline_buf :: "cbuf \<Rightarrow> cbuf" where
  "trim_newline_buf b =
     (let s = c_str b; t = trim_newline s
      in t @ replicate (length s - length t) NUL @ drop (length s) b)"

section \<open>Sending\<close>

text \<open>
  One result of \<open>send\<close>: it took \<open>Suc n\<close> bytes, or all that were left when there were fewer;
  it was interrupted; it returned 0; it failed.
\<close>

datatype send_res = Sent nat | Send_EINTR | Send_Zero | Send_Err

text \<open>
  The loop of \<open>send_all\<close>, entered with \<open>sent\<close> bytes already out: the status, the bytes the
  kernel takes from here on, and what is left of the script.
\<close>

fun send_all :: "send_res list \<Rightarrow> string \<Rightarrow> nat \<Rightarrow> nat \<Rightarrow> chat_status \<times> string \<times> send_res list" where
  "send_all [] buf len sent = (CHAT_OK, take (len - sent) (drop sent buf), [])"
| "send_all (k # ks) buf len sent =
     (if sent < len then
        (case k of
           Send_EINTR \<Rightarrow> send_all ks buf len sent
         | Send_Err \<Rightarrow> (CHAT_ERR_IO, [], ks)
         | Send_Zero \<Rightarrow> (CHAT_ERR_IO, [], ks)
         | Sent n \<Rightarrow>
             (let m = min (Suc n) (len - sent);
                  (st, out, ks') = send_all ks buf len (sent + m)
              in (st, take m (drop sent buf) @ out, ks')))
      else (CHAT_OK, [], k # ks))"

text \<open>What a client of a sending loop may rely on.\<close>

locale full_sender =
  fixes snd_loop :: "send_res list \<Rightarrow> string \<Rightarrow> nat \<Rightarrow> nat \<Rightarrow> chat_status \<times> string \<times> send_res list"
  assumes loop_prefix: "len \<le> length buf \<Longrightarrow> snd_loop ks buf len sent = (st, out, ks') \<Longrightarrow>
      \<exists>t. take (len - sent) (drop sent buf) = out @ t \<and> (st = CHAT_OK \<longrightarrow> t = [])"
    and loop_status: "snd_loop ks buf len sent = (st, out, ks') \<Longrightarrow> st = CHAT_OK \<or> st = CHAT_ERR_IO"
    and loop_strict: "len \<le> length buf \<Longrightarrow> sent < len \<Longrightarrow>
      snd_loop ks buf len sent = (CHAT_ERR_IO, out, ks') \<Longrightarrow> length out < len - sent"
    and loop_consumes: "snd_loop ks buf len sent = (st, out, ks') \<Longrightarrow> \<exists>us. ks = us @ ks'"
begin

definition send_string :: "send_res list \<Rightarrow> string \<Rightarrow> chat_status \<times> string \<times> send_res list" where
  "send_string ks s = snd_loop ks s (length s) 0"

lemma send_string_prefix: "send_string ks s = (st, out, ks') \<Longrightarrow> \<exists>t. s = out @ t"
  using loop_prefix [of "length s" s ks 0] by (fastforce simp: send_string_def)

lemma send_string_ok: "send_string ks s = (CHAT_OK, out, ks') \<Longrightarrow> out = s"
  using loop_prefix [of "length s" s ks 0] by (fastforce simp: send_string_def)

text \<open>The status tells exactly whether everything went out.\<close>

lemma send_string_status_iff:
  assumes "send_string ks s = (st, out, ks')" and "s \<noteq> []"
  shows "st = CHAT_OK \<longleftrightarrow> out = s"
proof
  assume "st = CHAT_OK"
  with assms(1) show "out = s" by (simp add: send_string_ok)
next
  assume "out = s"
  with assms show "st = CHAT_OK"
    using loop_strict [of "length s" s 0 ks] loop_status [of ks s "length s" 0]
    by (fastforce simp: send_string_def)
qed

end

section \<open>Receiving\<close>

datatype recv_res = Byte char | Recv_EINTR | Recv_Err | Recv_EOF

text \<open>What follows the loop: the terminating NUL, then \<open>trim_newline\<close>.\<close>

definition finish_line :: "cbuf \<Rightarrow> nat \<Rightarrow> cbuf" where
  "finish_line buf pos = trim_newline_buf (buf[pos := NUL])"

fun recv_line_loop ::
  "recv_res list \<Rightarrow> cbuf \<Rightarrow> nat \<Rightarrow> nat \<Rightarrow> (chat_status \<times> cbuf \<times> recv_res list) option" where
  "recv_line_loop [] buf buflen pos =
     (if pos < buflen - 1 then None else Some (CHAT_OK, finish_line buf pos, []))"
| "recv_line_loop (r # rs) buf buflen pos =
     (if pos < buflen - 1 then
        (case r of
           Recv_EINTR \<Rightarrow> recv_line_loop rs buf buflen pos
         | Recv_Err \<Rightarrow> Some (CHAT_ERR_IO, buf, rs)
         | Recv_EOF \<Rightarrow>
             if pos = 0 then Some (CHAT_ERR_IO, buf, rs)
             else Some (CHAT_OK, finish_line buf pos, rs)
         | Byte c \<Rightarrow>
             if c = LF then Some (CHAT_OK, finish_line (buf[pos := c]) (pos + 1), rs)
             else recv_line_loop rs (buf[pos := c]) buflen (pos + 1))
      else Some (CHAT_OK, finish_line buf pos, r # rs))"

definition recv_line ::
  "recv_res list \<Rightarrow> cbuf \<Rightarrow> nat \<Rightarrow> (chat_status \<times> cbuf \<times> recv_res list) option" where
  "recv_line rs buf buflen =
     (if buflen < 2 then Some (CHAT_ERR, buf, rs) else recv_line_loop rs buf buflen 0)"

text \<open>
  What a client of a receiving loop may rely on: a line that fits comes out without its
  terminator, the rest of the stream is untouched; of a line that does not fit the first
  \<open>buflen - 1\<close> bytes come out and the rest stays in the stream.
\<close>

locale line_receiver =
  fixes rcv :: "recv_res list \<Rightarrow> cbuf \<Rightarrow> nat \<Rightarrow> (chat_status \<times> cbuf \<times> recv_res list) option"
  assumes rcv_line: "length buf = n \<Longrightarrow> is_c_string s \<Longrightarrow> LF \<notin> set s \<Longrightarrow> length s + 2 \<le> n \<Longrightarrow>
      \<exists>b. rcv (map Byte s @ Byte LF # rs) buf n = Some (CHAT_OK, b, rs) \<and>
          c_str b = trim_newline s \<and> length b = n"
    and rcv_chunk: "length buf = n \<Longrightarrow> is_c_string s \<Longrightarrow> LF \<notin> set s \<Longrightarrow> length s + 1 = n \<Longrightarrow> 2 \<le> n \<Longrightarrow>
      \<exists>b. rcv (map Byte s @ rs) buf n = Some (CHAT_OK, b, rs) \<and>
          c_str b = trim_newline s \<and> length b = n"
begin

text \<open>Lines arrive one at a time and in order, whatever the buffer held before.\<close>

lemma rcv_two_lines:
  assumes "length buf = n" and "is_c_string s" "LF \<notin> set s" "length s + 2 \<le> n"
    and "is_c_string t" "LF \<notin> set t" "length t + 2 \<le> n"
  shows "\<exists>b b'. rcv (map Byte (s @ [LF] @ t @ [LF]) @ rs) buf n
             = Some (CHAT_OK, b, map Byte (t @ [LF]) @ rs) \<and> c_str b = trim_newline s \<and>
           rcv (map Byte (t @ [LF]) @ rs) b n = Some (CHAT_OK, b', rs) \<and> c_str b' = trim_newline t"
proof -
  obtain b where b: "rcv (map Byte s @ Byte LF # (map Byte (t @ [LF]) @ rs)) buf n
        = Some (CHAT_OK, b, map Byte (t @ [LF]) @ rs)"
      "c_str b = trim_newline s" "length b = n"
    using rcv_line [OF assms(1-4)] by blast
  obtain b' where "rcv (map Byte t @ Byte LF # rs) b n = Some (CHAT_OK, b', rs)"
      "c_str b' = trim_newline t"
    using rcv_line [OF b(3) assms(5-7)] by blast
  with b show ?thesis by auto
qed

text \<open>
  A line longer than the buffer comes out in pieces: what is left of it is read as a line
  of its own.
\<close>

lemma rcv_overlong:
  assumes "length buf = n" and "2 \<le> n" and "is_c_string (s @ t)" and "LF \<notin> set (s @ t)"
    and "length s + 1 = n" and "length t + 2 \<le> n"
  shows "\<exists>b b'. rcv (map Byte (s @ t @ [LF]) @ rs) buf n
             = Some (CHAT_OK, b, map Byte (t @ [LF]) @ rs) \<and> c_str b = trim_newline s \<and>
           rcv (map Byte (t @ [LF]) @ rs) b n = Some (CHAT_OK, b', rs) \<and> c_str b' = trim_newline t"
proof -
  obtain b where b: "rcv (map Byte s @ (map Byte (t @ [LF]) @ rs)) buf n
        = Some (CHAT_OK, b, map Byte (t @ [LF]) @ rs)"
      "c_str b = trim_newline s" "length b = n"
    using rcv_chunk [of buf n s] assms by auto
  obtain b' where "rcv (map Byte t @ Byte LF # rs) b n = Some (CHAT_OK, b', rs)"
      "c_str b' = trim_newline t"
    using rcv_line [OF b(3), of t] assms by auto
  with b show ?thesis by auto
qed

end

section \<open>Time stamps\<close>

record tm =
  tm_year :: int
  tm_mon :: int
  tm_mday :: int
  tm_hour :: int
  tm_min :: int
  tm_sec :: int

definition dec_int :: "int \<Rightarrow> string" where
  "dec_int i = (if i < 0 then CHR ''-'' # dec (nat (- i)) else dec (nat i))"

text \<open>\<open>strftime\<close> with the format \<open>%Y-%m-%dT%H:%M:%S\<close>.\<close>

definition strftime_iso :: "tm \<Rightarrow> string" where
  "strftime_iso t =
     dec_int (tm_year t + 1900) @ ''-'' @ dec2 (nat (tm_mon t + 1)) @ ''-'' @ dec2 (nat (tm_mday t)) @
     ''T'' @ dec2 (nat (tm_hour t)) @ '':'' @ dec2 (nat (tm_min t)) @ '':'' @ dec2 (nat (tm_sec t))"

text \<open>
  \<open>format_timestamp\<close>: \<open>localtime_r\<close> depends on the machine's time zone and is a parameter.
  \<open>strftime\<close> writes nothing usable when the result does not fit; \<open>strftime_iso_length\<close>
  below shows that it fits in the 32 bytes every caller has.
\<close>

definition format_timestamp :: "(int \<Rightarrow> tm option) \<Rightarrow> int \<Rightarrow> nat \<Rightarrow> string" where
  "format_timestamp localtime_r t buflen =
     (case localtime_r t of
        None \<Rightarrow> take (buflen - 1) ''unknown''
      | Some tm_info \<Rightarrow>
          (let s = strftime_iso tm_info in if length s < buflen then s else []))"

section \<open>Port numbers and socket flags\<close>

definition parse_port :: "string \<Rightarrow> chat_status \<times> 16 word option" where
  "parse_port s =
     (let (val, n, errno_set) = strtol10 s
      in if errno_set \<or> n = 0 \<or> n < length s then (CHAT_ERR, None)
         else if val \<le> 0 \<or> 65535 < val then (CHAT_ERR, None)
         else (CHAT_OK, Some (word_of_int val)))"

text \<open>
  \<open>set_socket_nonblocking\<close>: the flags \<open>F_GETFL\<close> returns (\<^term>\<open>None\<close> for a failure), the
  platform's \<open>O_NONBLOCK\<close> mask, and whether \<open>F_SETFL\<close> succeeds; the result has the flags
  that were set.
\<close>

unbundle bit_operations_syntax

definition set_socket_nonblocking ::
  "32 word option \<Rightarrow> 32 word \<Rightarrow> bool \<Rightarrow> bool \<Rightarrow> chat_status \<times> 32 word option" where
  "set_socket_nonblocking getfl o_nonblock enable setfl_ok =
     (case getfl of
        None \<Rightarrow> (CHAT_ERR_IO, None)
      | Some flags \<Rightarrow>
          (let flags' = (if enable then flags OR o_nonblock else flags AND NOT o_nonblock)
           in if setfl_ok then (CHAT_OK, Some flags') else (CHAT_ERR_IO, None)))"

section \<open>Trimming: facts\<close>

lemma trim_newline_Nil [simp]: "trim_newline [] = []"
  by (simp add: trim_newline.simps)

lemma trim_newline_snoc:
  "trim_newline (s @ [c]) = (if c = LF \<or> c = CR then trim_newline s else s @ [c])"
  by (subst trim_newline.simps) simp

text \<open>Only a run of line ends at the end goes away, and all of it.\<close>

lemma trim_newline_split:
  "\<exists>t. s = trim_newline s @ t \<and> set t \<subseteq> {LF, CR} \<and>
       (trim_newline s = [] \<or> last (trim_newline s) \<notin> {LF, CR})"
proof (induction s rule: rev_induct)
  case Nil
  then show ?case by simp
next
  case (snoc c s)
  then obtain t where t: "s = trim_newline s @ t" "set t \<subseteq> {LF, CR}"
      "trim_newline s = [] \<or> last (trim_newline s) \<notin> {LF, CR}"
    by blast
  show ?case
  proof (cases "c = LF \<or> c = CR")
    case True
    then have "s @ [c] = trim_newline (s @ [c]) @ (t @ [c])"
      using t(1) by (simp add: trim_newline_snoc)
    moreover have "set (t @ [c]) \<subseteq> {LF, CR}" using True t(2) by auto
    ultimately show ?thesis
      using True t(3) by (auto simp: trim_newline_snoc intro!: exI [of _ "t @ [c]"])
  next
    case False
    then show ?thesis by (simp add: trim_newline_snoc)
  qed
qed

text \<open>A text without line ends, the payload of every protocol line.\<close>

definition line_text :: "string \<Rightarrow> bool" where
  "line_text s \<longleftrightarrow> set s \<inter> {NUL, LF, CR} = {}"

lemma line_text_append [simp]: "line_text (s @ t) \<longleftrightarrow> line_text s \<and> line_text t"
  by (auto simp: line_text_def)

lemma line_text_Cons [simp]:
  "line_text (c # s) \<longleftrightarrow> c \<noteq> NUL \<and> c \<noteq> LF \<and> c \<noteq> CR \<and> line_text s"
  by (auto simp: line_text_def)

lemma line_text_Nil [simp]: "line_text []"
  by (simp add: line_text_def)

lemma line_text_take: "line_text s \<Longrightarrow> line_text (take n s)"
  by (auto simp: line_text_def dest: in_set_takeD)

lemma line_text_c_string [cstr]: "line_text s \<Longrightarrow> is_c_string s"
  by (auto simp: line_text_def is_c_string_def)

lemma line_text_no_LF: "line_text s \<Longrightarrow> LF \<notin> set s"
  by (auto simp: line_text_def)

lemma trim_newline_text [cstr]: "line_text s \<Longrightarrow> trim_newline s = s"
  by (cases s rule: rev_cases) (simp_all add: trim_newline_snoc)

lemma trim_newline_line [cstr]: "line_text s \<Longrightarrow> trim_newline (s @ [LF]) = s"
  by (simp add: trim_newline_snoc trim_newline_text)

lemma length_trim_newline: "length (trim_newline s) \<le> length s"
  using trim_newline_split [of s] by (metis length_append le_add1)

lemma is_c_string_trim: "is_c_string s \<Longrightarrow> is_c_string (trim_newline s)"
  using trim_newline_split [of s] by (metis is_c_string_append)

lemma c_str_split: "b = c_str b @ drop (length (c_str b)) b"
  by (simp add: c_str_def takeWhile_eq_take [symmetric] dropWhile_eq_drop [symmetric])

lemma length_trim_newline_buf [simp]: "length (trim_newline_buf b) = length b"
  using length_trim_newline [of "c_str b"] length_c_str_le [of b]
  by (simp add: trim_newline_buf_def Let_def)

lemma c_str_trim_newline_buf: "c_str (trim_newline_buf b) = trim_newline (c_str b)"
proof (cases "trim_newline (c_str b) = c_str b")
  case True
  then show ?thesis
    using c_str_split [of b] by (simp add: trim_newline_buf_def Let_def)
next
  case False
  let ?s = "c_str b" and ?t = "trim_newline (c_str b)"
  from False have "length ?t < length ?s"
    using trim_newline_split [of ?s] by (metis append_Nil2 length_append less_add_same_cancel1 length_greater_0_conv)
  then obtain k where "length ?s - length ?t = Suc k"
    by (metis Suc_diff_Suc)
  then have "trim_newline_buf b = ?t @ NUL # (replicate k NUL @ drop (length ?s) b)"
    by (simp add: trim_newline_buf_def Let_def)
  moreover have "is_c_string ?t" by (rule is_c_string_trim) simp
  ultimately show ?thesis by (simp add: c_str_append_nul)
qed

lemma length_finish_line [simp]: "length (finish_line buf pos) = length buf"
  by (simp add: finish_line_def)

lemma c_str_finish_line:
  assumes "pos < length buf" and "is_c_string (take pos buf)"
  shows "c_str (finish_line buf pos) = trim_newline (take pos buf)"
proof -
  have "buf[pos := NUL] = take pos buf @ NUL # drop (Suc pos) buf"
    using assms(1) by (simp add: upd_conv_take_nth_drop)
  then show ?thesis
    using assms(2) by (simp add: finish_line_def c_str_trim_newline_buf c_str_append_nul)
qed

text \<open>Filling a buffer byte by byte: the state of a receive loop after a run of bytes.\<close>

definition fill :: "cbuf \<Rightarrow> nat \<Rightarrow> string \<Rightarrow> cbuf" where
  "fill buf pos s = take pos buf @ s @ drop (pos + length s) buf"

lemma fill_Nil [simp]: "fill buf pos [] = buf"
  by (simp add: fill_def)

lemma fill_Cons:
  "pos < length buf \<Longrightarrow> fill (buf[pos := c]) (Suc pos) s = fill buf pos (c # s)"
  by (simp add: fill_def take_Suc_update)

lemma length_fill [simp]: "pos + length s \<le> length buf \<Longrightarrow> length (fill buf pos s) = length buf"
  by (simp add: fill_def)

lemma take_fill [simp]: "length s = n \<Longrightarrow> take n (fill buf 0 s) = s"
  by (simp add: fill_def)

lemma take_fill_update:
  "length s < length buf \<Longrightarrow> take (Suc (length s)) ((fill buf 0 s)[length s := c]) = s @ [c]"
  by (simp add: take_Suc_update)

text \<open>The two ways a receive loop ends a line, with the buffer it then has.\<close>

lemma finish_fill_LF:
  assumes "length s + 2 \<le> length buf" and "is_c_string s"
  shows "c_str (finish_line ((fill buf 0 s)[length s := LF]) (Suc (length s))) = trim_newline s"
proof -
  have "take (Suc (length s)) ((fill buf 0 s)[length s := LF]) = s @ [LF]"
    using assms by (simp add: take_fill_update)
  moreover have "is_c_string (s @ [LF])" using assms by (simp add: is_c_string_def)
  ultimately show ?thesis
    using assms by (simp add: c_str_finish_line trim_newline_snoc)
qed

lemma finish_fill_full:
  assumes "Suc (length s) = length buf" and "is_c_string s"
  shows "c_str (finish_line (fill buf 0 s) (length s)) = trim_newline s"
  using assms by (simp add: c_str_finish_line)

section \<open>The loops keep their contracts\<close>

lemma send_all_done: "len \<le> sent \<Longrightarrow> send_all ks buf len sent = (CHAT_OK, [], ks)"
  by (cases ks) auto

interpretation snd_utils: full_sender send_all
proof unfold_locales
  fix ks buf len sent st out ks'
  show "len \<le> length buf \<Longrightarrow> send_all ks buf len sent = (st, out, ks') \<Longrightarrow>
      \<exists>t. take (len - sent) (drop sent buf) = out @ t \<and> (st = CHAT_OK \<longrightarrow> t = [])"
  proof (induction ks buf len sent arbitrary: st out ks' rule: send_all.induct)
    case (1 buf len sent)
    then show ?case by simp
  next
    case (2 k ks buf len sent)
    show ?case
    proof (cases "sent < len \<and> (\<exists>n. k = Sent n)")
      case True
      then obtain n where k: "k = Sent n" "sent < len" by blast
      let ?m = "min (Suc n) (len - sent)"
      obtain out' where o: "send_all ks buf len (sent + ?m) = (st, out', ks')"
          "out = take ?m (drop sent buf) @ out'"
        using "2.prems"(2) k by (auto simp: Let_def split: prod.splits)
      obtain t where t: "take (len - (sent + ?m)) (drop (sent + ?m) buf) = out' @ t"
          "st = CHAT_OK \<longrightarrow> t = []"
        using "2.IH"(1) [OF k(2,1) refl "2.prems"(1)] o(1) by blast
      have "take (len - sent) (drop sent buf)
          = take ?m (drop sent buf) @ take (len - (sent + ?m)) (drop (sent + ?m) buf)"
        by (metis (no_types, lifting) add.commute diff_diff_left drop_drop le_add_diff_inverse
            min.cobounded2 take_add)
      with o(2) t show ?thesis by auto
    next
      case False
      with "2" show ?thesis by (cases k) (auto split: if_splits)
    qed
  qed
next
  fix ks buf len sent st out ks'
  show "send_all ks buf len sent = (st, out, ks') \<Longrightarrow> st = CHAT_OK \<or> st = CHAT_ERR_IO"
    by (induction ks buf len sent arbitrary: st out ks' rule: send_all.induct)
      (auto simp: Let_def split: if_splits send_res.splits prod.splits)
next
  fix ks buf len sent out ks'
  show "len \<le> length buf \<Longrightarrow> sent < len \<Longrightarrow>
      send_all ks buf len sent = (CHAT_ERR_IO, out, ks') \<Longrightarrow> length out < len - sent"
  proof (induction ks buf len sent arbitrary: out ks' rule: send_all.induct)
    case (1 buf len sent)
    then show ?case by simp
  next
    case (2 k ks buf len sent)
    show ?case
    proof (cases k)
      case (Sent n)
      let ?m = "min (Suc n) (len - sent)"
      obtain out' where o: "send_all ks buf len (sent + ?m) = (CHAT_ERR_IO, out', ks')"
          "out = take ?m (drop sent buf) @ out'"
        using "2.prems" Sent by (auto simp: Let_def split: prod.splits)
      have "sent + ?m < len"
      proof (rule ccontr)
        assume "\<not> sent + ?m < len"
        then have "send_all ks buf len (sent + ?m) = (CHAT_OK, [], ks)"
          by (intro send_all_done) simp
        with o(1) show False by simp
      qed
      then have "length out' < len - (sent + ?m)"
        using "2.IH"(1) [OF "2.prems"(2) Sent refl "2.prems"(1)] o(1) by blast
      with o(2) "2.prems" show ?thesis by auto
    qed (use "2" in auto)
  qed
next
  fix ks buf len sent st out ks'
  show "send_all ks buf len sent = (st, out, ks') \<Longrightarrow> \<exists>us. ks = us @ ks'"
  proof (induction ks buf len sent arbitrary: st out ks' rule: send_all.induct)
    case (2 k ks buf len sent)
    show ?case
    proof (cases "sent < len")
      case True
      then have "\<exists>us. ks = us @ ks'"
        using "2" by (cases k) (auto simp: Let_def split: prod.splits)
      then show ?thesis by (metis append_Cons)
    next
      case False
      with "2.prems" show ?thesis by auto
    qed
  qed auto
qed

lemma recv_line_loop_bytes:
  "length buf = n \<Longrightarrow> LF \<notin> set s \<Longrightarrow> pos + length s \<le> n - 1 \<Longrightarrow>
   recv_line_loop (map Byte s @ rs) buf n pos
     = recv_line_loop rs (fill buf pos s) n (pos + length s)"
proof (induction s arbitrary: buf pos)
  case Nil
  then show ?case by simp
next
  case (Cons c s)
  then show ?case by (auto simp: fill_Cons)
qed

lemma recv_line_loop_full:
  "n - 1 \<le> pos \<Longrightarrow> recv_line_loop rs buf n pos = Some (CHAT_OK, finish_line buf pos, rs)"
  by (cases rs) auto

interpretation rcv_utils: line_receiver recv_line
proof unfold_locales
  fix buf :: cbuf and n s rs
  assume a: "length buf = n" "is_c_string s" "LF \<notin> set s"
  show "\<exists>b. recv_line (map Byte s @ Byte LF # rs) buf n = Some (CHAT_OK, b, rs) \<and>
          c_str b = trim_newline s \<and> length b = n" if "length s + 2 \<le> n"
    using a that finish_fill_LF [of s buf]
    by (simp add: recv_line_def recv_line_loop_bytes)
  show "\<exists>b. recv_line (map Byte s @ rs) buf n = Some (CHAT_OK, b, rs) \<and>
          c_str b = trim_newline s \<and> length b = n" if "length s + 1 = n" "2 \<le> n"
    using a that finish_fill_full [of s buf] recv_line_loop_bytes [of buf n s 0 rs]
    by (auto simp: recv_line_def recv_line_loop_full)
qed

section \<open>Time stamps and port numbers: facts\<close>

definition tm_ok :: "tm \<Rightarrow> bool" where
  "tm_ok t \<longleftrightarrow> - (2 ^ 31) \<le> tm_year t \<and> tm_year t < 2 ^ 31 \<and> 0 \<le> tm_mon t \<and> tm_mon t \<le> 11 \<and>
     1 \<le> tm_mday t \<and> tm_mday t \<le> 31 \<and> 0 \<le> tm_hour t \<and> tm_hour t \<le> 23 \<and>
     0 \<le> tm_min t \<and> tm_min t \<le> 59 \<and> 0 \<le> tm_sec t \<and> tm_sec t \<le> 60"

text \<open>What \<open>localtime_r\<close> documents: the fields are in their ranges.\<close>

definition localtime_ok :: "(int \<Rightarrow> tm option) \<Rightarrow> bool" where
  "localtime_ok lt \<longleftrightarrow> (\<forall>t m. lt t = Some m \<longrightarrow> tm_ok m)"

text \<open>A usable time stamp: one token of a protocol line and one field of a history entry.\<close>

definition ts_ok :: "string \<Rightarrow> bool" where
  "ts_ok s \<longleftrightarrow> s \<noteq> [] \<and> length s < TIMESTAMP_LEN \<and> set s \<inter> {SP, CHR ''|'', NUL, LF, CR} = {}"

lemma length_dec2: "n < 100 \<Longrightarrow> length (dec2 n) = 2"
proof -
  assume n: "n < 100"
  show ?thesis
  proof (cases "n < 10")
    case True
    then show ?thesis by (simp add: dec2_def dec.simps [of n])
  next
    case False
    with n show ?thesis
      by (simp add: dec2_def dec.simps [of n] dec.simps [of "n div 10"])
  qed
qed

lemma length_dec_int: "\<bar>i\<bar> < 10 ^ 10 \<Longrightarrow> length (dec_int i) \<le> 11"
proof -
  assume i: "\<bar>i\<bar> < 10 ^ 10"
  then have "nat i < 10 ^ 10" "nat (- i) < 10 ^ 10"
    by (auto simp: nat_less_iff)
  then have "length (dec (nat i)) \<le> 10" "length (dec (nat (- i))) \<le> 10"
    by (simp_all add: dec_length)
  then show ?thesis by (simp add: dec_int_def)
qed

definition ts_char :: "char \<Rightarrow> bool" where
  "ts_char c \<longleftrightarrow> is_digit c \<or> c = CHR ''-'' \<or> c = CHR '':'' \<or> c = CHR ''T''"

lemma dec_ts_chars: "\<forall>c \<in> set (dec n). ts_char c"
  using dec_digits [of n] by (simp add: ts_char_def)

lemma ts_char_0: "ts_char (CHR ''0'')"
  by (simp add: ts_char_def is_digit_def)

lemma dec2_chars: "\<forall>c \<in> set (dec2 n). ts_char c"
  using dec_ts_chars [of n] ts_char_0 by (simp add: dec2_def)

lemma dec_int_chars: "\<forall>c \<in> set (dec_int i). ts_char c"
  using dec_ts_chars [of "nat i"] dec_ts_chars [of "nat (- i)"]
  by (simp add: dec_int_def ts_char_def)

lemma strftime_iso_chars: "\<forall>c \<in> set (strftime_iso t). ts_char c"
  using dec2_chars dec_int_chars by (simp add: strftime_iso_def ball_Un ts_char_def)

lemma ts_char_safe: "ts_char c \<Longrightarrow> c \<notin> {SP, CHR ''|'', NUL, LF, CR}"
  by (auto simp: ts_char_def is_digit_def)

lemma strftime_iso_length: "tm_ok t \<Longrightarrow> length (strftime_iso t) \<le> 26"
proof -
  assume t: "tm_ok t"
  have "length (dec_int (tm_year t + 1900)) \<le> 11"
    using t by (intro length_dec_int) (auto simp: tm_ok_def)
  moreover have "length (dec2 (nat (tm_mon t + 1))) = 2" "length (dec2 (nat (tm_mday t))) = 2"
    "length (dec2 (nat (tm_hour t))) = 2" "length (dec2 (nat (tm_min t))) = 2"
    "length (dec2 (nat (tm_sec t))) = 2"
    using t by (auto simp: tm_ok_def intro!: length_dec2)
  ultimately show ?thesis by (simp add: strftime_iso_def)
qed

lemma format_timestamp_ok:
  assumes "localtime_ok lt"
  shows "ts_ok (format_timestamp lt t TIMESTAMP_LEN)"
proof (cases "lt t")
  case None
  then show ?thesis by (simp add: format_timestamp_def ts_ok_def)
next
  case (Some m)
  with assms have m: "tm_ok m" by (simp add: localtime_ok_def)
  then have "length (strftime_iso m) < 32"
    using strftime_iso_length [of m] by simp
  moreover have "strftime_iso m \<noteq> []" by (simp add: strftime_iso_def)
  moreover have "set (strftime_iso m) \<inter> {SP, CHR ''|'', NUL, LF, CR} = {}"
    using strftime_iso_chars [of m] ts_char_safe by (metis disjoint_iff)
  ultimately show ?thesis
    using Some by (simp add: format_timestamp_def ts_ok_def)
qed

lemma ts_ok_line_text [cstr]: "ts_ok s \<Longrightarrow> line_text s"
  by (auto simp: ts_ok_def line_text_def)

lemma ts_ok_no_space [cstr]: "ts_ok s \<Longrightarrow> SP \<notin> set s"
  by (auto simp: ts_ok_def)

lemma parse_port_OK_iff:
  "parse_port s = (CHAT_OK, Some p) \<longleftrightarrow>
     (\<exists>v. strtol10 s = (v, length s, False) \<and> s \<noteq> [] \<and> 0 < v \<and> v \<le> 65535 \<and> p = word_of_int v)"
proof -
  obtain v n e where st: "strtol10 s = (v, n, e)" by (cases "strtol10 s") auto
  have "n \<le> length s"
  proof -
    let ?w = "length (takeWhile is_space s)"
    have w: "?w \<le> length s" by (rule length_takeWhile_le)
    then have d0: "?w + length (takeWhile is_digit (drop ?w s)) \<le> length s"
      using length_takeWhile_le [of is_digit "drop ?w s"] by simp
    have d1: "?w < length s \<Longrightarrow> Suc (?w + length (takeWhile is_digit (drop (Suc ?w) s))) \<le> length s"
      using length_takeWhile_le [of is_digit "drop (Suc ?w) s"] by simp
    show ?thesis
      using st d0 d1 w by (auto simp: strtol10_def Let_def not_le split: if_splits)
  qed
  with st show ?thesis
    by (auto simp: parse_port_def)
qed

section \<open>Properties\<close>

text \<open>
  \<open>send_all\<close> delivers or says so: whatever the kernel does, takes parts of the
  buffer, interrupts the call, returns 0 or fails, what has gone out is a beginning of the
  buffer, and the status is \<open>CHAT_OK\<close> exactly when all of it has.
\<close>

theorem send_all_delivers:
  assumes "send_all ks s (length s) 0 = (st, out, ks')" and "s \<noteq> []"
  shows "(\<exists>t. s = out @ t) \<and> (st = CHAT_OK \<longleftrightarrow> out = s) \<and> (st = CHAT_OK \<or> st = CHAT_ERR_IO)"
proof -
  have s: "snd_utils.send_string ks s = (st, out, ks')"
    using assms(1) by (simp add: snd_utils.send_string_def)
  show ?thesis
    using snd_utils.send_string_prefix [OF s] snd_utils.send_string_status_iff [OF s assms(2)]
      snd_utils.loop_status [OF assms(1)] by blast
qed

theorem send_all_delivers_witness:
  "send_all [Sent 1, Send_EINTR, Sent 0, Send_Err] ''hello'' 5 0 = (CHAT_ERR_IO, ''hel'', []) \<and>
   \<not> (''hel'' :: string) = ''hello'' \<and> (\<exists>t. ''hello'' = ''hel'' @ (t :: string))"
proof -
  have r: "send_all [Sent 1, Send_EINTR, Sent 0, Send_Err] ''hello'' (length ''hello'') 0 = (CHAT_ERR_IO, ''hel'', [])"
    by code_simp
  then show ?thesis using send_all_delivers [OF r] by simp
qed

text \<open>What \<open>strtol\<close> reads as a number without a minus sign: white space, a sign, digits.\<close>

definition port_numeral :: "string \<Rightarrow> nat \<Rightarrow> bool" where
  "port_numeral s n \<longleftrightarrow> (\<exists>ws sg ds. s = ws @ sg @ ds \<and> list_all is_space ws \<and> (sg = [] \<or> sg = ''+'') \<and>
     ds \<noteq> [] \<and> list_all is_digit ds \<and> num_of_digits ds = n)"

lemma port_numeral_strtol:
  assumes "port_numeral s n" and "n \<le> 65535"
  shows "strtol10 s = (int n, length s, False)" and "s \<noteq> []"
proof -
  obtain ws sg ds where s: "s = ws @ sg @ ds" "list_all is_space ws" "sg = [] \<or> sg = ''+''" "ds \<noteq> []"
    "list_all is_digit ds" "num_of_digits ds = n"
    using assms(1) unfolding port_numeral_def by blast
  show "s \<noteq> []" using s(1,4) by simp
  obtain c cs where ds: "ds = c # cs" using s(4) by (cases ds) auto
  then have c: "\<not> is_space c" "c \<noteq> CHR ''-''" "c \<noteq> CHR ''+''"
    using s(5) is_digit_not_space [of c] is_digit_not_sign [of c] by auto
  have plus: "\<not> is_space (CHR ''+'')" by (simp add: is_space_def)
  have ws: "takeWhile is_space s = ws"
  proof -
    have "takeWhile is_space (sg @ ds) = []" using s(3) c(1) plus by (auto simp: ds)
    then show ?thesis using s(2) by (simp add: s(1) list_all_iff)
  qed
  have rest: "drop (length ws) s = sg @ ds" by (simp add: s(1))
  have digits: "takeWhile is_digit ds = ds" using s(5) by (simp add: list_all_iff takeWhile_eq_all_conv)
  have le: "num_of_digits ds \<le> 2 ^ 63 - 1" using s(6) assms(2) by simp
  from s(3) show "strtol10 s = (int n, length s, False)"
  proof
    assume sg: "sg = []"
    then have "drop (length ws) s = ds" using rest by simp
    then show ?thesis
      unfolding strtol10_def Let_def ws
      using c digits s(6) assms(2) by (simp add: s(1) sg ds)
  next
    assume sg: "sg = ''+''"
    then have "drop (length ws) s = CHR ''+'' # ds" using rest by simp
    then show ?thesis
      unfolding strtol10_def Let_def ws
      using digits s(6) assms(2) ds by (simp add: s(1) sg)
  qed
qed

lemma strtol_value:
  assumes "(if ds = [] then (0, 0, False) else if V > M then (M, n, True) else if V < m then (m, n, True)
            else (V, n, False)) = (v, l, False)" and "0 < (v :: int)"
  shows "ds \<noteq> [] \<and> v = V \<and> l = (n :: nat)"
  using assms by (simp split: if_splits)

lemma strtol_port_numeral:
  assumes "strtol10 s = (v, length s, False)" and "0 < v"
  shows "port_numeral s (nat v)"
proof -
  obtain ws where ws: "ws = takeWhile is_space s" by blast
  obtain r where r: "r = drop (length ws) s" by blast
  obtain neg where neg: "neg = (r \<noteq> [] \<and> hd r = CHR ''-'')" by blast
  obtain k :: nat where k: "k = (if r \<noteq> [] \<and> (hd r = CHR ''-'' \<or> hd r = CHR ''+'') then 1 else 0)" by blast
  obtain ds where ds: "ds = takeWhile is_digit (drop k r)" by blast
  obtain V where V: "V = (if neg then - int (num_of_digits ds) else int (num_of_digits ds))" by blast
  have "ds \<noteq> [] \<and> v = V \<and> length s = length ws + k + length ds"
    by (rule strtol_value [OF _ assms(2)])
       (use assms(1) in \<open>simp only: strtol10_def Let_def ws r neg k ds V\<close>)
  then have st: "ds \<noteq> []" "v = V" "length s = length ws + k + length ds" by blast+
  have pos: "\<not> neg" "v = int (num_of_digits ds)" using st(2) assms(2) by (simp_all add: V split: if_splits)
  have s: "s = ws @ r" unfolding r ws by (metis dropWhile_eq_drop takeWhile_dropWhile_id)
  have all: "ds = drop k r"
  proof -
    have "length (drop k r) = length ds" using st(3) by (simp add: s)
    then show ?thesis unfolding ds by (metis takeWhile_eq_take take_all order_refl)
  qed
  have sg: "take k r = [] \<or> take k r = ''+''"
    using pos(1) unfolding neg k by (cases r) (simp_all del: char.inject)
  have "s = ws @ take k r @ ds" by (simp add: s all)
  moreover have "list_all is_space ws" "list_all is_digit ds"
    unfolding ws ds by (auto simp: list_all_iff dest: set_takeWhileD)
  ultimately show ?thesis using sg st(1) pos(2) unfolding port_numeral_def by (metis nat_int)
qed

text \<open>
  Property C34. \<open>parse_port\<close> accepts exactly what \<open>strtol\<close> reads to its end as a number from 1 to
  65535: digits, with leading zeros, a plus sign and white space before them, and nothing
  behind them. The port is that number, without a wrap-around; everything else, the empty
  string, a minus sign, 0 and 65536 and numbers that do not fit a \<open>long\<close>, is an error
  without a port.
\<close>

theorem parse_port_exact:
  "(parse_port s = (CHAT_OK, Some p) \<longleftrightarrow> port_numeral s (unat p) \<and> p \<noteq> 0) \<and>
   (\<nexists>n. 0 < n \<and> n \<le> 65535 \<and> port_numeral s n) = (parse_port s = (CHAT_ERR, None))"
proof -
  have word: "word_of_nat (unat p) = p" "unat p \<le> 65535" "unat p = 0 \<longleftrightarrow> p = 0" for p :: "16 word"
  proof -
    have "unat p < 2 ^ LENGTH(16)" by (rule unsigned_less)
    then show "unat p \<le> 65535" by simp
  qed (simp_all add: unat_eq_0)
  have ok: "parse_port s = (CHAT_OK, Some p) \<longleftrightarrow> port_numeral s (unat p) \<and> p \<noteq> 0" for p
  proof
    assume "parse_port s = (CHAT_OK, Some p)"
    then obtain v where v: "strtol10 s = (v, length s, False)" "0 < v" "v \<le> 65535" "p = word_of_int v"
      by (auto simp: parse_port_OK_iff)
    then have m: "v = int (nat v)" "nat v < 2 ^ 16" by simp_all
    have "p = word_of_nat (nat v)" using v(4) m(1) by (metis of_int_of_nat_eq)
    then have "unat p = nat v" using m(2) by (simp add: unat_of_nat)
    with strtol_port_numeral [OF v(1,2)] v(2) show "port_numeral s (unat p) \<and> p \<noteq> 0" by auto
  next
    assume p: "port_numeral s (unat p) \<and> p \<noteq> 0"
    have "0 < int (unat p)" "int (unat p) \<le> 65535" using p word(2,3) [of p] by linarith+
    moreover have "p = word_of_int (int (unat p))" using word(1) [of p] by (simp only: of_int_of_nat_eq)
    ultimately show "parse_port s = (CHAT_OK, Some p)"
      using port_numeral_strtol [OF p [THEN conjunct1] word(2)] unfolding parse_port_OK_iff by blast
  qed
  have err: "parse_port s = (CHAT_ERR, None) \<longleftrightarrow> (\<nexists>p. parse_port s = (CHAT_OK, Some p))"
    by (auto simp: parse_port_def split: prod.splits if_splits)
  have "(\<exists>n. 0 < n \<and> n \<le> 65535 \<and> port_numeral s n) \<longleftrightarrow> (\<exists>p :: 16 word. port_numeral s (unat p) \<and> p \<noteq> 0)"
  proof
    assume "\<exists>n. 0 < n \<and> n \<le> 65535 \<and> port_numeral s n"
    then obtain n where n: "0 < n" "n \<le> 65535" "port_numeral s n" by blast
    then have "unat (word_of_nat n :: 16 word) = n" by (simp add: unat_of_nat)
    with n show "\<exists>p :: 16 word. port_numeral s (unat p) \<and> p \<noteq> 0" by (metis less_irrefl unat_0)
  next
    assume "\<exists>p :: 16 word. port_numeral s (unat p) \<and> p \<noteq> 0"
    then show "\<exists>n. 0 < n \<and> n \<le> 65535 \<and> port_numeral s n" using word(2,3) by (metis gr0I)
  qed
  with ok err show ?thesis by simp
qed

text \<open>\<open>set_socket_nonblocking\<close> changes the bits of the mask and no others.\<close>

lemma set_socket_nonblocking_bits:
  "set_socket_nonblocking (Some flags) nb enable True = (CHAT_OK, Some f) \<Longrightarrow>
   f AND nb = (if enable then nb else 0) \<and> f AND NOT nb = flags AND NOT nb"
  by (auto simp: set_socket_nonblocking_def bit_eq_iff bit_simps split: if_splits)

end
