(* ===== verification/Protocol.thy ===== *)
theory Protocol
  imports Utils
begin

text \<open>
  \<open>src/common/protocol.c\<close>: the line protocol. The parsers fill structures that were zeroed
  by \<open>memset\<close>, so that every character array in them holds a terminated string; a field is
  that string, and \<open>strncpy\<close> of \<open>n\<close> bytes into it is \<open>take n\<close>. A parser that fails half-way
  leaves what it has written: the result is the status together with the structure.
\<close>

section \<open>Data\<close>

datatype client_cmd =
    CMD_UNKNOWN | CMD_AUTH | CMD_JOIN_ROOM | CMD_MSG | CMD_PM | CMD_LIST | CMD_HISTORY
  | CMD_KICK | CMD_QUIT

datatype server_resp =
    RESP_UNKNOWN | RESP_OK | RESP_ERR | RESP_WELCOME | RESP_BROADCAST | RESP_PM | RESP_USER_JOIN
  | RESP_USER_LEFT | RESP_ROOM_JOINED | RESP_HISTORY | RESP_KICKED | RESP_LIST

record parsed_cmd =
  pc_cmd :: client_cmd
  pc_arg1 :: string
  pc_arg2 :: string

record parsed_resp =
  pr_type :: server_resp
  pr_username :: string
  pr_room :: string
  pr_message :: string
  pr_timestamp :: string
  pr_user_list :: string
  pr_history_payload :: string
  pr_from_user :: string

definition empty_cmd :: parsed_cmd where
  "empty_cmd = \<lparr>pc_cmd = CMD_UNKNOWN, pc_arg1 = [], pc_arg2 = []\<rparr>"

definition empty_resp :: parsed_resp where
  "empty_resp = \<lparr>pr_type = RESP_UNKNOWN, pr_username = [], pr_room = [], pr_message = [],
     pr_timestamp = [], pr_user_list = [], pr_history_payload = [], pr_from_user = []\<rparr>"

section \<open>Tokens\<close>

text \<open>The first token goes to an array of \<open>cmd_len\<close> bytes; the rest is a pointer into the line.\<close>

definition split_first_token :: "string \<Rightarrow> nat \<Rightarrow> chat_status + string \<times> string" where
  "split_first_token line cmd_len =
     (case strchr line SP of
        None \<Rightarrow>
          if cmd_len \<le> length line then Inl CHAT_ERR_PROTOCOL
          else Inr (take (cmd_len - 1) line, [])
      | Some cmd_size \<Rightarrow>
          if cmd_len \<le> cmd_size then Inl CHAT_ERR_PROTOCOL
          else Inr (take cmd_size line, drop (cmd_size + 1) line))"

definition parse_two_tokens ::
  "string \<Rightarrow> string \<Rightarrow> nat \<Rightarrow> string \<Rightarrow> nat \<Rightarrow> chat_status \<times> string \<times> string" where
  "parse_two_tokens rest a a_len b b_len =
     (case strchr rest SP of
        None \<Rightarrow> (CHAT_ERR_PROTOCOL, a, b)
      | Some len_a \<Rightarrow>
          if len_a = 0 \<or> a_len \<le> len_a then (CHAT_ERR_PROTOCOL, a, b)
          else
            let a' = take len_a rest; msg = drop (len_a + 1) rest
            in if msg = [] \<or> b_len \<le> length msg then (CHAT_ERR_PROTOCOL, a', b)
               else (CHAT_OK, a', take (b_len - 1) msg))"

section \<open>Client lines\<close>

definition protocol_parse_client_line :: "string \<Rightarrow> chat_status \<times> parsed_cmd" where
  "protocol_parse_client_line line =
     (let out = empty_cmd
      in case split_first_token line CMD_BUF_LEN of
           Inl _ \<Rightarrow> (CHAT_ERR_PROTOCOL, out)
         | Inr (cmd, rest) \<Rightarrow>
             if cmd = ''AUTH'' then
               (let (st, a, b) = parse_two_tokens rest [] MAX_USERNAME_LEN [] MAX_MSG_LEN
                in (st, out\<lparr>pc_cmd := CMD_AUTH, pc_arg1 := a, pc_arg2 := b\<rparr>))
             else if cmd = ''JOIN_ROOM'' then
               (if rest = [] \<or> MAX_ROOM_NAME_LEN \<le> length rest then (CHAT_ERR_PROTOCOL, out)
                else (CHAT_OK, out\<lparr>pc_cmd := CMD_JOIN_ROOM, pc_arg1 := take (MAX_ROOM_NAME_LEN - 1) rest\<rparr>))
             else if cmd = ''MSG'' then
               (if rest = [] \<or> MAX_MSG_LEN \<le> length rest then (CHAT_ERR_PROTOCOL, out)
                else (CHAT_OK, out\<lparr>pc_cmd := CMD_MSG, pc_arg2 := take (MAX_MSG_LEN - 1) rest\<rparr>))
             else if cmd = ''PM'' then
               (let (st, a, b) = parse_two_tokens rest [] MAX_USERNAME_LEN [] MAX_MSG_LEN
                in (st, out\<lparr>pc_cmd := CMD_PM, pc_arg1 := a, pc_arg2 := b\<rparr>))
             else if cmd = ''LIST'' then (CHAT_OK, out\<lparr>pc_cmd := CMD_LIST\<rparr>)
             else if cmd = ''HISTORY'' then (CHAT_OK, out\<lparr>pc_cmd := CMD_HISTORY\<rparr>)
             else if cmd = ''KICK'' then
               (if rest = [] \<or> MAX_USERNAME_LEN \<le> length rest then (CHAT_ERR_PROTOCOL, out)
                else (CHAT_OK, out\<lparr>pc_cmd := CMD_KICK, pc_arg1 := take (MAX_USERNAME_LEN - 1) rest\<rparr>))
             else if cmd = ''QUIT'' then (CHAT_OK, out\<lparr>pc_cmd := CMD_QUIT\<rparr>)
             else (CHAT_ERR_PROTOCOL, out\<lparr>pc_cmd := CMD_UNKNOWN\<rparr>))"

text \<open>The builders: the status and the line the buffer then holds.\<close>

definition protocol_build_client_auth :: "nat \<Rightarrow> string \<Rightarrow> string \<Rightarrow> chat_status \<times> string" where
  "protocol_build_client_auth buflen username password =
     snprintf_line buflen (''AUTH '' @ username @ [SP] @ password @ [LF])"

definition protocol_build_client_join_room :: "nat \<Rightarrow> string \<Rightarrow> chat_status \<times> string" where
  "protocol_build_client_join_room buflen room = snprintf_line buflen (''JOIN_ROOM '' @ room @ [LF])"

definition protocol_build_client_msg :: "nat \<Rightarrow> string \<Rightarrow> chat_status \<times> string" where
  "protocol_build_client_msg buflen message = snprintf_line buflen (''MSG '' @ message @ [LF])"

definition protocol_build_client_pm :: "nat \<Rightarrow> string \<Rightarrow> string \<Rightarrow> chat_status \<times> string" where
  "protocol_build_client_pm buflen target message =
     snprintf_line buflen (''PM '' @ target @ [SP] @ message @ [LF])"

definition protocol_build_client_list :: "nat \<Rightarrow> chat_status \<times> string" where
  "protocol_build_client_list buflen = snprintf_line buflen (''LIST'' @ [LF])"

definition protocol_build_client_history :: "nat \<Rightarrow> chat_status \<times> string" where
  "protocol_build_client_history buflen = snprintf_line buflen (''HISTORY'' @ [LF])"

definition protocol_build_client_kick :: "nat \<Rightarrow> string \<Rightarrow> chat_status \<times> string" where
  "protocol_build_client_kick buflen username = snprintf_line buflen (''KICK '' @ username @ [LF])"

definition protocol_build_client_quit :: "nat \<Rightarrow> chat_status \<times> string" where
  "protocol_build_client_quit buflen = snprintf_line buflen (''QUIT'' @ [LF])"

section \<open>Server lines\<close>

definition parse_four_fields_rest_msg ::
  "string \<Rightarrow> nat \<Rightarrow> nat \<Rightarrow> nat \<Rightarrow> nat \<Rightarrow> chat_status \<times> string \<times> string \<times> string \<times> string" where
  "parse_four_fields_rest_msg rest f1_len f2_len f3_len f4_len =
     (case strchr rest SP of
        None \<Rightarrow> (CHAT_ERR_PROTOCOL, [], [], [], [])
      | Some l1 \<Rightarrow>
        if l1 = 0 \<or> f1_len \<le> l1 then (CHAT_ERR_PROTOCOL, [], [], [], [])
        else let f1 = take l1 rest; r1 = drop (l1 + 1) rest in
     (case strchr r1 SP of
        None \<Rightarrow> (CHAT_ERR_PROTOCOL, f1, [], [], [])
      | Some l2 \<Rightarrow>
        if l2 = 0 \<or> f2_len \<le> l2 then (CHAT_ERR_PROTOCOL, f1, [], [], [])
        else let f2 = take l2 r1; r2 = drop (l2 + 1) r1 in
     (case strchr r2 SP of
        None \<Rightarrow> (CHAT_ERR_PROTOCOL, f1, f2, [], [])
      | Some l3 \<Rightarrow>
        if l3 = 0 \<or> f3_len \<le> l3 then (CHAT_ERR_PROTOCOL, f1, f2, [], [])
        else let f3 = take l3 r2; msg = drop (l3 + 1) r2 in
        if msg = [] \<or> f4_len \<le> length msg then (CHAT_ERR_PROTOCOL, f1, f2, f3, [])
        else (CHAT_OK, f1, f2, f3, take (f4_len - 1) msg))))"

definition parse_two_fields :: "string \<Rightarrow> nat \<Rightarrow> nat \<Rightarrow> chat_status \<times> string \<times> string" where
  "parse_two_fields rest f1_len f2_len =
     (case strchr rest SP of
        None \<Rightarrow>
          if rest = [] \<or> f1_len \<le> length rest then (CHAT_ERR_PROTOCOL, [], [])
          else (CHAT_OK, take (f1_len - 1) rest, [])
      | Some len \<Rightarrow>
          if len = 0 \<or> f1_len \<le> len then (CHAT_ERR_PROTOCOL, [], [])
          else
            let f1 = take len rest; f2src = drop (len + 1) rest
            in if f2src = [] \<or> f2_len \<le> length f2src then (CHAT_ERR_PROTOCOL, f1, [])
               else (CHAT_OK, f1, take (f2_len - 1) f2src))"

definition parse_three_fields_msg ::
  "string \<Rightarrow> nat \<Rightarrow> nat \<Rightarrow> nat \<Rightarrow> chat_status \<times> string \<times> string \<times> string" where
  "parse_three_fields_msg rest f1_len f2_len f3_len =
     (case strchr rest SP of
        None \<Rightarrow> (CHAT_ERR_PROTOCOL, [], [], [])
      | Some l1 \<Rightarrow>
        if l1 = 0 \<or> f1_len \<le> l1 then (CHAT_ERR_PROTOCOL, [], [], [])
        else let f1 = take l1 rest; r1 = drop (l1 + 1) rest in
     (case strchr r1 SP of
        None \<Rightarrow> (CHAT_ERR_PROTOCOL, f1, [], [])
      | Some l2 \<Rightarrow>
        if l2 = 0 \<or> f2_len \<le> l2 then (CHAT_ERR_PROTOCOL, f1, [], [])
        else let f2 = take l2 r1; msg = drop (l2 + 1) r1 in
        if msg = [] \<or> f3_len \<le> length msg then (CHAT_ERR_PROTOCOL, f1, f2, [])
        else (CHAT_OK, f1, f2, take (f3_len - 1) msg)))"

definition protocol_parse_server_line :: "string \<Rightarrow> chat_status \<times> parsed_resp" where
  "protocol_parse_server_line line =
     (let out = empty_resp; work = trim_newline (take (MAX_LINE_LEN - 1) line)
      in case split_first_token work CMD_BUF_LEN of
           Inl _ \<Rightarrow> (CHAT_ERR_PROTOCOL, out)
         | Inr (cmd, rest) \<Rightarrow>
             if cmd = ''OK'' then
               (CHAT_OK, out\<lparr>pr_type := RESP_OK, pr_message := take (MAX_MSG_LEN - 1) rest\<rparr>)
             else if cmd = ''ERR'' then
               (CHAT_OK, out\<lparr>pr_type := RESP_ERR, pr_message := take (MAX_MSG_LEN - 1) rest\<rparr>)
             else if cmd = ''WELCOME'' then
               (CHAT_OK, out\<lparr>pr_type := RESP_WELCOME, pr_username := take (MAX_USERNAME_LEN - 1) rest\<rparr>)
             else if cmd = ''BROADCAST'' then
               (let (st, u, ts, r, m) = parse_four_fields_rest_msg rest
                      MAX_USERNAME_LEN TIMESTAMP_LEN MAX_ROOM_NAME_LEN MAX_MSG_LEN
                in (st, out\<lparr>pr_type := RESP_BROADCAST, pr_username := u, pr_timestamp := ts,
                         pr_room := r, pr_message := m\<rparr>))
             else if cmd = ''PM'' then
               (let (st, f, ts, m) = parse_three_fields_msg rest
                      MAX_USERNAME_LEN TIMESTAMP_LEN MAX_MSG_LEN
                in (st, out\<lparr>pr_type := RESP_PM, pr_from_user := f, pr_timestamp := ts,
                         pr_message := m\<rparr>))
             else if cmd = ''USER_JOIN'' then
               (let (st, u, r) = parse_two_fields rest MAX_USERNAME_LEN MAX_ROOM_NAME_LEN
                in (st, out\<lparr>pr_type := RESP_USER_JOIN, pr_username := u, pr_room := r\<rparr>))
             else if cmd = ''USER_LEFT'' then
               (let (st, u, r) = parse_two_fields rest MAX_USERNAME_LEN MAX_ROOM_NAME_LEN
                in (st, out\<lparr>pr_type := RESP_USER_LEFT, pr_username := u, pr_room := r\<rparr>))
             else if cmd = ''ROOM_JOINED'' then
               (CHAT_OK, out\<lparr>pr_type := RESP_ROOM_JOINED, pr_room := take (MAX_ROOM_NAME_LEN - 1) rest\<rparr>)
             else if cmd = ''HISTORY'' then
               (CHAT_OK, out\<lparr>pr_type := RESP_HISTORY,
                         pr_history_payload := take (MAX_LINE_LEN - 1) rest\<rparr>)
             else if cmd = ''KICKED'' then
               (CHAT_OK, out\<lparr>pr_type := RESP_KICKED, pr_message := take (MAX_MSG_LEN - 1) rest\<rparr>)
             else if cmd = ''LIST'' then
               (CHAT_OK, out\<lparr>pr_type := RESP_LIST, pr_user_list := take (MAX_MSG_LEN - 1) rest\<rparr>)
             else (CHAT_ERR_PROTOCOL, out\<lparr>pr_type := RESP_UNKNOWN\<rparr>))"

text \<open>\<open>msg != NULL ? msg : ""\<close>\<close>

definition or_empty :: "string option \<Rightarrow> string" where
  "or_empty m = (case m of None \<Rightarrow> [] | Some s \<Rightarrow> s)"

definition protocol_build_server_ok :: "nat \<Rightarrow> string option \<Rightarrow> chat_status \<times> string" where
  "protocol_build_server_ok buflen msg = snprintf_line buflen (''OK '' @ or_empty msg @ [LF])"

definition protocol_build_server_err :: "nat \<Rightarrow> string option \<Rightarrow> chat_status \<times> string" where
  "protocol_build_server_err buflen msg = snprintf_line buflen (''ERR '' @ or_empty msg @ [LF])"

definition protocol_build_server_welcome :: "nat \<Rightarrow> string \<Rightarrow> chat_status \<times> string" where
  "protocol_build_server_welcome buflen username = snprintf_line buflen (''WELCOME '' @ username @ [LF])"

definition protocol_build_server_broadcast ::
  "nat \<Rightarrow> string \<Rightarrow> string \<Rightarrow> string \<Rightarrow> string \<Rightarrow> chat_status \<times> string" where
  "protocol_build_server_broadcast buflen username timestamp room message =
     snprintf_line buflen
       (''BROADCAST '' @ username @ [SP] @ timestamp @ [SP] @ room @ [SP] @ message @ [LF])"

definition protocol_build_server_pm :: "nat \<Rightarrow> string \<Rightarrow> string \<Rightarrow> string \<Rightarrow> chat_status \<times> string" where
  "protocol_build_server_pm buflen from_user timestamp message =
     snprintf_line buflen (''PM '' @ from_user @ [SP] @ timestamp @ [SP] @ message @ [LF])"

definition protocol_build_server_user_join :: "nat \<Rightarrow> string \<Rightarrow> string \<Rightarrow> chat_status \<times> string" where
  "protocol_build_server_user_join buflen username room =
     snprintf_line buflen (''USER_JOIN '' @ username @ [SP] @ room @ [LF])"

definition protocol_build_server_user_left :: "nat \<Rightarrow> string \<Rightarrow> string \<Rightarrow> chat_status \<times> string" where
  "protocol_build_server_user_left buflen username room =
     snprintf_line buflen (''USER_LEFT '' @ username @ [SP] @ room @ [LF])"

definition protocol_build_server_room_joined :: "nat \<Rightarrow> string \<Rightarrow> chat_status \<times> string" where
  "protocol_build_server_room_joined buflen room = snprintf_line buflen (''ROOM_JOINED '' @ room @ [LF])"

definition protocol_build_server_history :: "nat \<Rightarrow> string option \<Rightarrow> chat_status \<times> string" where
  "protocol_build_server_history buflen payload =
     snprintf_line buflen (''HISTORY '' @ or_empty payload @ [LF])"

definition protocol_build_server_kicked :: "nat \<Rightarrow> string option \<Rightarrow> chat_status \<times> string" where
  "protocol_build_server_kicked buflen reason = snprintf_line buflen (''KICKED '' @ or_empty reason @ [LF])"

definition protocol_build_server_list :: "nat \<Rightarrow> string option \<Rightarrow> chat_status \<times> string" where
  "protocol_build_server_list buflen user_list = snprintf_line buflen (''LIST '' @ or_empty user_list @ [LF])"

fun protocol_cmd_name :: "client_cmd \<Rightarrow> string" where
  "protocol_cmd_name CMD_AUTH = ''AUTH''"
| "protocol_cmd_name CMD_JOIN_ROOM = ''JOIN_ROOM''"
| "protocol_cmd_name CMD_MSG = ''MSG''"
| "protocol_cmd_name CMD_PM = ''PM''"
| "protocol_cmd_name CMD_LIST = ''LIST''"
| "protocol_cmd_name CMD_HISTORY = ''HISTORY''"
| "protocol_cmd_name CMD_KICK = ''KICK''"
| "protocol_cmd_name CMD_QUIT = ''QUIT''"
| "protocol_cmd_name CMD_UNKNOWN = ''UNKNOWN''"

fun protocol_resp_name :: "server_resp \<Rightarrow> string" where
  "protocol_resp_name RESP_OK = ''OK''"
| "protocol_resp_name RESP_ERR = ''ERR''"
| "protocol_resp_name RESP_WELCOME = ''WELCOME''"
| "protocol_resp_name RESP_BROADCAST = ''BROADCAST''"
| "protocol_resp_name RESP_PM = ''PM''"
| "protocol_resp_name RESP_USER_JOIN = ''USER_JOIN''"
| "protocol_resp_name RESP_USER_LEFT = ''USER_LEFT''"
| "protocol_resp_name RESP_ROOM_JOINED = ''ROOM_JOINED''"
| "protocol_resp_name RESP_HISTORY = ''HISTORY''"
| "protocol_resp_name RESP_KICKED = ''KICKED''"
| "protocol_resp_name RESP_LIST = ''LIST''"
| "protocol_resp_name RESP_UNKNOWN = ''UNKNOWN''"

end
