(* ===== verification/Room_Manager.thy ===== *)
theory Room_Manager
  imports Protocol
begin

text \<open>
  \<open>src/server/room_manager.c\<close>: the rooms and the message history of each, a ring of
  \<open>MAX_ROOM_HISTORY\<close> entries with a start index and a count. The rooms are a linked list
  that grows at its head, here a list. A room comes from \<open>calloc\<close>, so that its arrays hold
  terminated strings throughout and a field is a string. Each operation runs under the
  manager's mutex and is one step. Whether \<open>calloc\<close> succeeds, and what \<open>localtime_r\<close>
  answers, are parameters.
\<close>

section \<open>Data\<close>

record history_entry =
  he_username :: string
  he_content :: string
  he_timestamp :: string

record room_node =
  rn_name :: string
  rn_history :: "history_entry list"
  rn_count :: nat
  rn_start :: nat

record room_manager =
  rm_rooms :: "room_node list"
  rm_room_count :: nat

definition zero_entry :: history_entry where
  "zero_entry = \<lparr>he_username = [], he_content = [], he_timestamp = []\<rparr>"

definition new_room :: "string \<Rightarrow> room_node" where
  "new_room name = \<lparr>rn_name = take (MAX_ROOM_NAME_LEN - 1) name,
     rn_history = replicate MAX_ROOM_HISTORY zero_entry, rn_count = 0, rn_start = 0\<rparr>"

section \<open>Operations\<close>

text \<open>The loop over the rooms: the position of the first room with the name.\<close>

fun room_index :: "room_node list \<Rightarrow> string \<Rightarrow> nat option" where
  "room_index [] name = None"
| "room_index (cur # rs) name =
     (if rn_name cur = name then Some 0 else map_option Suc (room_index rs name))"

text \<open>\<open>room_find_or_create\<close>: the position of the room, or none when it cannot be made.\<close>

definition room_find_or_create :: "bool \<Rightarrow> room_manager \<Rightarrow> string \<Rightarrow> nat option \<times> room_manager" where
  "room_find_or_create mem_ok mgr name =
     (case room_index (rm_rooms mgr) name of
        Some i \<Rightarrow> (Some i, mgr)
      | None \<Rightarrow>
          if MAX_ROOMS \<le> rm_room_count mgr then (None, mgr)
          else if \<not> mem_ok then (None, mgr)
          else (Some 0, mgr\<lparr>rm_rooms := new_room name # rm_rooms mgr,
                            rm_room_count := rm_room_count mgr + 1\<rparr>))"

definition room_manager_empty :: room_manager where
  "room_manager_empty = \<lparr>rm_rooms = [], rm_room_count = 0\<rparr>"

definition room_manager_init :: "bool \<Rightarrow> bool \<Rightarrow> chat_status \<times> room_manager" where
  "room_manager_init mutex_ok mem_ok =
     (if \<not> mutex_ok then (CHAT_ERR, room_manager_empty)
      else case room_find_or_create mem_ok room_manager_empty DEFAULT_ROOM of
             (None, mgr) \<Rightarrow> (CHAT_ERR, mgr)
           | (Some _, mgr) \<Rightarrow> (CHAT_OK, mgr))"

definition room_manager_destroy :: "room_manager \<Rightarrow> room_manager" where
  "room_manager_destroy mgr = mgr\<lparr>rm_rooms := [], rm_room_count := 0\<rparr>"

text \<open>The entry goes to the next free slot, or to the oldest one when the ring is full.\<close>

definition ring_put :: "room_node \<Rightarrow> history_entry \<Rightarrow> room_node" where
  "ring_put rn entry =
     (if rn_count rn < MAX_ROOM_HISTORY then
        rn\<lparr>rn_history := (rn_history rn)[rn_count rn := entry], rn_count := rn_count rn + 1\<rparr>
      else
        rn\<lparr>rn_history := (rn_history rn)[rn_start rn := entry],
           rn_start := (rn_start rn + 1) mod MAX_ROOM_HISTORY\<rparr>)"

definition history_entry_of :: "(int \<Rightarrow> tm option) \<Rightarrow> string \<Rightarrow> string \<Rightarrow> int \<Rightarrow> history_entry" where
  "history_entry_of lt username content ts =
     \<lparr>he_username = take (MAX_USERNAME_LEN - 1) username,
      he_content = take (MAX_MSG_LEN - 1) content,
      he_timestamp = format_timestamp lt ts TIMESTAMP_LEN\<rparr>"

definition room_history_add ::
  "bool \<Rightarrow> (int \<Rightarrow> tm option) \<Rightarrow> room_manager \<Rightarrow> string \<Rightarrow> string \<Rightarrow> string \<Rightarrow> int
    \<Rightarrow> chat_status \<times> room_manager" where
  "room_history_add mem_ok lt mgr room username content ts =
     (case room_find_or_create mem_ok mgr room of
        (None, mgr') \<Rightarrow> (CHAT_ERR_FULL, mgr')
      | (Some i, mgr') \<Rightarrow>
          (CHAT_OK, mgr'\<lparr>rm_rooms := (rm_rooms mgr')
             [i := ring_put (rm_rooms mgr' ! i) (history_entry_of lt username content ts)]\<rparr>))"

text \<open>\<open>room_history_format\<close>: the status and the string in the buffer.\<close>

definition entry_text :: "history_entry \<Rightarrow> string" where
  "entry_text e = he_username e @ ''|'' @ he_timestamp e @ ''|'' @ he_content e"

fun history_loop :: "room_node \<Rightarrow> nat list \<Rightarrow> string \<Rightarrow> bool \<Rightarrow> nat \<Rightarrow> chat_status \<times> string" where
  "history_loop cur [] buf first buflen = (CHAT_OK, buf)"
| "history_loop cur (i # is) buf first buflen =
     (let used = length buf;
          e = rn_history cur ! ((rn_start cur + i) mod MAX_ROOM_HISTORY);
          piece = (if first then entry_text e else ''||'' @ entry_text e)
      in if buflen - used \<le> length piece then (CHAT_ERR, buf @ take (buflen - used - 1) piece)
         else history_loop cur is (buf @ piece) False buflen)"

definition room_history_format :: "room_manager \<Rightarrow> string \<Rightarrow> nat \<Rightarrow> chat_status \<times> string" where
  "room_history_format mgr room buflen =
     (if buflen = 0 then (CHAT_ERR, [])
      else case List.find (\<lambda>cur. rn_name cur = room) (rm_rooms mgr) of
             None \<Rightarrow> (CHAT_OK, [])
           | Some cur \<Rightarrow> history_loop cur [0..<rn_count cur] [] True buflen)"

text \<open>\<open>send_fn\<close> sends a line to the client and updates the state of the network.\<close>

definition room_history_send_to_client ::
  "room_manager \<Rightarrow> string \<Rightarrow> (string \<Rightarrow> 's \<Rightarrow> chat_status \<times> 's) \<Rightarrow> 's \<Rightarrow> chat_status \<times> 's" where
  "room_history_send_to_client mgr room send_fn net =
     (case room_history_format mgr room MAX_LINE_LEN of
        (st, payload) \<Rightarrow>
          if st \<noteq> CHAT_OK then (CHAT_ERR, net)
          else case protocol_build_server_history MAX_LINE_LEN (Some payload) of
                 (st', line) \<Rightarrow>
                   if st' \<noteq> CHAT_OK then (CHAT_ERR, net) else send_fn line net)"

section \<open>The history as a log\<close>

text \<open>The entries of the ring, oldest first.\<close>

definition room_log :: "room_node \<Rightarrow> history_entry list" where
  "room_log rn = map (\<lambda>i. rn_history rn ! ((rn_start rn + i) mod MAX_ROOM_HISTORY)) [0..<rn_count rn]"

definition ring_ok :: "room_node \<Rightarrow> bool" where
  "ring_ok rn \<longleftrightarrow> length (rn_history rn) = MAX_ROOM_HISTORY \<and> rn_count rn \<le> MAX_ROOM_HISTORY \<and>
     rn_start rn < MAX_ROOM_HISTORY \<and> (rn_count rn < MAX_ROOM_HISTORY \<longrightarrow> rn_start rn = 0)"

lemma ring_ok_new: "ring_ok (new_room name)"
  by (simp add: ring_ok_def new_room_def)

lemma room_log_new: "room_log (new_room name) = []"
  by (simp add: room_log_def new_room_def)

lemma ring_put_name [simp]: "rn_name (ring_put rn e) = rn_name rn"
  by (simp add: ring_put_def)

lemma ring_ok_put: "ring_ok rn \<Longrightarrow> ring_ok (ring_put rn e)"
  by (auto simp: ring_ok_def ring_put_def)

lemma room_log_put_free:
  assumes "ring_ok rn" and "rn_count rn < 100"
  shows "room_log (ring_put rn e) = room_log rn @ [e]"
proof -
  have s: "rn_start rn = 0" "length (rn_history rn) = 100"
    using assms by (simp_all add: ring_ok_def)
  have "map (\<lambda>i. (rn_history rn)[rn_count rn := e] ! (i mod 100)) [0..<rn_count rn]
      = map (\<lambda>i. rn_history rn ! (i mod 100)) [0..<rn_count rn]"
    using assms(2) by (intro map_cong) auto
  then show ?thesis
    using assms(2) s by (simp add: room_log_def ring_put_def)
qed

lemma room_log_put_full:
  assumes "ring_ok rn" and "rn_count rn = 100"
  shows "room_log (ring_put rn e) = tl (room_log rn) @ [e]"
proof (rule nth_equalityI)
  have s: "rn_start rn < 100" "length (rn_history rn) = 100"
    using assms by (simp_all add: ring_ok_def)
  show "length (room_log (ring_put rn e)) = length (tl (room_log rn) @ [e])"
    using assms(2) by (simp add: room_log_def ring_put_def)
  fix i
  assume "i < length (room_log (ring_put rn e))"
  then have i: "i < 100" using assms(2) by (simp add: room_log_def ring_put_def)
  have idx: "(Suc (rn_start rn) mod 100 + i) mod 100 = (rn_start rn + Suc i) mod 100"
    by (rule ring_succ_index)
  have l: "room_log (ring_put rn e) ! i
      = (rn_history rn)[rn_start rn := e] ! ((rn_start rn + Suc i) mod 100)"
    using assms(2) i idx by (simp add: room_log_def ring_put_def)
  show "room_log (ring_put rn e) ! i = (tl (room_log rn) @ [e]) ! i"
  proof (cases "i < 99")
    case True
    then have "(rn_start rn + Suc i) mod 100 \<noteq> rn_start rn"
      using ring_tail_index [of "rn_start rn" 100 i] s(1) idx by simp
    then have "room_log (ring_put rn e) ! i = rn_history rn ! ((rn_start rn + Suc i) mod 100)"
      unfolding l by simp
    also have "\<dots> = tl (room_log rn) ! i"
      using True assms(2) by (simp add: nth_tl room_log_def)
    finally show ?thesis
      using True assms(2) by (simp add: nth_append room_log_def)
  next
    case False
    with i have "i = 99" by simp
    with s assms(2) show ?thesis
      unfolding l by (simp add: nth_append room_log_def)
  qed
qed

text \<open>The ring holds the last \<open>MAX_ROOM_HISTORY\<close> entries put into it, in order.\<close>

lemma room_log_put:
  assumes "ring_ok rn"
  shows "room_log (ring_put rn e) = lastn MAX_ROOM_HISTORY (room_log rn @ [e])"
proof (cases "rn_count rn < 100")
  case True
  then show ?thesis
    using room_log_put_free [OF assms] by (simp add: lastn_all room_log_def)
next
  case False
  with assms have "rn_count rn = 100" by (simp add: ring_ok_def)
  then show ?thesis
    using room_log_put_full [OF assms] lastn_snoc_full [of "room_log rn" 99 e]
    by (simp add: room_log_def)
qed

section \<open>The contract of a bounded log\<close>

text \<open>
  What the command handlers rely on: per room a log that keeps the last \<open>cap\<close> entries; an
  entry that cannot be stored changes nothing.
\<close>

locale bounded_log =
  fixes log :: "'h \<Rightarrow> string \<Rightarrow> 'e list"
    and inv :: "'h \<Rightarrow> bool"
    and cap :: nat
    and room_ok :: "string \<Rightarrow> bool"
    and entry :: "'a \<Rightarrow> 'e"
    and add :: "'m \<Rightarrow> 'h \<Rightarrow> string \<Rightarrow> 'a \<Rightarrow> chat_status \<times> 'h"
  assumes add_keeps: "inv h \<Longrightarrow> room_ok rm \<Longrightarrow> inv (snd (add m h rm x))"
    and add_ok: "inv h \<Longrightarrow> room_ok rm \<Longrightarrow> fst (add m h rm x) = CHAT_OK \<Longrightarrow>
      log (snd (add m h rm x)) = (log h)(rm := lastn cap (log h rm @ [entry x]))"
    and add_fails: "inv h \<Longrightarrow> room_ok rm \<Longrightarrow> fst (add m h rm x) \<noteq> CHAT_OK \<Longrightarrow>
      log (snd (add m h rm x)) = log h"
begin

fun add_all :: "'h \<Rightarrow> string \<Rightarrow> ('m \<times> 'a) list \<Rightarrow> chat_status list \<times> 'h" where
  "add_all h rm [] = ([], h)"
| "add_all h rm ((m, x) # xs) =
     (let (st, h') = add m h rm x; (sts, h'') = add_all h' rm xs in (st # sts, h''))"

text \<open>
  After any number of additions to a room the log is the last \<open>cap\<close> of all the entries that
  were stored, and the other rooms are as before.
\<close>

lemma add_all_log:
  assumes "inv h" and "room_ok rm" and "length (log h rm) \<le> cap"
    and "add_all h rm xs = (sts, h')"
  shows "inv h' \<and> (\<forall>r. r \<noteq> rm \<longrightarrow> log h' r = log h r) \<and>
     log h' rm = lastn cap (log h rm @
       map (\<lambda>(st, m, x). entry x) (filter (\<lambda>(st, m, x). st = CHAT_OK) (zip sts xs)))"
  using assms
proof (induction xs arbitrary: h sts)
  case Nil
  then show ?case by (simp add: lastn_all)
next
  case (Cons mx xs)
  obtain m x where mx: "mx = (m, x)" by (cases mx)
  obtain st h1 where s: "add m h rm x = (st, h1)" by (cases "add m h rm x")
  obtain sts' where r: "add_all h1 rm xs = (sts', h')" "sts = st # sts'"
    using Cons.prems(4) s mx by (auto split: prod.splits)
  have inv1: "inv h1" using add_keeps [OF Cons.prems(1,2), of m x] s by simp
  show ?case
  proof (cases "st = CHAT_OK")
    case True
    then have log1: "log h1 = (log h)(rm := lastn cap (log h rm @ [entry x]))"
      using add_ok [OF Cons.prems(1,2), of m x] s by simp
    have "length (log h1 rm) \<le> cap" by (simp add: log1)
    from Cons.IH [OF inv1 Cons.prems(2) this r(1)] True mx r(2) show ?thesis
      by (simp add: log1 lastn_lastn_append)
  next
    case False
    then have log1: "log h1 = log h"
      using add_fails [OF Cons.prems(1,2), of m x] s by simp
    from Cons.IH [OF inv1 Cons.prems(2) _ r(1)] Cons.prems(3) False mx r(2) show ?thesis
      by (simp add: log1)
  qed
qed

end

section \<open>The room manager keeps the contract\<close>

definition rooms_inv :: "room_manager \<Rightarrow> bool" where
  "rooms_inv mgr \<longleftrightarrow> rm_room_count mgr = length (rm_rooms mgr) \<and> rm_room_count mgr \<le> MAX_ROOMS \<and>
     distinct (map rn_name (rm_rooms mgr)) \<and> (\<forall>rn \<in> set (rm_rooms mgr). ring_ok rn)"

definition mgr_log :: "room_manager \<Rightarrow> string \<Rightarrow> history_entry list" where
  "mgr_log mgr room =
     (case List.find (\<lambda>cur. rn_name cur = room) (rm_rooms mgr) of None \<Rightarrow> [] | Some rn \<Rightarrow> room_log rn)"

definition room_name_ok :: "string \<Rightarrow> bool" where
  "room_name_ok room \<longleftrightarrow> length room < MAX_ROOM_NAME_LEN"

lemma room_index_None: "room_index rs name = None \<longleftrightarrow> name \<notin> rn_name ` set rs"
  by (induction rs) auto

lemma room_index_Some:
  "room_index rs name = Some i \<Longrightarrow> i < length rs \<and> rn_name (rs ! i) = name \<and>
     List.find (\<lambda>cur. rn_name cur = name) rs = Some (rs ! i)"
  by (induction rs arbitrary: i) (auto split: if_splits)

lemma find_room_update:
  "room_index rs name = Some i \<Longrightarrow> rn_name rn = name \<Longrightarrow>
   List.find (\<lambda>cur. rn_name cur = r) (rs[i := rn]) =
     (if r = name then Some rn else List.find (\<lambda>cur. rn_name cur = r) rs)"
  by (induction rs arbitrary: i) (auto split: if_splits)

lemma map_rn_name_update:
  "i < length rs \<Longrightarrow> rn_name rn = rn_name (rs ! i) \<Longrightarrow> map rn_name (rs[i := rn]) = map rn_name rs"
  by (metis list_update_id map_update)

text \<open>Finding or creating a room keeps every log.\<close>

lemma room_find_or_create_spec:
  assumes inv: "rooms_inv mgr" and nm: "room_name_ok name"
    and res: "room_find_or_create mem_ok mgr name = (pos, mgr')"
  shows "rooms_inv mgr' \<and> mgr_log mgr' = mgr_log mgr \<and>
     (\<forall>i. pos = Some i \<longrightarrow> room_index (rm_rooms mgr') name = Some i)"
proof (cases "room_index (rm_rooms mgr) name")
  case (Some i)
  with res inv show ?thesis by (auto simp: room_find_or_create_def)
next
  case None
  show ?thesis
  proof (cases "pos = None")
    case True
    with None res inv show ?thesis by (auto simp: room_find_or_create_def split: if_splits)
  next
    case False
    then have m: "mgr' = mgr\<lparr>rm_rooms := new_room name # rm_rooms mgr, rm_room_count := rm_room_count mgr + 1\<rparr>"
        "pos = Some 0" "rm_room_count mgr < 64"
      using None res by (auto simp: room_find_or_create_def split: if_splits)
    have name: "rn_name (new_room name) = name"
      using nm by (simp add: new_room_def room_name_ok_def)
    have "name \<notin> rn_name ` set (rm_rooms mgr)" using None by (simp add: room_index_None)
    then have "rooms_inv mgr'" "mgr_log mgr' = mgr_log mgr"
      using inv m name None
      by (auto simp: rooms_inv_def ring_ok_new mgr_log_def fun_eq_iff room_log_new room_index_None
          find_key_None split: option.split dest!: find_key_Some)
    with m name show ?thesis by simp
  qed
qed

lemma room_history_add_spec:
  assumes inv: "rooms_inv mgr" and nm: "room_name_ok room"
  shows "rooms_inv (snd (room_history_add mem_ok lt mgr room u c ts)) \<and>
     mgr_log (snd (room_history_add mem_ok lt mgr room u c ts)) =
       (if fst (room_history_add mem_ok lt mgr room u c ts) = CHAT_OK
        then (mgr_log mgr)(room := lastn MAX_ROOM_HISTORY (mgr_log mgr room @ [history_entry_of lt u c ts]))
        else mgr_log mgr)"
proof -
  obtain pos mgr' where r: "room_find_or_create mem_ok mgr room = (pos, mgr')"
    by (cases "room_find_or_create mem_ok mgr room")
  note spec = room_find_or_create_spec [OF inv nm r]
  show ?thesis
  proof (cases pos)
    case None
    with r spec show ?thesis by (simp add: room_history_add_def)
  next
    case (Some i)
    let ?e = "history_entry_of lt u c ts" and ?rs = "rm_rooms mgr'"
    let ?rn = "ring_put (?rs ! i) ?e"
    have idx: "room_index ?rs room = Some i" using spec Some by blast
    then have i: "i < length ?rs" "rn_name (?rs ! i) = room"
        "List.find (\<lambda>cur. rn_name cur = room) ?rs = Some (?rs ! i)"
      using room_index_Some by blast+
    have inv': "rooms_inv mgr'" and log': "mgr_log mgr' = mgr_log mgr" using spec by simp_all
    have ring: "ring_ok (?rs ! i)" using inv' i(1) by (simp add: rooms_inv_def)
    have add: "room_history_add mem_ok lt mgr room u c ts = (CHAT_OK, mgr'\<lparr>rm_rooms := ?rs[i := ?rn]\<rparr>)"
      using r Some by (simp add: room_history_add_def)
    have "rooms_inv (mgr'\<lparr>rm_rooms := ?rs[i := ?rn]\<rparr>)"
      using inv' i ring map_rn_name_update [of i ?rs ?rn] ring_ok_put [OF ring]
      by (auto simp: rooms_inv_def dest!: subsetD [OF set_update_subset_insert])
    moreover have "mgr_log (mgr'\<lparr>rm_rooms := ?rs[i := ?rn]\<rparr>)
        = (mgr_log mgr')(room := lastn MAX_ROOM_HISTORY (mgr_log mgr' room @ [?e]))"
    proof
      fix r
      show "mgr_log (mgr'\<lparr>rm_rooms := ?rs[i := ?rn]\<rparr>) r
        = ((mgr_log mgr')(room := lastn MAX_ROOM_HISTORY (mgr_log mgr' room @ [?e]))) r"
        using find_room_update [OF idx, of ?rn r] i(2,3) room_log_put [OF ring, of ?e]
        by (simp add: mgr_log_def)
    qed
    ultimately show ?thesis using add log' by simp
  qed
qed

interpretation rooms: bounded_log mgr_log rooms_inv MAX_ROOM_HISTORY room_name_ok
  "\<lambda>(lt, u, c, ts). history_entry_of lt u c ts"
  "\<lambda>mem_ok mgr room (lt, u, c, ts). room_history_add mem_ok lt mgr room u c ts"
  by unfold_locales (simp_all add: split_beta room_history_add_spec)

text \<open>A run of additions to one room, each with its own \<open>calloc\<close>, clock and message.\<close>

fun history_add_all ::
  "room_manager \<Rightarrow> string \<Rightarrow> (bool \<times> (int \<Rightarrow> tm option) \<times> string \<times> string \<times> int) list
    \<Rightarrow> chat_status list \<times> room_manager" where
  "history_add_all mgr room [] = ([], mgr)"
| "history_add_all mgr room ((mem_ok, lt, u, c, ts) # xs) =
     (let (st, mgr') = room_history_add mem_ok lt mgr room u c ts;
          (sts, mgr'') = history_add_all mgr' room xs
      in (st # sts, mgr''))"

lemma history_add_all_rooms: "history_add_all mgr room xs = rooms.add_all mgr room xs"
  by (induction mgr room xs rule: history_add_all.induct) (auto split: prod.splits)

lemma mgr_log_bound: "rooms_inv mgr \<Longrightarrow> length (mgr_log mgr room) \<le> MAX_ROOM_HISTORY"
  by (auto simp: mgr_log_def rooms_inv_def ring_ok_def room_log_def split: option.split dest!: find_key_Some)

lemma room_manager_init_inv:
  "room_manager_init mutex_ok mem_ok = (CHAT_OK, mgr) \<Longrightarrow> rooms_inv mgr \<and> mgr_log mgr = (\<lambda>_. [])"
proof -
  assume res: "room_manager_init mutex_ok mem_ok = (CHAT_OK, mgr)"
  have "rooms_inv room_manager_empty" "mgr_log room_manager_empty = (\<lambda>_. [])"
    by (simp_all add: rooms_inv_def room_manager_empty_def mgr_log_def fun_eq_iff)
  moreover have "room_name_ok DEFAULT_ROOM" by (simp add: room_name_ok_def DEFAULT_ROOM_def)
  ultimately show ?thesis
    using res room_find_or_create_spec [of room_manager_empty DEFAULT_ROOM mem_ok]
    by (fastforce simp: room_manager_init_def split: if_splits prod.splits option.splits)
qed

lemma history_loop_pieces:
  "history_loop cur is buf first buflen =
     print_pieces ''||''
       (map (\<lambda>i. entry_text (rn_history cur ! ((rn_start cur + i) mod MAX_ROOM_HISTORY))) is) buf first buflen"
  by (induction "is" arbitrary: buf first) (simp_all add: Let_def)

definition history_text :: "room_manager \<Rightarrow> string \<Rightarrow> string" where
  "history_text mgr room = join_sep ''||'' True (map entry_text (mgr_log mgr room))"

lemma room_history_format_printed:
  "0 < buflen \<Longrightarrow> room_history_format mgr room buflen = printed buflen (history_text mgr room)"
  by (auto simp: room_history_format_def history_text_def mgr_log_def history_loop_pieces
      print_pieces_printed printed_def room_log_def o_def split: option.split)

section \<open>Properties\<close>

text \<open>
  Property C11. The history of a room is a faithful bounded log: whatever messages are added
  to a room, and whichever of the additions fail, the ring of the room then holds the last
  100 of the messages that were stored, oldest first, and no other room's history changes.
\<close>

theorem room_history_keeps_last:
  assumes "rooms_inv mgr" and "room_name_ok room"
    and "history_add_all mgr room xs = (sts, mgr')"
  shows "rooms_inv mgr' \<and> (\<forall>r. r \<noteq> room \<longrightarrow> mgr_log mgr' r = mgr_log mgr r) \<and>
     mgr_log mgr' room = lastn MAX_ROOM_HISTORY (mgr_log mgr room @
       map (\<lambda>(st, m, lt, u, c, ts). history_entry_of lt u c ts)
         (filter (\<lambda>(st, m, x). st = CHAT_OK) (zip sts xs)))"
  using rooms.add_all_log [OF assms(1,2) mgr_log_bound [OF assms(1)]] assms(3)
  by (simp add: split_def history_add_all_rooms)

theorem room_history_keeps_last_witness:
  "let mgr = snd (room_manager_init True True); x = (\<lambda>c. (True, (\<lambda>_. None), ''alice'', c, 0))
   in map he_content (mgr_log (snd (history_add_all mgr ''dev'' [x ''hi'', x ''there''])) ''dev'')
        = [''hi'', ''there'']"
proof -
  let ?mgr = "snd (room_manager_init True True)"
    and ?x = "\<lambda>c. (True, (\<lambda>_. None) :: int \<Rightarrow> tm option, ''alice'', c, 0::int)"
  have init: "room_manager_init True True = (CHAT_OK, ?mgr)"
    by (simp add: room_manager_init_def room_find_or_create_def room_manager_empty_def)
  have inv: "rooms_inv ?mgr" "mgr_log ?mgr = (\<lambda>_. [])"
    using room_manager_init_inv [OF init] by simp_all
  have nm: "room_name_ok ''dev''" by (simp add: room_name_ok_def)
  obtain sts mgr' where r: "history_add_all ?mgr ''dev'' [?x ''hi'', ?x ''there''] = (sts, mgr')"
    by (cases "history_add_all ?mgr ''dev'' [?x ''hi'', ?x ''there'']")
  have sts: "sts = [CHAT_OK, CHAT_OK]"
    using r by (auto simp: room_manager_init_def room_find_or_create_def room_manager_empty_def
        room_history_add_def new_room_def DEFAULT_ROOM_def)
  show ?thesis
    using room_history_keeps_last [OF inv(1) nm r] inv(2) r sts
    by (simp add: Let_def lastn_all history_entry_of_def)
qed

text \<open>
  Property C33. Sending a room's history: when the whole history, the entries separated by
  \<open>||\<close>, fits a line with \<open>HISTORY\<close>, exactly that line is sent and the client's status is the
  sender's; when it does not fit, nothing at all is sent, so that the last 100 messages
  reach a client only while their text has at most 2038 characters.
\<close>

theorem room_history_send_functional:
  "room_history_send_to_client mgr room send_fn net =
     (if length (history_text mgr room) \<le> 2038
      then send_fn (''HISTORY '' @ history_text mgr room @ [LF]) net
      else (CHAT_ERR, net))"
  by (auto simp: room_history_send_to_client_def room_history_format_printed printed_def
      protocol_build_server_history_def snprintf_line_def or_empty_def)

end
