(* ===== verification/Message_Queue.thy ===== *)
theory Message_Queue
  imports C_Base
begin

text \<open>
  \<open>src/common/message_queue.c\<close>: the queue between the client threads and the broadcaster, a
  singly linked list with a tail pointer, on an explicit heap. An address is a natural
  number; the allocator hands out \<open>mq_fresh\<close> and never reuses an address, so that a pointer
  to a freed node stays recognisable. Each operation runs under the queue's mutex and is
  one step. \<open>mq_pop\<close> waits on the condition variable while the queue is empty and open:
  that is \<open>Pop_Blocked\<close>. Following a pointer to a node that is not allocated is \<open>Pop_Fault\<close>.
\<close>

section \<open>Data\<close>

datatype mq_event_type = MQ_CHAT | MQ_JOIN | MQ_LEAVE | MQ_ROOM_JOIN | MQ_ROOM_LEAVE | MQ_SHUTDOWN

record mq_message =
  mm_type :: mq_event_type
  mm_username :: cbuf
  mm_room :: cbuf
  mm_content :: cbuf
  mm_timestamp :: int

record mq_node =
  mn_msg :: mq_message
  mn_next :: "nat option"

record message_queue =
  mq_heap :: "nat \<Rightarrow> mq_node option"
  mq_fresh :: nat
  mq_head :: "nat option"
  mq_tail :: "nat option"
  mq_count :: nat
  mq_shutdown :: bool

section \<open>Operations\<close>

text \<open>\<open>mq_init\<close>, given whether the mutex and the condition variable can be created.\<close>

definition mq_empty :: message_queue where
  "mq_empty = \<lparr>mq_heap = Map.empty, mq_fresh = 0, mq_head = None, mq_tail = None,
     mq_count = 0, mq_shutdown = False\<rparr>"

definition mq_init :: "bool \<Rightarrow> bool \<Rightarrow> chat_status \<times> message_queue" where
  "mq_init mutex_ok cond_ok =
     (if \<not> mutex_ok then (CHAT_ERR, mq_empty)
      else if \<not> cond_ok then (CHAT_ERR, mq_empty)
      else (CHAT_OK, mq_empty))"

text \<open>\<open>mq_push\<close>, given whether \<open>malloc\<close> finds memory for the node.\<close>

definition mq_push :: "bool \<Rightarrow> mq_message \<Rightarrow> message_queue \<Rightarrow> chat_status \<times> message_queue" where
  "mq_push mem_ok msg q =
     (if \<not> mem_ok then (CHAT_ERR_NOMEM, q)
      else
        let a = mq_fresh q;
            q1 = q\<lparr>mq_heap := (mq_heap q)(a \<mapsto> \<lparr>mn_msg = msg, mn_next = None\<rparr>), mq_fresh := Suc a\<rparr>
        in if mq_shutdown q1 then (CHAT_ERR, q1\<lparr>mq_heap := (mq_heap q1)(a := None)\<rparr>)
           else
             let q2 =
               (case mq_tail q1 of
                  None \<Rightarrow> q1\<lparr>mq_head := Some a, mq_tail := Some a\<rparr>
                | Some t \<Rightarrow>
                    q1\<lparr>mq_heap := (mq_heap q1)(t := map_option (mn_next_update (\<lambda>_. Some a)) (mq_heap q1 t)),
                       mq_tail := Some a\<rparr>)
             in (CHAT_OK, q2\<lparr>mq_count := mq_count q2 + 1\<rparr>))"

datatype pop_result =
    Pop_Blocked
  | Pop_Fault
  | Pop_Returns chat_status "mq_message option" message_queue

definition mq_pop :: "message_queue \<Rightarrow> pop_result" where
  "mq_pop q =
     (if mq_head q = None \<and> \<not> mq_shutdown q then Pop_Blocked
      else
        case mq_head q of
          None \<Rightarrow> Pop_Returns CHAT_ERR None q
        | Some a \<Rightarrow>
            (case mq_heap q a of
               None \<Rightarrow> Pop_Fault
             | Some node \<Rightarrow>
                 let q1 = q\<lparr>mq_head := mn_next node\<rparr>;
                     q2 = (if mq_head q1 = None then q1\<lparr>mq_tail := None\<rparr> else q1);
                     q3 = q2\<lparr>mq_count := mq_count q2 - 1\<rparr>
                 in Pop_Returns CHAT_OK (Some (mn_msg node)) (q3\<lparr>mq_heap := (mq_heap q3)(a := None)\<rparr>)))"

definition mq_signal_shutdown :: "message_queue \<Rightarrow> message_queue" where
  "mq_signal_shutdown q = q\<lparr>mq_shutdown := True\<rparr>"

text \<open>
  \<open>mq_free_nodes\<close> follows the list and frees each node. It is given as much fuel as the
  list may be long; \<^term>\<open>None\<close> is fuel that has run out or a pointer to a freed node.
\<close>

fun mq_free_nodes :: "nat \<Rightarrow> (nat \<Rightarrow> mq_node option) \<Rightarrow> nat option \<Rightarrow> (nat \<Rightarrow> mq_node option) option" where
  "mq_free_nodes _ h None = Some h"
| "mq_free_nodes 0 h (Some a) = None"
| "mq_free_nodes (Suc fuel) h (Some a) =
     (case h a of
        None \<Rightarrow> None
      | Some node \<Rightarrow> mq_free_nodes fuel (h(a := None)) (mn_next node))"

definition mq_destroy :: "message_queue \<Rightarrow> message_queue option" where
  "mq_destroy q =
     map_option (\<lambda>h. q\<lparr>mq_heap := h, mq_head := None, mq_tail := None, mq_count := 0\<rparr>)
       (mq_free_nodes (mq_count q) (mq_heap q) (mq_head q))"

section \<open>What the list holds\<close>

text \<open>The messages along the list, read by following \<open>mq_count\<close> pointers.\<close>

fun mq_walk :: "nat \<Rightarrow> (nat \<Rightarrow> mq_node option) \<Rightarrow> nat option \<Rightarrow> mq_message list" where
  "mq_walk (Suc n) h (Some a) =
     (case h a of None \<Rightarrow> [] | Some node \<Rightarrow> mn_msg node # mq_walk n h (mn_next node))"
| "mq_walk _ h _ = []"

definition mq_contents :: "message_queue \<Rightarrow> mq_message list" where
  "mq_contents q = mq_walk (mq_count q) (mq_heap q) (mq_head q)"

text \<open>\<open>chain h p as\<close>: the pointers from \<open>p\<close> on are \<open>as\<close>, all allocated, the last one NULL.\<close>

fun chain :: "(nat \<Rightarrow> mq_node option) \<Rightarrow> nat option \<Rightarrow> nat list \<Rightarrow> bool" where
  "chain h p [] \<longleftrightarrow> p = None"
| "chain h p (a # as) \<longleftrightarrow> p = Some a \<and> (\<exists>node. h a = Some node \<and> chain h (mn_next node) as)"

text \<open>
  The queue is well formed over the addresses \<open>as\<close>: they are distinct and exactly the
  allocated ones (nothing leaks), the tail points to the last of them and the count is
  their number.
\<close>

definition mq_over :: "message_queue \<Rightarrow> nat list \<Rightarrow> bool" where
  "mq_over q as \<longleftrightarrow> chain (mq_heap q) (mq_head q) as \<and> distinct as \<and> dom (mq_heap q) = set as \<and>
     mq_tail q = (if as = [] then None else Some (last as)) \<and> mq_count q = length as \<and>
     (\<forall>a \<in> set as. a < mq_fresh q)"

definition mq_inv :: "message_queue \<Rightarrow> bool" where
  "mq_inv q \<longleftrightarrow> (\<exists>as. mq_over q as)"

lemma chain_None: "chain h None as \<longleftrightarrow> as = []"
  by (cases as) auto

lemma chain_upd: "a \<notin> set as \<Longrightarrow> chain (h(a := v)) p as = chain h p as"
  by (induction as arbitrary: p) auto

lemma mq_walk_chain:
  "chain h p as \<Longrightarrow> mq_walk (length as) h p = map (\<lambda>a. mn_msg (the (h a))) as"
  by (induction as arbitrary: p) auto

lemma mq_contents_over:
  "mq_over q as \<Longrightarrow> mq_contents q = map (\<lambda>a. mn_msg (the (mq_heap q a))) as"
  by (simp add: mq_over_def mq_contents_def mq_walk_chain)

lemma chain_snoc:
  assumes "chain h p (as @ [t])" and "distinct (as @ [t])" and "a \<notin> set (as @ [t])"
  shows "chain (h(a \<mapsto> \<lparr>mn_msg = m, mn_next = None\<rparr>,
                t := map_option (mn_next_update (\<lambda>_. Some a)) (h t))) p (as @ [t, a])"
  using assms by (induction as arbitrary: p) auto

lemma map_upd_notin:
  "a \<notin> set as \<Longrightarrow> map (\<lambda>x. f ((h(a := v)) x)) as = map (\<lambda>x. f (h x)) as"
  by (induction as) auto

section \<open>Every operation keeps the list well formed\<close>

lemma mq_over_empty: "mq_over mq_empty []"
  by (simp add: mq_over_def mq_empty_def)

lemma mq_push_over:
  assumes q: "mq_over q as" and "\<not> mq_shutdown q"
  shows "\<exists>q'. mq_push True m q = (CHAT_OK, q') \<and> mq_over q' (as @ [mq_fresh q]) \<and>
           mq_contents q' = mq_contents q @ [m] \<and> mq_shutdown q' = mq_shutdown q"
proof (cases as rule: rev_cases)
  case Nil
  let ?q' = "snd (mq_push True m q)"
  have tail: "mq_tail q = None" and dom: "mq_heap q = Map.empty" and "mq_count q = 0"
    using q Nil by (auto simp: mq_over_def)
  then have "mq_over ?q' [mq_fresh q]"
    using assms Nil by (simp add: mq_over_def mq_push_def Let_def)
  moreover from this have "mq_contents ?q' = [m]"
    using assms(2) tail by (simp add: mq_contents_over) (simp add: mq_push_def Let_def)
  moreover have "mq_contents q = []"
    using q Nil by (simp add: mq_contents_over)
  ultimately show ?thesis
    using assms(2) Nil tail by (auto simp: mq_push_def Let_def)
next
  case (snoc bs t)
  let ?a = "mq_fresh q" and ?h = "mq_heap q"
  let ?h' = "?h(?a \<mapsto> \<lparr>mn_msg = m, mn_next = None\<rparr>,
                t := map_option (mn_next_update (\<lambda>_. Some ?a)) (?h t))"
  from q snoc have c: "chain ?h (mq_head q) (bs @ [t])" "distinct (bs @ [t])"
      "dom ?h = set (bs @ [t])" "mq_tail q = Some t" "mq_count q = length (bs @ [t])"
      "\<forall>x \<in> set (bs @ [t]). x < ?a"
    by (simp_all add: mq_over_def)
  then have fresh: "?a \<notin> set (bs @ [t])" and "?a \<noteq> t" by auto
  obtain nt where nt: "?h t = Some nt" using c(3) by auto
  obtain q' where push1: "mq_push True m q = (CHAT_OK, q')"
    using assms(2) by (simp add: mq_push_def Let_def)
  then have push2: "mq_heap q' = ?h'" "mq_head q' = mq_head q" "mq_tail q' = Some ?a"
      "mq_count q' = Suc (mq_count q)" "mq_fresh q' = Suc ?a" "mq_shutdown q' = mq_shutdown q"
    using assms(2) c(4) \<open>?a \<noteq> t\<close> by (auto simp: mq_push_def Let_def)
  note push = push1 push2
  have over: "mq_over q' (as @ [?a])"
    unfolding mq_over_def using push c fresh nt chain_snoc [OF c(1,2) fresh, of m] snoc
    by (auto simp: less_Suc_eq)
  have bs: "map (\<lambda>x. mn_msg (the (?h' x))) bs = map (\<lambda>x. mn_msg (the (?h x))) bs"
    using c(2) fresh by auto
  have "mq_contents q' = mq_contents q @ [m]"
    using mq_contents_over [OF over] mq_contents_over [OF q] push(2) nt \<open>?a \<noteq> t\<close> bs snoc by simp
  with over push show ?thesis by auto
qed

lemma mq_pop_over:
  assumes q: "mq_over q (a # as)"
  shows "\<exists>q'. mq_pop q = Pop_Returns CHAT_OK (Some (hd (mq_contents q))) q' \<and> mq_over q' as \<and>
           mq_contents q' = tl (mq_contents q) \<and> mq_shutdown q' = mq_shutdown q"
proof -
  from q obtain node where node: "mq_head q = Some a" "mq_heap q a = Some node"
      "chain (mq_heap q) (mn_next node) as"
    by (auto simp: mq_over_def)
  have a: "a \<notin> set as" using q by (simp add: mq_over_def)
  obtain q' where pop1: "mq_pop q = Pop_Returns CHAT_OK (Some (mn_msg node)) q'"
    using node by (simp add: mq_pop_def Let_def)
  then have pop2: "mq_heap q' = (mq_heap q)(a := None)" "mq_head q' = mn_next node"
      "mq_tail q' = (if mn_next node = None then None else mq_tail q)"
      "mq_count q' = mq_count q - 1" "mq_fresh q' = mq_fresh q" "mq_shutdown q' = mq_shutdown q"
    using node by (auto simp: mq_pop_def Let_def split: if_splits)
  note pop = pop1 pop2
  have "mn_next node = None \<longleftrightarrow> as = []"
    using node(3) by (cases as) auto
  then have over: "mq_over q' as"
    using q a pop node(3) by (auto simp: mq_over_def chain_upd)
  have "mq_contents q' = tl (mq_contents q)" "hd (mq_contents q) = mn_msg node"
    using mq_contents_over [OF over] mq_contents_over [OF q] pop(2) a node(2) by auto
  with over pop show ?thesis by auto
qed

lemma mq_free_chain:
  "chain h p as \<Longrightarrow> distinct as \<Longrightarrow> length as \<le> fuel \<Longrightarrow>
   mq_free_nodes fuel h p = Some (h |` (- set as))"
proof (induction as arbitrary: h p fuel)
  case Nil
  then show ?case by simp
next
  case (Cons a as)
  then obtain node fuel' where n: "p = Some a" "h a = Some node" "chain h (mn_next node) as"
      "fuel = Suc fuel'" "length as \<le> fuel'" "a \<notin> set as" "distinct as"
    by (cases fuel) auto
  then have "chain (h(a := None)) (mn_next node) as" by (simp add: chain_upd)
  then have "mq_free_nodes fuel' (h(a := None)) (mn_next node) = Some ((h(a := None)) |` (- set as))"
    using n Cons.IH by blast
  moreover have "(h(a := None)) |` (- set as) = h |` (- set (a # as))"
    by (auto simp: restrict_map_def)
  ultimately show ?case using n by simp
qed

section \<open>The contract of a queue\<close>

text \<open>
  The interface the client threads and the broadcaster use: \<open>contents\<close> is a list, a push
  appends to it unless the queue is closed, a pop takes its first element.
\<close>

locale fifo =
  fixes push :: "'m \<Rightarrow> 'q \<Rightarrow> chat_status \<times> 'q"
    and pop :: "'q \<Rightarrow> ('m \<times> 'q) option"
    and contents :: "'q \<Rightarrow> 'm list"
    and closed :: "'q \<Rightarrow> bool"
    and inv :: "'q \<Rightarrow> bool"
  assumes push_open: "inv q \<Longrightarrow> \<not> closed q \<Longrightarrow> push m q = (st, q') \<Longrightarrow>
      st = CHAT_OK \<and> contents q' = contents q @ [m] \<and> \<not> closed q' \<and> inv q'"
    and push_closed: "inv q \<Longrightarrow> closed q \<Longrightarrow> push m q = (st, q') \<Longrightarrow>
      st = CHAT_ERR \<and> contents q' = contents q \<and> closed q' \<and> inv q'"
    and pop_some: "inv q \<Longrightarrow> contents q = m # ms \<Longrightarrow>
      \<exists>q'. pop q = Some (m, q') \<and> contents q' = ms \<and> closed q' = closed q \<and> inv q'"
    and pop_none: "inv q \<Longrightarrow> contents q = [] \<Longrightarrow> pop q = None"
begin

fun push_all :: "'m list \<Rightarrow> 'q \<Rightarrow> 'q" where
  "push_all [] q = q"
| "push_all (m # ms) q = push_all ms (snd (push m q))"

fun pop_many :: "nat \<Rightarrow> 'q \<Rightarrow> 'm list \<times> 'q" where
  "pop_many 0 q = ([], q)"
| "pop_many (Suc n) q =
     (case pop q of
        None \<Rightarrow> ([], q)
      | Some (m, q') \<Rightarrow> (let (ms, q'') = pop_many n q' in (m # ms, q'')))"

lemma push_all_contents:
  "inv q \<Longrightarrow> \<not> closed q \<Longrightarrow>
   contents (push_all ms q) = contents q @ ms \<and> inv (push_all ms q) \<and> \<not> closed (push_all ms q)"
proof (induction ms arbitrary: q)
  case Nil
  then show ?case by simp
next
  case (Cons m ms)
  obtain st q' where "push m q = (st, q')" by (cases "push m q") auto
  with push_open [OF Cons.prems this] Cons.IH [of q'] show ?case by simp
qed

lemma pop_many_contents:
  "inv q \<Longrightarrow> fst (pop_many n q) = take n (contents q) \<and>
     contents (snd (pop_many n q)) = drop n (contents q) \<and> inv (snd (pop_many n q))"
proof (induction n arbitrary: q)
  case 0
  then show ?case by simp
next
  case (Suc n)
  show ?case
  proof (cases "contents q")
    case Nil
    with Suc.prems show ?thesis by (simp add: pop_none)
  next
    case (Cons m ms)
    then obtain q' where q': "pop q = Some (m, q')" "contents q' = ms" "inv q'"
      using pop_some [OF Suc.prems] by blast
    then show ?thesis
      using Suc.IH [OF q'(3)] Cons by (auto split: prod.splits)
  qed
qed

text \<open>What goes in comes out, in order, behind what was there before.\<close>

lemma fifo_order:
  assumes "inv q" and "\<not> closed q"
  shows "fst (pop_many (length (contents q @ ms)) (push_all ms q)) = contents q @ ms"
  using push_all_contents [OF assms, of ms]
    pop_many_contents [of "push_all ms q" "length (contents q @ ms)"] by simp

lemma closed_push_all:
  "inv q \<Longrightarrow> closed q \<Longrightarrow> contents (push_all ms q) = contents q"
proof (induction ms arbitrary: q)
  case Nil
  then show ?case by simp
next
  case (Cons m ms)
  obtain st q' where p: "push m q = (st, q')" by (cases "push m q") auto
  with push_closed [OF Cons.prems p] Cons.IH [of q'] show ?case by simp
qed

end

text \<open>A pop that returns a message, as the interface sees it.\<close>

definition mq_take :: "message_queue \<Rightarrow> (mq_message \<times> message_queue) option" where
  "mq_take q = (case mq_pop q of Pop_Returns CHAT_OK (Some m) q' \<Rightarrow> Some (m, q') | _ \<Rightarrow> None)"

lemma mq_push_closed:
  assumes "mq_over q as" and "mq_shutdown q"
  shows "\<exists>q'. mq_push True m q = (CHAT_ERR, q') \<and> mq_over q' as \<and> mq_contents q' = mq_contents q \<and>
           mq_shutdown q'"
proof -
  have "mq_fresh q \<notin> dom (mq_heap q)"
    using assms(1) by (auto simp: mq_over_def)
  then have heap: "(mq_heap q)(mq_fresh q := None) = mq_heap q"
    by (auto simp: fun_upd_idem domIff)
  then show ?thesis
    using assms by (auto simp: mq_push_def mq_over_def mq_contents_def less_SucI)
qed

interpretation mq: fifo "mq_push True" mq_take mq_contents mq_shutdown mq_inv
proof
  fix q m st q'
  assume "mq_inv q" "\<not> mq_shutdown q" "mq_push True m q = (st, q')"
  then show "st = CHAT_OK \<and> mq_contents q' = mq_contents q @ [m] \<and> \<not> mq_shutdown q' \<and> mq_inv q'"
    using mq_push_over [of q _ m] by (fastforce simp: mq_inv_def)
next
  fix q m st q'
  assume "mq_inv q" "mq_shutdown q" "mq_push True m q = (st, q')"
  then show "st = CHAT_ERR \<and> mq_contents q' = mq_contents q \<and> mq_shutdown q' \<and> mq_inv q'"
    using mq_push_closed [of q _ m] by (fastforce simp: mq_inv_def)
next
  fix q m ms
  assume "mq_inv q" and c: "mq_contents q = m # ms"
  then obtain as where as: "mq_over q as" by (auto simp: mq_inv_def)
  with c obtain a bs where "as = a # bs"
    by (cases as) (auto simp: mq_contents_over)
  with mq_pop_over [of q a bs] as c
  show "\<exists>q'. mq_take q = Some (m, q') \<and> mq_contents q' = ms \<and> mq_shutdown q' = mq_shutdown q \<and> mq_inv q'"
    by (auto simp: mq_take_def mq_inv_def)
next
  fix q
  assume "mq_inv q" and c: "mq_contents q = []"
  then obtain as where as: "mq_over q as" by (auto simp: mq_inv_def)
  with c have "as = []" by (simp add: mq_contents_over)
  with as have "mq_head q = None" by (simp add: mq_over_def)
  then show "mq_take q = None" by (simp add: mq_take_def mq_pop_def)
qed

section \<open>The specification the queue implements\<close>

datatype mq_op = Op_Push bool mq_message | Op_Pop | Op_Shutdown

datatype mq_out = Out_Status chat_status | Out_Msg mq_message | Out_Wait | Out_Fault

fun mq_op_step :: "mq_op \<Rightarrow> message_queue \<Rightarrow> mq_out \<times> message_queue" where
  "mq_op_step (Op_Push mem_ok m) q = (let (st, q') = mq_push mem_ok m q in (Out_Status st, q'))"
| "mq_op_step Op_Pop q =
     (case mq_pop q of
        Pop_Blocked \<Rightarrow> (Out_Wait, q)
      | Pop_Fault \<Rightarrow> (Out_Fault, q)
      | Pop_Returns st None q' \<Rightarrow> (Out_Status st, q')
      | Pop_Returns st (Some m) q' \<Rightarrow> (Out_Msg m, q'))"
| "mq_op_step Op_Shutdown q = (Out_Status CHAT_OK, mq_signal_shutdown q)"

text \<open>The same operations on a list of messages and a flag.\<close>

fun fifo_step :: "mq_op \<Rightarrow> mq_message list \<times> bool \<Rightarrow> mq_out \<times> mq_message list \<times> bool" where
  "fifo_step (Op_Push mem_ok m) (ms, closed) =
     (if \<not> mem_ok then (Out_Status CHAT_ERR_NOMEM, ms, closed)
      else if closed then (Out_Status CHAT_ERR, ms, closed)
      else (Out_Status CHAT_OK, ms @ [m], closed))"
| "fifo_step Op_Pop ([], closed) = ((if closed then Out_Status CHAT_ERR else Out_Wait), [], closed)"
| "fifo_step Op_Pop (m # ms, closed) = (Out_Msg m, ms, closed)"
| "fifo_step Op_Shutdown (ms, closed) = (Out_Status CHAT_OK, ms, True)"

fun mq_run :: "mq_op list \<Rightarrow> message_queue \<Rightarrow> mq_out list \<times> message_queue" where
  "mq_run [] q = ([], q)"
| "mq_run (x # xs) q =
     (let (out, q') = mq_op_step x q; (outs, q'') = mq_run xs q' in (out # outs, q''))"

fun fifo_run :: "mq_op list \<Rightarrow> mq_message list \<times> bool \<Rightarrow> mq_out list \<times> mq_message list \<times> bool" where
  "fifo_run [] s = ([], s)"
| "fifo_run (x # xs) s =
     (let (out, s') = fifo_step x s; (outs, s'') = fifo_run xs s' in (out # outs, s''))"

definition mq_abs :: "message_queue \<Rightarrow> mq_message list \<times> bool" where
  "mq_abs q = (mq_contents q, mq_shutdown q)"

lemma mq_signal_shutdown_inv:
  "mq_inv q \<Longrightarrow> mq_inv (mq_signal_shutdown q) \<and> mq_contents (mq_signal_shutdown q) = mq_contents q \<and>
     mq_shutdown (mq_signal_shutdown q)"
  by (auto simp: mq_inv_def mq_over_def mq_signal_shutdown_def mq_contents_def)

lemma mq_pop_empty:
  assumes "mq_inv q" and "mq_contents q = []"
  shows "mq_pop q = (if mq_shutdown q then Pop_Returns CHAT_ERR None q else Pop_Blocked)"
proof -
  obtain as where as: "mq_over q as" using assms(1) by (auto simp: mq_inv_def)
  with assms(2) have "mq_head q = None" by (auto simp: mq_contents_over mq_over_def)
  then show ?thesis by (simp add: mq_pop_def)
qed

lemma mq_pop_Cons:
  assumes "mq_inv q" and "mq_contents q = m # ms"
  shows "\<exists>q'. mq_pop q = Pop_Returns CHAT_OK (Some m) q' \<and> mq_inv q' \<and>
           mq_abs q' = (ms, mq_shutdown q)"
proof -
  obtain as where as: "mq_over q as" using assms(1) by (auto simp: mq_inv_def)
  with assms(2) obtain a bs where "as = a # bs"
    by (cases as) (auto simp: mq_contents_over)
  with mq_pop_over [of q a bs] as assms(2) show ?thesis
    by (auto simp: mq_inv_def mq_abs_def)
qed

lemma mq_step_refines:
  assumes "mq_inv q"
  shows "mq_inv (snd (mq_op_step x q)) \<and>
         fifo_step x (mq_abs q) = (fst (mq_op_step x q), mq_abs (snd (mq_op_step x q)))"
proof (cases x)
  case (Op_Push mem_ok m)
  obtain st q' where p: "mq_push True m q = (st, q')" by (cases "mq_push True m q") auto
  show ?thesis
  proof (cases mem_ok)
    case False
    then show ?thesis using assms Op_Push by (simp add: mq_push_def mq_abs_def)
  next
    case True
    then show ?thesis
      using mq.push_open [OF assms _ p] mq.push_closed [OF assms _ p] Op_Push p
      by (cases "mq_shutdown q") (simp_all add: mq_abs_def)
  qed
next
  case Op_Pop
  show ?thesis
  proof (cases "mq_contents q")
    case Nil
    then show ?thesis using mq_pop_empty [OF assms] assms Op_Pop by (simp add: mq_abs_def)
  next
    case (Cons m ms)
    then show ?thesis using mq_pop_Cons [OF assms] Op_Pop by (fastforce simp: mq_abs_def)
  qed
next
  case Op_Shutdown
  then show ?thesis using mq_signal_shutdown_inv [OF assms] by (simp add: mq_abs_def)
qed

lemma mq_run_refines:
  "mq_inv q \<Longrightarrow> mq_inv (snd (mq_run xs q)) \<and>
     fifo_run xs (mq_abs q) = (fst (mq_run xs q), mq_abs (snd (mq_run xs q)))"
proof (induction xs arbitrary: q)
  case Nil
  then show ?case by simp
next
  case (Cons x xs)
  obtain out q' where s: "mq_op_step x q = (out, q')" by (cases "mq_op_step x q") auto
  with mq_step_refines [OF Cons.prems, of x] have q': "mq_inv q'"
      "fifo_step x (mq_abs q) = (out, mq_abs q')"
    by simp_all
  show ?case using Cons.IH [OF q'(1)] q'(2) s by (auto split: prod.splits)
qed

lemma mq_inv_empty: "mq_inv mq_empty"
  using mq_over_empty by (auto simp: mq_inv_def)

lemma mq_destroy_spec:
  assumes "mq_inv q"
  shows "\<exists>q'. mq_destroy q = Some q' \<and> mq_heap q' = Map.empty \<and> mq_contents q' = [] \<and> mq_inv q'"
proof -
  obtain as where as: "mq_over q as" using assms by (auto simp: mq_inv_def)
  then have "mq_free_nodes (mq_count q) (mq_heap q) (mq_head q) = Some (mq_heap q |` (- set as))"
    by (intro mq_free_chain) (auto simp: mq_over_def)
  moreover have "mq_heap q |` (- set as) = Map.empty"
    using as by (auto simp: mq_over_def restrict_map_def fun_eq_iff dom_def)
  ultimately show ?thesis
    by (auto simp: mq_destroy_def mq_contents_def mq_inv_def mq_over_def intro!: exI [of _ "[]"])
qed

section \<open>Properties\<close>

text \<open>
  Property C4. The linked list with its head, tail and count is a bounded-by-memory FIFO
  queue: whatever sequence of pushes, pops and the shutdown signal it goes through from a
  well-formed state, each operation returns what the same operation returns on a plain list
  with a closed flag, no operation follows a dangling pointer, and the list stays well
  formed.
\<close>

theorem mq_refines_fifo:
  assumes "mq_inv q"
  shows "fifo_run xs (mq_abs q) = (fst (mq_run xs q), mq_abs (snd (mq_run xs q)))
         \<and> mq_inv (snd (mq_run xs q)) \<and> Out_Fault \<notin> set (fst (mq_run xs q))"
proof -
  have "Out_Fault \<notin> set (fst (fifo_run xs s))" for s
  proof (induction xs arbitrary: s)
    case Nil
    then show ?case by simp
  next
    case (Cons x xs)
    have "fst (fifo_step x s) \<noteq> Out_Fault"
      by (induction x s rule: fifo_step.induct) auto
    with Cons show ?case by (auto split: prod.splits) (metis fst_conv)
  qed
  then show ?thesis
    using mq_run_refines [OF assms, of xs] by (metis fst_conv)
qed

definition sample_msg :: "string \<Rightarrow> mq_message" where
  "sample_msg s = \<lparr>mm_type = MQ_CHAT, mm_username = ''alice'' @ [NUL], mm_room = ''lobby'' @ [NUL],
     mm_content = s @ [NUL], mm_timestamp = 0\<rparr>"

theorem mq_refines_fifo_witness:
  "let xs = [Op_Push True (sample_msg ''a''), Op_Push True (sample_msg ''b''), Op_Pop, Op_Shutdown,
             Op_Push True (sample_msg ''c''), Op_Pop, Op_Pop]
   in fst (mq_run xs mq_empty) =
        [Out_Status CHAT_OK, Out_Status CHAT_OK, Out_Msg (sample_msg ''a''), Out_Status CHAT_OK,
         Out_Status CHAT_ERR, Out_Msg (sample_msg ''b''), Out_Status CHAT_ERR]
      \<and> mq_inv (snd (mq_run xs mq_empty))"
proof -
  let ?xs = "[Op_Push True (sample_msg ''a''), Op_Push True (sample_msg ''b''), Op_Pop, Op_Shutdown,
             Op_Push True (sample_msg ''c''), Op_Pop, Op_Pop]"
  have "fst (fifo_run ?xs (mq_abs mq_empty)) =
        [Out_Status CHAT_OK, Out_Status CHAT_OK, Out_Msg (sample_msg ''a''), Out_Status CHAT_OK,
         Out_Status CHAT_ERR, Out_Msg (sample_msg ''b''), Out_Status CHAT_ERR]"
    by (simp add: mq_abs_def mq_contents_def mq_empty_def)
  then show ?thesis
    using mq_refines_fifo [OF mq_inv_empty, of ?xs] by simp
qed

text \<open>
  Destroying a well-formed queue returns, frees every node once and leaves no
  node allocated.
\<close>

theorem mq_destroy_frees_all:
  assumes "mq_inv q"
  shows "\<exists>q'. mq_destroy q = Some q' \<and> mq_heap q' = Map.empty \<and> mq_contents q' = [] \<and> mq_inv q'"
  using assms by (rule mq_destroy_spec)

theorem mq_destroy_frees_all_witness:
  "let q = snd (mq_push True (sample_msg ''a'') mq_empty)
   in mq_heap q \<noteq> Map.empty \<and> (\<exists>q'. mq_destroy q = Some q' \<and> mq_heap q' = Map.empty)"
proof -
  let ?q = "snd (mq_push True (sample_msg ''a'') mq_empty)"
  have inv: "mq_inv ?q"
    using mq_run_refines [OF mq_inv_empty, of "[Op_Push True (sample_msg ''a'')]"]
    by (simp add: split_beta Let_def)
  have "mq_heap ?q 0 \<noteq> None" by (simp add: mq_push_def mq_empty_def Let_def)
  then have "mq_heap ?q \<noteq> Map.empty" by auto
  then show ?thesis using mq_destroy_frees_all [OF inv] by (auto simp: Let_def)
qed

end
