(* ===== verification/Wire_Codec.thy ===== *)
theory Wire_Codec
  imports Protocol
begin

text \<open>
  What the builders and the parsers of \<open>protocol.c\<close> promise each other. A \<open>client_msg\<close> or
  \<open>server_msg\<close> names one call of a builder; \<open>client_view\<close> and \<open>server_view\<close> are the structures
  the peer's parser must produce for it. The locale \<open>line_codec\<close> is the contract, proved for
  both directions; \<open>wire\<close> joins it with the sending and receiving loops.
\<close>

section \<open>Well-formed fields\<close>

definition token :: "nat \<Rightarrow> string \<Rightarrow> bool" where
  "token n s \<longleftrightarrow> s \<noteq> [] \<and> length s < n \<and> SP \<notin> set s \<and> line_text s"

definition text_field :: "nat \<Rightarrow> string \<Rightarrow> bool" where
  "text_field n s \<longleftrightarrow> s \<noteq> [] \<and> length s < n \<and> line_text s"

lemma token_text_field: "token n s \<Longrightarrow> text_field n s"
  by (simp add: token_def text_field_def)

lemma token_line_text [cstr]: "token n s \<Longrightarrow> line_text s"
  by (simp add: token_def)

lemma text_field_line_text [cstr]: "text_field n s \<Longrightarrow> line_text s"
  by (simp add: text_field_def)

lemma ts_ok_token [cstr]: "ts_ok s \<Longrightarrow> token TIMESTAMP_LEN s"
  by (auto simp: ts_ok_def token_def line_text_def)

lemma split_first_token_word:
  "SP \<notin> set w \<Longrightarrow> length w < n \<Longrightarrow> split_first_token (w @ SP # r) n = Inr (w, r)"
  by (simp add: split_first_token_def strchr_append)

lemma split_first_token_single:
  "SP \<notin> set w \<Longrightarrow> length w < n \<Longrightarrow> split_first_token w n = Inr (w, [])"
  by (simp add: split_first_token_def strchr_notin)

lemma parse_two_tokens_ok [wire_simps]:
  "token na a \<Longrightarrow> text_field nb b \<Longrightarrow> parse_two_tokens (a @ SP # b) x na y nb = (CHAT_OK, a, b)"
  by (auto simp: parse_two_tokens_def token_def text_field_def strchr_append not_le)

lemma parse_two_fields_ok [wire_simps]:
  "token na a \<Longrightarrow> text_field nb b \<Longrightarrow> parse_two_fields (a @ SP # b) na nb = (CHAT_OK, a, b)"
  by (auto simp: parse_two_fields_def token_def text_field_def strchr_append not_le)

lemma parse_three_fields_ok [wire_simps]:
  "token na a \<Longrightarrow> token nb b \<Longrightarrow> text_field nc c \<Longrightarrow>
   parse_three_fields_msg (a @ SP # b @ SP # c) na nb nc = (CHAT_OK, a, b, c)"
  by (auto simp: parse_three_fields_msg_def token_def text_field_def strchr_append not_le)

lemma parse_four_fields_ok [wire_simps]:
  "token na a \<Longrightarrow> token nb b \<Longrightarrow> token nc c \<Longrightarrow> text_field nd d \<Longrightarrow>
   parse_four_fields_rest_msg (a @ SP # b @ SP # c @ SP # d) na nb nc nd = (CHAT_OK, a, b, c, d)"
  by (auto simp: parse_four_fields_rest_msg_def token_def text_field_def strchr_append not_le)

section \<open>The contract of a line codec\<close>

locale line_codec =
  fixes build :: "'m \<Rightarrow> nat \<Rightarrow> chat_status \<times> string"
    and parse :: "string \<Rightarrow> chat_status \<times> 'p"
    and ok :: "'m \<Rightarrow> bool"
    and view :: "'m \<Rightarrow> 'p"
  assumes build_ok: "ok m \<Longrightarrow> \<exists>t. build m MAX_LINE_LEN = (CHAT_OK, t @ [LF]) \<and> line_text t \<and>
      length t + 2 \<le> MAX_LINE_LEN \<and> parse t = (CHAT_OK, view m)"
begin

lemma built_line:
  assumes "ok m"
  obtains t where "snd (build m MAX_LINE_LEN) = t @ [LF]" "line_text t"
    "length t + 2 \<le> MAX_LINE_LEN" "parse t = (CHAT_OK, view m)"
  using build_ok [OF assms] by auto

lemma roundtrip:
  "ok m \<Longrightarrow> fst (build m MAX_LINE_LEN) = CHAT_OK \<and>
     parse (trim_newline (snd (build m MAX_LINE_LEN))) = (CHAT_OK, view m)"
  using build_ok [of m] by (auto simp: trim_newline_line)

text \<open>No two messages with different meanings share a line.\<close>

lemma unambiguous:
  assumes "ok m" "ok m'" "snd (build m MAX_LINE_LEN) = snd (build m' MAX_LINE_LEN)"
  shows "view m = view m'"
  using roundtrip [OF assms(1)] roundtrip [OF assms(2)] assms(3) by simp

end

text \<open>
  A codec between a sending and a receiving loop: a message whose sending succeeds is what
  the other side parses, whatever the kernel did to the writes in between.
\<close>

locale wire = line_codec + full_sender + line_receiver
begin

lemma transport:
  assumes m: "ok m" and buf: "length buf = MAX_LINE_LEN"
    and sent: "send_string ks (snd (build m MAX_LINE_LEN)) = (CHAT_OK, out, ks')"
  shows "\<exists>b. rcv (map Byte out @ rs) buf MAX_LINE_LEN = Some (CHAT_OK, b, rs) \<and>
           parse (c_str b) = (CHAT_OK, view m)"
proof -
  obtain t where t: "snd (build m MAX_LINE_LEN) = t @ [LF]" "line_text t"
      "length t + 2 \<le> MAX_LINE_LEN" "parse t = (CHAT_OK, view m)"
    using m by (rule built_line)
  have out: "out = t @ [LF]" using sent t(1) by (simp add: send_string_ok)
  obtain b where "rcv (map Byte t @ Byte LF # rs) buf MAX_LINE_LEN = Some (CHAT_OK, b, rs)"
      "c_str b = trim_newline t"
    using rcv_line [OF buf _ _ t(3), of rs] t(2)
    by (auto simp: line_text_c_string line_text_no_LF)
  with t out show ?thesis by (auto simp: trim_newline_text)
qed

end

section \<open>Client to server\<close>

datatype client_msg =
    Auth string string | Join_Room string | Msg string | Pm string string | List_Users | History
  | Kick string | Quit

fun build_client :: "client_msg \<Rightarrow> nat \<Rightarrow> chat_status \<times> string" where
  "build_client (Auth u p) n = protocol_build_client_auth n u p"
| "build_client (Join_Room r) n = protocol_build_client_join_room n r"
| "build_client (Msg m) n = protocol_build_client_msg n m"
| "build_client (Pm t m) n = protocol_build_client_pm n t m"
| "build_client List_Users n = protocol_build_client_list n"
| "build_client History n = protocol_build_client_history n"
| "build_client (Kick u) n = protocol_build_client_kick n u"
| "build_client Quit n = protocol_build_client_quit n"

fun client_ok :: "client_msg \<Rightarrow> bool" where
  "client_ok (Auth u p) \<longleftrightarrow> token MAX_USERNAME_LEN u \<and> text_field MAX_MSG_LEN p"
| "client_ok (Join_Room r) \<longleftrightarrow> text_field MAX_ROOM_NAME_LEN r"
| "client_ok (Msg m) \<longleftrightarrow> text_field MAX_MSG_LEN m"
| "client_ok (Pm t m) \<longleftrightarrow> token MAX_USERNAME_LEN t \<and> text_field MAX_MSG_LEN m"
| "client_ok List_Users \<longleftrightarrow> True"
| "client_ok History \<longleftrightarrow> True"
| "client_ok (Kick u) \<longleftrightarrow> text_field MAX_USERNAME_LEN u"
| "client_ok Quit \<longleftrightarrow> True"

fun client_view :: "client_msg \<Rightarrow> parsed_cmd" where
  "client_view (Auth u p) = \<lparr>pc_cmd = CMD_AUTH, pc_arg1 = u, pc_arg2 = p\<rparr>"
| "client_view (Join_Room r) = \<lparr>pc_cmd = CMD_JOIN_ROOM, pc_arg1 = r, pc_arg2 = []\<rparr>"
| "client_view (Msg m) = \<lparr>pc_cmd = CMD_MSG, pc_arg1 = [], pc_arg2 = m\<rparr>"
| "client_view (Pm t m) = \<lparr>pc_cmd = CMD_PM, pc_arg1 = t, pc_arg2 = m\<rparr>"
| "client_view List_Users = \<lparr>pc_cmd = CMD_LIST, pc_arg1 = [], pc_arg2 = []\<rparr>"
| "client_view History = \<lparr>pc_cmd = CMD_HISTORY, pc_arg1 = [], pc_arg2 = []\<rparr>"
| "client_view (Kick u) = \<lparr>pc_cmd = CMD_KICK, pc_arg1 = u, pc_arg2 = []\<rparr>"
| "client_view Quit = \<lparr>pc_cmd = CMD_QUIT, pc_arg1 = [], pc_arg2 = []\<rparr>"

lemmas client_builder_defs =
  protocol_build_client_auth_def protocol_build_client_join_room_def protocol_build_client_msg_def
  protocol_build_client_pm_def protocol_build_client_list_def protocol_build_client_history_def
  protocol_build_client_kick_def protocol_build_client_quit_def

text \<open>The line a message stands for, without its terminator.\<close>

fun client_line :: "client_msg \<Rightarrow> string" where
  "client_line (Auth u p) = ''AUTH'' @ SP # u @ SP # p"
| "client_line (Join_Room r) = ''JOIN_ROOM'' @ SP # r"
| "client_line (Msg m) = ''MSG'' @ SP # m"
| "client_line (Pm t m) = ''PM'' @ SP # t @ SP # m"
| "client_line List_Users = ''LIST''"
| "client_line History = ''HISTORY''"
| "client_line (Kick u) = ''KICK'' @ SP # u"
| "client_line Quit = ''QUIT''"

lemma client_line_text: "client_ok m \<Longrightarrow> line_text (client_line m) \<and> length (client_line m) + 2 \<le> 2048"
  by (cases m) (auto simp: token_def text_field_def)

lemma build_client_line:
  "length (client_line m) + 2 \<le> n \<Longrightarrow> build_client m n = (CHAT_OK, client_line m @ [LF])"
  by (cases m) (simp_all add: client_builder_defs snprintf_line_fits)

lemmas split_first_token_cases =
  split_first_token_word [of "''AUTH''"] split_first_token_word [of "''JOIN_ROOM''"]
  split_first_token_word [of "''MSG''"] split_first_token_word [of "''PM''"]
  split_first_token_word [of "''KICK''"] split_first_token_single [of "''LIST''"]
  split_first_token_single [of "''HISTORY''"] split_first_token_single [of "''QUIT''"]

lemma parse_client_line: "client_ok m \<Longrightarrow> protocol_parse_client_line (client_line m) = (CHAT_OK, client_view m)"
  by (cases m)
    (simp_all add: protocol_parse_client_line_def CMD_BUF_LEN_def split_first_token_cases [simplified]
      parse_two_tokens_ok text_field_def empty_cmd_def not_le)

interpretation client_codec: line_codec build_client protocol_parse_client_line client_ok client_view
proof
  fix m
  assume "client_ok m"
  then show "\<exists>t. build_client m MAX_LINE_LEN = (CHAT_OK, t @ [LF]) \<and> line_text t \<and>
      length t + 2 \<le> MAX_LINE_LEN \<and> protocol_parse_client_line t = (CHAT_OK, client_view m)"
    using client_line_text [of m] by (auto simp: build_client_line parse_client_line)
qed

section \<open>Server to client\<close>

datatype server_msg =
    S_Ok string | S_Err string | S_Welcome string
  | S_Broadcast string string string string
  | S_Pm string string string
  | S_User_Join string string | S_User_Left string string
  | S_Room_Joined string | S_History string | S_Kicked string | S_List string

fun build_server :: "server_msg \<Rightarrow> nat \<Rightarrow> chat_status \<times> string" where
  "build_server (S_Ok s) n = protocol_build_server_ok n (Some s)"
| "build_server (S_Err s) n = protocol_build_server_err n (Some s)"
| "build_server (S_Welcome u) n = protocol_build_server_welcome n u"
| "build_server (S_Broadcast u ts r m) n = protocol_build_server_broadcast n u ts r m"
| "build_server (S_Pm f ts m) n = protocol_build_server_pm n f ts m"
| "build_server (S_User_Join u r) n = protocol_build_server_user_join n u r"
| "build_server (S_User_Left u r) n = protocol_build_server_user_left n u r"
| "build_server (S_Room_Joined r) n = protocol_build_server_room_joined n r"
| "build_server (S_History p) n = protocol_build_server_history n (Some p)"
| "build_server (S_Kicked s) n = protocol_build_server_kicked n (Some s)"
| "build_server (S_List l) n = protocol_build_server_list n (Some l)"

definition short_text :: "nat \<Rightarrow> string \<Rightarrow> bool" where
  "short_text n s \<longleftrightarrow> length s < n \<and> line_text s"

fun server_ok :: "server_msg \<Rightarrow> bool" where
  "server_ok (S_Ok s) \<longleftrightarrow> short_text MAX_MSG_LEN s"
| "server_ok (S_Err s) \<longleftrightarrow> short_text MAX_MSG_LEN s"
| "server_ok (S_Welcome u) \<longleftrightarrow> short_text MAX_USERNAME_LEN u"
| "server_ok (S_Broadcast u ts r m) \<longleftrightarrow> token MAX_USERNAME_LEN u \<and> token TIMESTAMP_LEN ts \<and>
     token MAX_ROOM_NAME_LEN r \<and> text_field MAX_MSG_LEN m"
| "server_ok (S_Pm f ts m) \<longleftrightarrow> token MAX_USERNAME_LEN f \<and> token TIMESTAMP_LEN ts \<and> text_field MAX_MSG_LEN m"
| "server_ok (S_User_Join u r) \<longleftrightarrow> token MAX_USERNAME_LEN u \<and> text_field MAX_ROOM_NAME_LEN r"
| "server_ok (S_User_Left u r) \<longleftrightarrow> token MAX_USERNAME_LEN u \<and> text_field MAX_ROOM_NAME_LEN r"
| "server_ok (S_Room_Joined r) \<longleftrightarrow> short_text MAX_ROOM_NAME_LEN r"
| "server_ok (S_History p) \<longleftrightarrow> short_text (MAX_LINE_LEN - 9) p"
| "server_ok (S_Kicked s) \<longleftrightarrow> short_text MAX_MSG_LEN s"
| "server_ok (S_List l) \<longleftrightarrow> short_text MAX_MSG_LEN l"

fun server_view :: "server_msg \<Rightarrow> parsed_resp" where
  "server_view (S_Ok s) = empty_resp\<lparr>pr_type := RESP_OK, pr_message := s\<rparr>"
| "server_view (S_Err s) = empty_resp\<lparr>pr_type := RESP_ERR, pr_message := s\<rparr>"
| "server_view (S_Welcome u) = empty_resp\<lparr>pr_type := RESP_WELCOME, pr_username := u\<rparr>"
| "server_view (S_Broadcast u ts r m) = empty_resp\<lparr>pr_type := RESP_BROADCAST, pr_username := u,
     pr_timestamp := ts, pr_room := r, pr_message := m\<rparr>"
| "server_view (S_Pm f ts m) = empty_resp\<lparr>pr_type := RESP_PM, pr_from_user := f,
     pr_timestamp := ts, pr_message := m\<rparr>"
| "server_view (S_User_Join u r) = empty_resp\<lparr>pr_type := RESP_USER_JOIN, pr_username := u, pr_room := r\<rparr>"
| "server_view (S_User_Left u r) = empty_resp\<lparr>pr_type := RESP_USER_LEFT, pr_username := u, pr_room := r\<rparr>"
| "server_view (S_Room_Joined r) = empty_resp\<lparr>pr_type := RESP_ROOM_JOINED, pr_room := r\<rparr>"
| "server_view (S_History p) = empty_resp\<lparr>pr_type := RESP_HISTORY, pr_history_payload := p\<rparr>"
| "server_view (S_Kicked s) = empty_resp\<lparr>pr_type := RESP_KICKED, pr_message := s\<rparr>"
| "server_view (S_List l) = empty_resp\<lparr>pr_type := RESP_LIST, pr_user_list := l\<rparr>"

fun server_line :: "server_msg \<Rightarrow> string" where
  "server_line (S_Ok s) = ''OK'' @ SP # s"
| "server_line (S_Err s) = ''ERR'' @ SP # s"
| "server_line (S_Welcome u) = ''WELCOME'' @ SP # u"
| "server_line (S_Broadcast u ts r m) = ''BROADCAST'' @ SP # u @ SP # ts @ SP # r @ SP # m"
| "server_line (S_Pm f ts m) = ''PM'' @ SP # f @ SP # ts @ SP # m"
| "server_line (S_User_Join u r) = ''USER_JOIN'' @ SP # u @ SP # r"
| "server_line (S_User_Left u r) = ''USER_LEFT'' @ SP # u @ SP # r"
| "server_line (S_Room_Joined r) = ''ROOM_JOINED'' @ SP # r"
| "server_line (S_History p) = ''HISTORY'' @ SP # p"
| "server_line (S_Kicked s) = ''KICKED'' @ SP # s"
| "server_line (S_List l) = ''LIST'' @ SP # l"

lemmas server_builder_defs =
  protocol_build_server_ok_def protocol_build_server_err_def protocol_build_server_welcome_def
  protocol_build_server_broadcast_def protocol_build_server_pm_def
  protocol_build_server_user_join_def protocol_build_server_user_left_def
  protocol_build_server_room_joined_def protocol_build_server_history_def
  protocol_build_server_kicked_def protocol_build_server_list_def or_empty_def

lemma server_line_text: "server_ok m \<Longrightarrow> line_text (server_line m) \<and> length (server_line m) + 2 \<le> 2048"
  by (cases m) (auto simp: token_def text_field_def short_text_def)

lemma build_server_line:
  "length (server_line m) + 2 \<le> n \<Longrightarrow> build_server m n = (CHAT_OK, server_line m @ [LF])"
  by (cases m) (simp_all add: server_builder_defs snprintf_line_fits)

text \<open>A line that fits the parser's work array is not cut.\<close>

lemma server_work_line:
  "line_text t \<Longrightarrow> length t + 2 \<le> MAX_LINE_LEN \<Longrightarrow> trim_newline (take (MAX_LINE_LEN - 1) t) = t"
  by (simp add: trim_newline_text)

lemmas server_first_token_cases =
  split_first_token_word [of "''OK''"] split_first_token_word [of "''ERR''"]
  split_first_token_word [of "''WELCOME''"] split_first_token_word [of "''BROADCAST''"]
  split_first_token_word [of "''PM''"] split_first_token_word [of "''USER_JOIN''"]
  split_first_token_word [of "''USER_LEFT''"] split_first_token_word [of "''ROOM_JOINED''"]
  split_first_token_word [of "''HISTORY''"] split_first_token_word [of "''KICKED''"]
  split_first_token_word [of "''LIST''"]

lemma parse_server_line:
  assumes "server_ok m"
  shows "protocol_parse_server_line (server_line m) = (CHAT_OK, server_view m)"
proof -
  have work: "trim_newline (take (MAX_LINE_LEN - 1) (server_line m)) = server_line m"
    using server_line_text [OF assms] by (intro server_work_line) simp_all
  from assms show ?thesis
    unfolding protocol_parse_server_line_def Let_def work
    by (cases m)
      (simp_all add: CMD_BUF_LEN_def server_first_token_cases [simplified] wire_simps [simplified]
        short_text_def TIMESTAMP_LEN_def)
qed

interpretation server_codec: line_codec build_server protocol_parse_server_line server_ok server_view
proof
  fix m
  assume "server_ok m"
  then show "\<exists>t. build_server m MAX_LINE_LEN = (CHAT_OK, t @ [LF]) \<and> line_text t \<and>
      length t + 2 \<le> MAX_LINE_LEN \<and> protocol_parse_server_line t = (CHAT_OK, server_view m)"
    using server_line_text [of m] by (auto simp: build_server_line parse_server_line)
qed

text \<open>The bytes of a sequence of responses.\<close>

definition lines_of :: "server_msg list \<Rightarrow> string" where
  "lines_of ms = concat (map (\<lambda>m. server_line m @ [LF]) ms)"

lemma lines_of_simps [simp]:
  "lines_of [] = []" "lines_of (m # ms) = server_line m @ LF # lines_of ms"
  "lines_of (ms @ ms') = lines_of ms @ lines_of ms'"
  by (simp_all add: lines_of_def)

section \<open>What the server accepts\<close>

lemma split_first_token_Inr:
  assumes "split_first_token line n = Inr (cmd, rest)" and "line_text line"
  shows "line_text rest" and "SP \<notin> set cmd" and "line = cmd \<or> line = cmd @ SP # rest"
proof -
  have "line_text rest \<and> SP \<notin> set cmd \<and> (line = cmd \<or> line = cmd @ SP # rest)"
  proof (cases "strchr line SP")
    case None
    then have "cmd = line" "rest = []"
      using assms(1) by (auto simp: split_first_token_def split: if_splits)
    with None show ?thesis by (simp add: strchr_None)
  next
    case (Some i)
    then have "cmd = take i line" "rest = drop (Suc i) line"
      using assms(1) by (auto simp: split_first_token_def split: if_splits)
    with strchr_Some [OF Some] have line: "line = cmd @ SP # rest" and "SP \<notin> set cmd"
      by simp_all
    moreover have "line_text rest"
      using assms(2) unfolding line by simp
    ultimately show ?thesis by simp
  qed
  then show "line_text rest" "SP \<notin> set cmd" "line = cmd \<or> line = cmd @ SP # rest"
    by blast+
qed

lemma parse_two_tokens_sound:
  assumes "parse_two_tokens rest x na y nb = (CHAT_OK, a, b)" and "line_text rest"
  shows "token na a \<and> text_field nb b"
proof (cases "strchr rest SP")
  case None
  with assms show ?thesis by (simp add: parse_two_tokens_def)
next
  case (Some i)
  then have i: "i < length rest" "SP \<notin> set (take i rest)" "rest = take i rest @ SP # drop (Suc i) rest"
    using strchr_Some by blast+
  with assms(2) have "line_text (take i rest)" "line_text (drop (Suc i) rest)"
    by (metis line_text_Cons line_text_append)+
  with assms(1) Some i(1,2) show ?thesis
    by (auto simp: parse_two_tokens_def token_def text_field_def line_text_take Let_def split: if_splits)
qed

text \<open>The structures the parser accepts are the views of well-formed messages.\<close>

lemma parse_client_line_image:
  assumes "protocol_parse_client_line line = (CHAT_OK, out)" and "line_text line"
  shows "\<exists>m. client_ok m \<and> out = client_view m"
proof -
  obtain cmd rest where split: "split_first_token line CMD_BUF_LEN = Inr (cmd, rest)"
    using assms(1) by (cases "split_first_token line CMD_BUF_LEN")
      (auto simp: protocol_parse_client_line_def)
  have rest: "line_text rest" using split assms(2) by (rule split_first_token_Inr)
  obtain st a b where two: "parse_two_tokens rest [] MAX_USERNAME_LEN [] MAX_MSG_LEN = (st, a, b)"
    by (cases "parse_two_tokens rest [] MAX_USERNAME_LEN [] MAX_MSG_LEN") auto
  have tok: "st = CHAT_OK \<Longrightarrow> token MAX_USERNAME_LEN a \<and> text_field MAX_MSG_LEN b"
    using two parse_two_tokens_sound [OF _ rest] by blast
  note parse = assms(1) [unfolded protocol_parse_client_line_def Let_def split, simplified]
  consider "cmd = ''AUTH''" | "cmd = ''JOIN_ROOM''" | "cmd = ''MSG''" | "cmd = ''PM''" | "cmd = ''LIST''" | "cmd = ''HISTORY''" | "cmd = ''KICK''" | "cmd = ''QUIT''" |
    "cmd \<noteq> ''AUTH'' \<and> cmd \<noteq> ''JOIN_ROOM'' \<and> cmd \<noteq> ''MSG'' \<and> cmd \<noteq> ''PM'' \<and>
     cmd \<noteq> ''LIST'' \<and> cmd \<noteq> ''HISTORY'' \<and> cmd \<noteq> ''KICK'' \<and> cmd \<noteq> ''QUIT''"
    by satx
  then show ?thesis
  proof cases
    case 1
    then show ?thesis
      using parse rest tok two by (intro exI [of _ "Auth a b"]) (simp add: empty_cmd_def text_field_def not_le split: if_splits)
  next
    case 2
    then show ?thesis
      using parse rest tok by (intro exI [of _ "Join_Room rest"]) (simp add: empty_cmd_def text_field_def not_le split: if_splits)
  next
    case 3
    then show ?thesis
      using parse rest tok by (intro exI [of _ "Msg rest"]) (simp add: empty_cmd_def text_field_def not_le split: if_splits)
  next
    case 4
    then show ?thesis
      using parse rest tok two by (intro exI [of _ "Pm a b"]) (simp add: empty_cmd_def text_field_def not_le split: if_splits)
  next
    case 5
    then show ?thesis
      using parse rest tok by (intro exI [of _ "List_Users"]) (simp add: empty_cmd_def text_field_def not_le split: if_splits)
  next
    case 6
    then show ?thesis
      using parse rest tok by (intro exI [of _ "History"]) (simp add: empty_cmd_def text_field_def not_le split: if_splits)
  next
    case 7
    then show ?thesis
      using parse rest tok by (intro exI [of _ "Kick rest"]) (simp add: empty_cmd_def text_field_def not_le split: if_splits)
  next
    case 8
    then show ?thesis
      using parse rest tok by (intro exI [of _ "Quit"]) (simp add: empty_cmd_def text_field_def not_le split: if_splits)
  next
    case 9
    then show ?thesis using parse by simp
  qed
qed

section \<open>Properties\<close>

text \<open>
  Property C9. Every command a client builds from well-formed fields fits the line buffer,
  and the server's parser reads the very same command with the very same fields from it.
\<close>

theorem client_line_roundtrip:
  "client_ok m \<Longrightarrow> fst (build_client m MAX_LINE_LEN) = CHAT_OK \<and>
     protocol_parse_client_line (trim_newline (snd (build_client m MAX_LINE_LEN)))
       = (CHAT_OK, client_view m)"
  by (rule client_codec.roundtrip)

theorem client_line_roundtrip_witness:
  "client_ok (Pm ''bob'' ''hello there'') \<and>
   protocol_parse_client_line
     (trim_newline (snd (build_client (Pm ''bob'' ''hello there'') MAX_LINE_LEN)))
       = (CHAT_OK, \<lparr>pc_cmd = CMD_PM, pc_arg1 = ''bob'', pc_arg2 = ''hello there''\<rparr>)"
proof -
  have ok: "client_ok (Pm ''bob'' ''hello there'')"
    by (simp add: token_def text_field_def)
  show ?thesis using ok client_line_roundtrip [OF ok] by simp
qed

text \<open>
  Property C10. Every response the server builds from well-formed fields fits the line buffer,
  and the client's parser reads the same response with the same fields from it.
\<close>

theorem server_line_roundtrip:
  "server_ok m \<Longrightarrow> fst (build_server m MAX_LINE_LEN) = CHAT_OK \<and>
     protocol_parse_server_line (trim_newline (snd (build_server m MAX_LINE_LEN)))
       = (CHAT_OK, server_view m)"
  by (rule server_codec.roundtrip)

theorem server_line_roundtrip_witness:
  "let m = S_Broadcast ''alice'' ''2026-06-16T10:00:00'' ''lobby'' ''hi all''
   in server_ok m \<and> protocol_parse_server_line (trim_newline (snd (build_server m MAX_LINE_LEN)))
       = (CHAT_OK, server_view m)"
proof -
  let ?m = "S_Broadcast ''alice'' ''2026-06-16T10:00:00'' ''lobby'' ''hi all''"
  have ok: "server_ok ?m"
    by (simp add: token_def text_field_def)
  show ?thesis using ok server_line_roundtrip [OF ok] by simp
qed

text \<open>
  Property C25. Whatever line of text reaches the server, a command it accepts has fields of
  the right shape: every field is non-empty, fits its array with the terminating NUL and holds
  no line end, and the names of \<open>AUTH\<close> and \<open>PM\<close> hold no space.
\<close>

theorem client_parser_sound:
  assumes "protocol_parse_client_line line = (CHAT_OK, out)" and "line_text line"
  shows "\<exists>m. client_ok m \<and> out = client_view m"
  using assms by (rule parse_client_line_image)

theorem client_parser_sound_witness:
  "protocol_parse_client_line ''AUTH alice pass''
     = (CHAT_OK, \<lparr>pc_cmd = CMD_AUTH, pc_arg1 = ''alice'', pc_arg2 = ''pass''\<rparr>) \<and>
   (\<exists>m. client_ok m \<and> \<lparr>pc_cmd = CMD_AUTH, pc_arg1 = ''alice'', pc_arg2 = ''pass''\<rparr> = client_view m)"
proof -
  have p: "protocol_parse_client_line ''AUTH alice pass''
      = (CHAT_OK, \<lparr>pc_cmd = CMD_AUTH, pc_arg1 = ''alice'', pc_arg2 = ''pass''\<rparr>)"
    by code_simp
  have t: "line_text ''AUTH alice pass''" by simp
  show ?thesis using p client_parser_sound [OF p t] by simp
qed

text \<open>
  Property C37. The server accepts a room name that holds a space, and a message broadcast to
  such a room is misread by every client: the room comes out cut at the space, and what
  follows it is taken for the beginning of the message.
\<close>

theorem room_with_space_misread:
  assumes "token MAX_USERNAME_LEN u" and "ts_ok ts" and "token MAX_ROOM_NAME_LEN r1"
    and "line_text r2" and "length r1 + 1 + length r2 < MAX_ROOM_NAME_LEN"
    and "text_field MAX_MSG_LEN (r2 @ SP # msg)"
  shows "protocol_parse_client_line (''JOIN_ROOM '' @ r1 @ SP # r2)
           = (CHAT_OK, \<lparr>pc_cmd = CMD_JOIN_ROOM, pc_arg1 = r1 @ SP # r2, pc_arg2 = []\<rparr>) \<and>
         protocol_parse_server_line (trim_newline
             (snd (protocol_build_server_broadcast MAX_LINE_LEN u ts (r1 @ SP # r2) msg)))
           = (CHAT_OK, empty_resp\<lparr>pr_type := RESP_BROADCAST, pr_username := u, pr_timestamp := ts,
                pr_room := r1, pr_message := r2 @ SP # msg\<rparr>)"
proof
  have join: "client_ok (Join_Room (r1 @ SP # r2))"
    using assms by (auto simp: token_def text_field_def)
  show "protocol_parse_client_line (''JOIN_ROOM '' @ r1 @ SP # r2)
      = (CHAT_OK, \<lparr>pc_cmd = CMD_JOIN_ROOM, pc_arg1 = r1 @ SP # r2, pc_arg2 = []\<rparr>)"
    using parse_client_line [OF join] by simp
  have ok: "server_ok (S_Broadcast u ts r1 (r2 @ SP # msg))"
    using assms ts_ok_token [of ts] by (simp add: TIMESTAMP_LEN_def)
  have same: "protocol_build_server_broadcast MAX_LINE_LEN u ts (r1 @ SP # r2) msg
      = build_server (S_Broadcast u ts r1 (r2 @ SP # msg)) MAX_LINE_LEN"
    by (simp add: protocol_build_server_broadcast_def)
  show "protocol_parse_server_line (trim_newline
             (snd (protocol_build_server_broadcast MAX_LINE_LEN u ts (r1 @ SP # r2) msg)))
           = (CHAT_OK, empty_resp\<lparr>pr_type := RESP_BROADCAST, pr_username := u, pr_timestamp := ts,
                pr_room := r1, pr_message := r2 @ SP # msg\<rparr>)"
    using server_codec.roundtrip [OF ok] unfolding same by simp
qed

theorem room_with_space_misread_witness:
  "protocol_parse_server_line (trim_newline (snd (protocol_build_server_broadcast MAX_LINE_LEN
       ''alice'' ''2026-06-16T10:00:00'' (''dev'' @ SP # ''team'') ''hi'')))
     = (CHAT_OK, empty_resp\<lparr>pr_type := RESP_BROADCAST, pr_username := ''alice'',
          pr_timestamp := ''2026-06-16T10:00:00'', pr_room := ''dev'', pr_message := ''team hi''\<rparr>)"
  using room_with_space_misread [of "''alice''" "''2026-06-16T10:00:00''" "''dev''" "''team''" "''hi''"]
  by (simp add: token_def text_field_def ts_ok_def)

end
