(* ===== verification/Server_State.thy ===== *)
theory Server_State
  imports Auth_DB Client_Registry Room_Manager Message_Queue Wire_Codec
begin

text \<open>
  The state the server's threads share (\<open>chat_server_t\<close> of \<open>include/server.h\<close>), extended
  by the kernel's side of the connections, and the parameters of one command: what the
  allocator, the clock and the stack hold while it runs.
\<close>

section \<open>Data\<close>

record chat_server =
  sv_listen_fd :: int
  sv_port :: "16 word"
  sv_running :: bool
  sv_active_connections :: int
  sv_registry :: client_registry
  sv_queue :: message_queue
  sv_broadcaster_tid :: bool
  sv_auth :: auth_db
  sv_rooms :: room_manager

text \<open>
  The kernel's side: for every descriptor the results that \<open>send\<close> is still going to give and
  the bytes it has taken; the descriptors that were shut down and closed, latest first.
\<close>

record net =
  nt_script :: "int \<Rightarrow> send_res list"
  nt_wire :: "int \<Rightarrow> string"
  nt_shutdown :: "int list"
  nt_closed :: "int list"

record world = chat_server +
  w_net :: net

text \<open>A send loop run on a descriptor.\<close>

definition net_send ::
  "(send_res list \<Rightarrow> string \<Rightarrow> nat \<Rightarrow> nat \<Rightarrow> chat_status \<times> string \<times> send_res list)
    \<Rightarrow> int \<Rightarrow> string \<Rightarrow> world \<Rightarrow> chat_status \<times> world" where
  "net_send loop fd line w =
     (let (st, out, ks) = loop (nt_script (w_net w) fd) line (length line) 0
      in (st, w\<lparr>w_net := (w_net w)\<lparr>nt_script := (nt_script (w_net w))(fd := ks),
                nt_wire := (nt_wire (w_net w))(fd := nt_wire (w_net w) fd @ out)\<rparr>\<rparr>))"

definition sys_shutdown :: "int \<Rightarrow> world \<Rightarrow> world" where
  "sys_shutdown fd w = w\<lparr>w_net := (w_net w)\<lparr>nt_shutdown := fd # nt_shutdown (w_net w)\<rparr>\<rparr>"

definition sys_close :: "int \<Rightarrow> world \<Rightarrow> world" where
  "sys_close fd w = w\<lparr>w_net := (w_net w)\<lparr>nt_closed := fd # nt_closed (w_net w)\<rparr>\<rparr>"

text \<open>
  One queued event: whether \<open>mq_push\<close> finds memory, what the stack holds where the message is
  built, and the time.
\<close>

record event_env =
  ee_mem :: bool
  ee_stack :: mq_message
  ee_time :: int

text \<open>
  One command: the digest, the time zone, the memory of the session, whether the room can be
  allocated, the time, and the events in the order they are queued.
\<close>

record call_env =
  ce_evp :: "string \<Rightarrow> evp_result"
  ce_localtime :: "int \<Rightarrow> tm option"
  ce_node :: "client_node option"
  ce_calloc :: bool
  ce_now :: int
  ce_ev1 :: event_env
  ce_ev2 :: event_env

section \<open>The shared state as the clients see it\<close>

text \<open>Who is connected under which name and in which room; the rooms' logs; the queued events.\<close>

abbreviation sessions :: "world \<Rightarrow> int \<Rightarrow> (string \<times> string \<times> bool) option" where
  "sessions w \<equiv> registry_sessions (sv_registry w)"

abbreviation logs :: "world \<Rightarrow> string \<Rightarrow> history_entry list" where
  "logs w \<equiv> mgr_log (sv_rooms w)"

abbreviation events :: "world \<Rightarrow> mq_message list" where
  "events w \<equiv> mq_contents (sv_queue w)"

abbreviation wire_of :: "world \<Rightarrow> int \<Rightarrow> string" where
  "wire_of w fd \<equiv> nt_wire (w_net w) fd"

text \<open>Every component's own invariant.\<close>

definition world_inv :: "world \<Rightarrow> bool" where
  "world_inv w \<longleftrightarrow> registry_inv (sv_registry w) \<and> rooms_inv (sv_rooms w) \<and> mq_inv (sv_queue w)"

lemma world_invD:
  assumes "world_inv w"
  shows "registry_inv (sv_registry w)" "rooms_inv (sv_rooms w)" "mq_inv (sv_queue w)"
  using assms by (simp_all add: world_inv_def)

text \<open>An event as its reader sees it: type, name, room and text.\<close>

definition event_view :: "mq_message \<Rightarrow> mq_event_type \<times> string \<times> string \<times> string" where
  "event_view m = (mm_type m, c_str (mm_username m), c_str (mm_room m), c_str (mm_content m))"

section \<open>What sending leaves alone\<close>

lemma net_send_frame [frame_simps]:
  "sv_listen_fd (snd (net_send loop fd line w)) = sv_listen_fd w"
  "sv_port (snd (net_send loop fd line w)) = sv_port w"
  "sv_running (snd (net_send loop fd line w)) = sv_running w"
  "sv_active_connections (snd (net_send loop fd line w)) = sv_active_connections w"
  "sv_registry (snd (net_send loop fd line w)) = sv_registry w"
  "sv_queue (snd (net_send loop fd line w)) = sv_queue w"
  "sv_broadcaster_tid (snd (net_send loop fd line w)) = sv_broadcaster_tid w"
  "sv_auth (snd (net_send loop fd line w)) = sv_auth w"
  "sv_rooms (snd (net_send loop fd line w)) = sv_rooms w"
  "nt_shutdown (w_net (snd (net_send loop fd line w))) = nt_shutdown (w_net w)"
  "nt_closed (w_net (snd (net_send loop fd line w))) = nt_closed (w_net w)"
  by (simp_all add: net_send_def split_beta)

lemma net_send_other [frame_simps]:
  "fd' \<noteq> fd \<Longrightarrow> wire_of (snd (net_send loop fd line w)) fd' = wire_of w fd'"
  "fd' \<noteq> fd \<Longrightarrow> nt_script (w_net (snd (net_send loop fd line w))) fd' = nt_script (w_net w) fd'"
  by (simp_all add: net_send_def split_beta)

lemma sys_shutdown_frame [frame_simps]:
  "sv_listen_fd (sys_shutdown fd w) = sv_listen_fd w" "sv_port (sys_shutdown fd w) = sv_port w"
  "sv_running (sys_shutdown fd w) = sv_running w"
  "sv_active_connections (sys_shutdown fd w) = sv_active_connections w"
  "sv_registry (sys_shutdown fd w) = sv_registry w" "sv_queue (sys_shutdown fd w) = sv_queue w"
  "sv_broadcaster_tid (sys_shutdown fd w) = sv_broadcaster_tid w"
  "sv_auth (sys_shutdown fd w) = sv_auth w" "sv_rooms (sys_shutdown fd w) = sv_rooms w"
  "nt_wire (w_net (sys_shutdown fd w)) = nt_wire (w_net w)"
  "nt_script (w_net (sys_shutdown fd w)) = nt_script (w_net w)"
  "nt_closed (w_net (sys_shutdown fd w)) = nt_closed (w_net w)"
  "nt_shutdown (w_net (sys_shutdown fd w)) = fd # nt_shutdown (w_net w)"
  by (simp_all add: sys_shutdown_def)

lemma sys_close_frame [frame_simps]:
  "sv_listen_fd (sys_close fd w) = sv_listen_fd w" "sv_port (sys_close fd w) = sv_port w"
  "sv_running (sys_close fd w) = sv_running w"
  "sv_active_connections (sys_close fd w) = sv_active_connections w"
  "sv_registry (sys_close fd w) = sv_registry w" "sv_queue (sys_close fd w) = sv_queue w"
  "sv_broadcaster_tid (sys_close fd w) = sv_broadcaster_tid w"
  "sv_auth (sys_close fd w) = sv_auth w" "sv_rooms (sys_close fd w) = sv_rooms w"
  "nt_wire (w_net (sys_close fd w)) = nt_wire (w_net w)"
  "nt_script (w_net (sys_close fd w)) = nt_script (w_net w)"
  "nt_shutdown (w_net (sys_close fd w)) = nt_shutdown (w_net w)"
  "nt_closed (w_net (sys_close fd w)) = fd # nt_closed (w_net w)"
  by (simp_all add: sys_close_def)

text \<open>What reaches a descriptor with \<open>send_all\<close>, and when the status is \<open>CHAT_OK\<close>.\<close>

lemma net_send_all_wire:
  "\<exists>out t. line = out @ t \<and> wire_of (snd (net_send send_all fd line w)) fd = wire_of w fd @ out \<and>
     (fst (net_send send_all fd line w) = CHAT_OK \<longrightarrow> t = [])"
proof -
  obtain st out ks where s: "snd_utils.send_string (nt_script (w_net w) fd) line = (st, out, ks)"
    by (cases "snd_utils.send_string (nt_script (w_net w) fd) line") auto
  then have loop: "send_all (nt_script (w_net w) fd) line (length line) 0 = (st, out, ks)"
    by (simp add: snd_utils.send_string_def)
  obtain t where "line = out @ t" using snd_utils.send_string_prefix [OF s] by blast
  moreover have "st = CHAT_OK \<longrightarrow> out = line" using s snd_utils.send_string_ok by blast
  ultimately show ?thesis using loop by (auto simp: net_send_def)
qed

lemma net_send_all_OK:
  "fst (net_send send_all fd line w) = CHAT_OK \<Longrightarrow>
   wire_of (snd (net_send send_all fd line w)) fd = wire_of w fd @ line"
  using net_send_all_wire [of line fd w] by auto

text \<open>A connection whose kernel takes everything it is given.\<close>

definition open_fd :: "world \<Rightarrow> int \<Rightarrow> bool" where
  "open_fd w fd \<longleftrightarrow> nt_script (w_net w) fd = []"

lemma net_send_all_open:
  assumes "open_fd w fd"
  shows "fst (net_send send_all fd line w) = CHAT_OK"
    and "wire_of (snd (net_send send_all fd line w)) = (nt_wire (w_net w))(fd := wire_of w fd @ line)"
    and "nt_script (w_net (snd (net_send send_all fd line w))) = nt_script (w_net w)"
  using assms by (auto simp: net_send_def open_fd_def)

end
