(* ===== verification/Commands.thy ===== *)
theory Commands
  imports Server_State
begin

text \<open>
  \<open>src/server/commands.c\<close>: one function per client command, each run by the thread of the
  connection \<open>fd\<close>. A handler is a function of the shared state: the calls it makes are in the
  order of the code, none of another thread comes in between (\<open>Thread_Programs\<close> has the same
  handlers cut into the calls between which other threads act). A message of the queue is
  built on a stack that was not cleared, and the name, the room and the text are copied by
  \<open>strncpy\<close> with one byte less than the array.
\<close>

section \<open>Sending and queueing\<close>

definition cmd_send_response :: "int \<Rightarrow> string \<Rightarrow> world \<Rightarrow> chat_status \<times> world" where
  "cmd_send_response fd line w = net_send send_all fd line w"

text \<open>Building a response in the buffer \<open>line\<close> and sending it.\<close>

definition send_err :: "int \<Rightarrow> string \<Rightarrow> world \<Rightarrow> chat_status \<times> world" where
  "send_err fd msg w = cmd_send_response fd (snd (protocol_build_server_err MAX_LINE_LEN (Some msg))) w"

definition send_ok :: "int \<Rightarrow> string \<Rightarrow> world \<Rightarrow> chat_status \<times> world" where
  "send_ok fd msg w = cmd_send_response fd (snd (protocol_build_server_ok MAX_LINE_LEN (Some msg))) w"

definition room_event :: "event_env \<Rightarrow> mq_event_type \<Rightarrow> string \<Rightarrow> string \<Rightarrow> mq_message" where
  "room_event ev type username room =
     (let evt = ee_stack ev
      in evt\<lparr>mm_type := type,
             mm_username := strncpy (mm_username evt) username (MAX_USERNAME_LEN - 1),
             mm_room := strncpy (mm_room evt) room (MAX_ROOM_NAME_LEN - 1),
             mm_content := (mm_content evt)[0 := NUL],
             mm_timestamp := ee_time ev\<rparr>)"

definition enqueue_room_event ::
  "event_env \<Rightarrow> mq_event_type \<Rightarrow> string \<Rightarrow> string \<Rightarrow> world \<Rightarrow> chat_status \<times> world" where
  "enqueue_room_event ev type username room w =
     (let (st, q) = mq_push (ee_mem ev) (room_event ev type username room) (sv_queue w)
      in (st, w\<lparr>sv_queue := q\<rparr>))"

section \<open>The commands\<close>

definition cmd_handle_auth :: "call_env \<Rightarrow> int \<Rightarrow> string \<Rightarrow> string \<Rightarrow> world \<Rightarrow> chat_status \<times> world" where
  "cmd_handle_auth e fd username password w =
     (if username = [] \<or> password = []
      then (CHAT_ERR_AUTH, snd (send_err fd ''username and password required'' w))
      else if auth_verify (ce_evp e) (sv_auth w) username password \<noteq> CHAT_OK
      then (CHAT_ERR_AUTH, snd (send_err fd ''invalid credentials'' w))
      else if registry_username_exists (sv_registry w) username
      then (CHAT_ERR_AUTH, snd (send_err fd ''user already online'' w))
      else
        let admin = auth_is_admin (sv_auth w) username;
            added = registry_add (ce_node e) (sv_registry w) fd username DEFAULT_ROOM admin;
            w1 = w\<lparr>sv_registry := snd added\<rparr>
        in if fst added \<noteq> CHAT_OK then (CHAT_ERR_AUTH, snd (send_err fd ''server full'' w1))
           else
             let welcome = cmd_send_response fd (snd (protocol_build_server_welcome MAX_LINE_LEN username)) w1;
                 w2 = snd welcome
             in if fst welcome \<noteq> CHAT_OK
                then (CHAT_ERR_IO, w2\<lparr>sv_registry := snd (registry_remove (sv_registry w2) fd)\<rparr>)
                else
                  let w3 = snd (cmd_send_response fd
                             (snd (protocol_build_server_room_joined MAX_LINE_LEN DEFAULT_ROOM)) w2);
                      w4 = snd (room_history_send_to_client (sv_rooms w3) DEFAULT_ROOM
                             (cmd_send_response fd) w3);
                      w5 = snd (send_ok fd ''authenticated'' w4);
                      w6 = snd (enqueue_room_event (ce_ev1 e) MQ_JOIN username DEFAULT_ROOM w5)
                  in (CHAT_OK, w6))"

definition cmd_handle_join_room :: "call_env \<Rightarrow> int \<Rightarrow> string \<Rightarrow> world \<Rightarrow> chat_status \<times> world" where
  "cmd_handle_join_room e fd room w =
     (if room = [] then send_err fd ''room name required'' w
      else
        let (st, username) = registry_get_username (sv_registry w) fd MAX_USERNAME_LEN
        in if st \<noteq> CHAT_OK then send_err fd ''authenticate first'' w
           else
             let (st2, old_room) = registry_get_room (sv_registry w) fd MAX_ROOM_NAME_LEN
             in if st2 \<noteq> CHAT_OK then (CHAT_ERR, w)
                else if old_room = room then send_err fd ''already in that room'' w
                else
                  let w1 = snd (enqueue_room_event (ce_ev1 e) MQ_LEAVE username old_room w);
                      w2 = w1\<lparr>sv_registry := snd (registry_set_room (sv_registry w1) fd room)\<rparr>;
                      w3 = snd (cmd_send_response fd
                             (snd (protocol_build_server_room_joined MAX_LINE_LEN room)) w2);
                      w4 = snd (room_history_send_to_client (sv_rooms w3) room (cmd_send_response fd) w3);
                      w5 = snd (enqueue_room_event (ce_ev2 e) MQ_JOIN username room w4)
                  in send_ok fd ''room changed'' w5)"

text \<open>The event of a chat message: this time the text is copied as well.\<close>

definition chat_event :: "call_env \<Rightarrow> string \<Rightarrow> string \<Rightarrow> string \<Rightarrow> mq_message" where
  "chat_event e username room content =
     (let evt = ee_stack (ce_ev1 e)
      in evt\<lparr>mm_type := MQ_CHAT,
             mm_username := strncpy (mm_username evt) username (MAX_USERNAME_LEN - 1),
             mm_room := strncpy (mm_room evt) room (MAX_ROOM_NAME_LEN - 1),
             mm_content := strncpy (mm_content evt) content (MAX_MSG_LEN - 1),
             mm_timestamp := ce_now e\<rparr>)"

definition cmd_handle_msg :: "call_env \<Rightarrow> int \<Rightarrow> string \<Rightarrow> world \<Rightarrow> chat_status \<times> world" where
  "cmd_handle_msg e fd content w =
     (let (st, username) = registry_get_username (sv_registry w) fd MAX_USERNAME_LEN
      in if st \<noteq> CHAT_OK then send_err fd ''authenticate first'' w
         else
           let (st2, room) = registry_get_room (sv_registry w) fd MAX_ROOM_NAME_LEN
           in if st2 \<noteq> CHAT_OK then (CHAT_ERR, w)
              else if content = [] then send_err fd ''empty message'' w
              else
                let w1 = w\<lparr>sv_rooms := snd (room_history_add (ce_calloc e) (ce_localtime e)
                              (sv_rooms w) room username content (ce_now e))\<rparr>;
                    pushed = mq_push (ee_mem (ce_ev1 e)) (chat_event e username room content) (sv_queue w1);
                    w2 = w1\<lparr>sv_queue := snd pushed\<rparr>
                in if fst pushed \<noteq> CHAT_OK then send_err fd ''broadcast queue error'' w2
                   else send_ok fd ''message sent'' w2)"

definition cmd_handle_pm :: "call_env \<Rightarrow> int \<Rightarrow> string \<Rightarrow> string \<Rightarrow> world \<Rightarrow> chat_status \<times> world" where
  "cmd_handle_pm e fd target content w =
     (let (st, from_user) = registry_get_username (sv_registry w) fd MAX_USERNAME_LEN
      in if st \<noteq> CHAT_OK then send_err fd ''authenticate first'' w
         else if target = [] \<or> content = [] then send_err fd ''usage: PM user message'' w
         else if from_user = target then send_err fd ''cannot PM yourself'' w
         else
           let target_fd = registry_get_sockfd_by_username (sv_registry w) target
           in if target_fd < 0 then send_err fd ''user not online'' w
              else
                let ts = format_timestamp (ce_localtime e) (ce_now e) TIMESTAMP_LEN;
                    sent = cmd_send_response target_fd
                             (snd (protocol_build_server_pm MAX_LINE_LEN from_user ts content)) w
                in if fst sent \<noteq> CHAT_OK then send_err fd ''failed to deliver PM'' (snd sent)
                   else send_ok fd ''PM delivered'' (snd sent))"

definition cmd_handle_list :: "int \<Rightarrow> world \<Rightarrow> chat_status \<times> world" where
  "cmd_handle_list fd w =
     (if fst (registry_get_username (sv_registry w) fd MAX_USERNAME_LEN) \<noteq> CHAT_OK
      then send_err fd ''authenticate first'' w
      else
        let (st, users) = registry_build_user_list (sv_registry w) MAX_MSG_LEN
        in if st \<noteq> CHAT_OK then send_err fd ''failed to build user list'' w
           else cmd_send_response fd (snd (protocol_build_server_list MAX_LINE_LEN (Some users))) w)"

definition cmd_handle_history :: "int \<Rightarrow> world \<Rightarrow> chat_status \<times> world" where
  "cmd_handle_history fd w =
     (if fst (registry_get_username (sv_registry w) fd MAX_USERNAME_LEN) \<noteq> CHAT_OK
      then send_err fd ''authenticate first'' w
      else
        let (st, room) = registry_get_room (sv_registry w) fd MAX_ROOM_NAME_LEN
        in if st \<noteq> CHAT_OK then (CHAT_ERR, w)
           else
             let sent = room_history_send_to_client (sv_rooms w) room (cmd_send_response fd) w
             in if fst sent \<noteq> CHAT_OK then send_err fd ''history unavailable'' (snd sent)
                else send_ok fd ''history sent'' (snd sent))"

definition cmd_handle_kick :: "int \<Rightarrow> string \<Rightarrow> world \<Rightarrow> chat_status \<times> world" where
  "cmd_handle_kick fd target w =
     (if \<not> registry_is_admin (sv_registry w) fd then send_err fd ''admin privileges required'' w
      else if target = [] then send_err fd ''username required'' w
      else
        let (st, admin) = registry_get_username (sv_registry w) fd MAX_USERNAME_LEN
        in if st = CHAT_OK \<and> admin = target then send_err fd ''cannot kick yourself'' w
           else
             let target_fd = registry_get_sockfd_by_username (sv_registry w) target
             in if target_fd < 0 then send_err fd ''user not online'' w
                else
                  let w1 = snd (cmd_send_response target_fd
                             (snd (protocol_build_server_kicked MAX_LINE_LEN (Some ''kicked by admin''))) w);
                      w2 = sys_shutdown target_fd w1
                  in send_ok fd ''user kicked'' w2)"

definition cmd_disconnect_client :: "event_env \<Rightarrow> int \<Rightarrow> string \<Rightarrow> bool \<Rightarrow> world \<Rightarrow> world" where
  "cmd_disconnect_client ev fd username authenticated w =
     (let w' =
        (if authenticated \<and> username \<noteq> [] then
           let (st, room) = registry_get_room (sv_registry w) fd MAX_ROOM_NAME_LEN;
               w1 = (if st = CHAT_OK then snd (enqueue_room_event ev MQ_LEAVE username room w) else w)
           in w1\<lparr>sv_registry := snd (registry_remove (sv_registry w1) fd)\<rparr>
         else w)
      in sys_close fd w')"

section \<open>What sending and queueing leave alone\<close>

lemmas send_defs = cmd_send_response_def send_err_def send_ok_def

lemma send_frame [frame_simps]:
  "sv_running (snd (cmd_send_response fd line w)) = sv_running w"
  "sv_active_connections (snd (cmd_send_response fd line w)) = sv_active_connections w"
  "sv_registry (snd (cmd_send_response fd line w)) = sv_registry w"
  "sv_queue (snd (cmd_send_response fd line w)) = sv_queue w"
  "sv_rooms (snd (cmd_send_response fd line w)) = sv_rooms w"
  "sv_auth (snd (cmd_send_response fd line w)) = sv_auth w"
  "nt_shutdown (w_net (snd (cmd_send_response fd line w))) = nt_shutdown (w_net w)"
  "nt_closed (w_net (snd (cmd_send_response fd line w))) = nt_closed (w_net w)"
  "fd' \<noteq> fd \<Longrightarrow> wire_of (snd (cmd_send_response fd line w)) fd' = wire_of w fd'"
  by (simp_all add: cmd_send_response_def frame_simps)

lemma reply_frame [frame_simps]:
  "sv_running (snd (send_err fd msg w)) = sv_running w" "sv_running (snd (send_ok fd msg w)) = sv_running w"
  "sv_active_connections (snd (send_err fd msg w)) = sv_active_connections w"
  "sv_active_connections (snd (send_ok fd msg w)) = sv_active_connections w"
  "sv_registry (snd (send_err fd msg w)) = sv_registry w" "sv_registry (snd (send_ok fd msg w)) = sv_registry w"
  "sv_queue (snd (send_err fd msg w)) = sv_queue w" "sv_queue (snd (send_ok fd msg w)) = sv_queue w"
  "sv_rooms (snd (send_err fd msg w)) = sv_rooms w" "sv_rooms (snd (send_ok fd msg w)) = sv_rooms w"
  "sv_auth (snd (send_err fd msg w)) = sv_auth w" "sv_auth (snd (send_ok fd msg w)) = sv_auth w"
  "nt_shutdown (w_net (snd (send_err fd msg w))) = nt_shutdown (w_net w)"
  "nt_shutdown (w_net (snd (send_ok fd msg w))) = nt_shutdown (w_net w)"
  "nt_closed (w_net (snd (send_err fd msg w))) = nt_closed (w_net w)"
  "nt_closed (w_net (snd (send_ok fd msg w))) = nt_closed (w_net w)"
  "fd' \<noteq> fd \<Longrightarrow> wire_of (snd (send_err fd msg w)) fd' = wire_of w fd'"
  "fd' \<noteq> fd \<Longrightarrow> wire_of (snd (send_ok fd msg w)) fd' = wire_of w fd'"
  by (simp_all add: send_err_def send_ok_def frame_simps)

lemma history_send_cases:
  "room_history_send_to_client mgr room (cmd_send_response fd) w =
     (if length (history_text mgr room) \<le> 2038
      then cmd_send_response fd (''HISTORY '' @ history_text mgr room @ [LF]) w
      else (CHAT_ERR, w))"
  by (auto simp: room_history_send_to_client_def room_history_format_printed printed_def
      protocol_build_server_history_def snprintf_line_def or_empty_def)

lemma history_send_frame [frame_simps]:
  "sv_running (snd (room_history_send_to_client mgr room (cmd_send_response fd) w)) = sv_running w"
  "sv_active_connections (snd (room_history_send_to_client mgr room (cmd_send_response fd) w))
     = sv_active_connections w"
  "sv_registry (snd (room_history_send_to_client mgr room (cmd_send_response fd) w)) = sv_registry w"
  "sv_queue (snd (room_history_send_to_client mgr room (cmd_send_response fd) w)) = sv_queue w"
  "sv_rooms (snd (room_history_send_to_client mgr room (cmd_send_response fd) w)) = sv_rooms w"
  "sv_auth (snd (room_history_send_to_client mgr room (cmd_send_response fd) w)) = sv_auth w"
  "nt_shutdown (w_net (snd (room_history_send_to_client mgr room (cmd_send_response fd) w)))
     = nt_shutdown (w_net w)"
  "nt_closed (w_net (snd (room_history_send_to_client mgr room (cmd_send_response fd) w)))
     = nt_closed (w_net w)"
  "fd' \<noteq> fd \<Longrightarrow> wire_of (snd (room_history_send_to_client mgr room (cmd_send_response fd) w)) fd' = wire_of w fd'"
  by (simp_all add: history_send_cases frame_simps)

lemma enqueue_frame [frame_simps]:
  "sv_running (snd (enqueue_room_event ev ty u rm w)) = sv_running w"
  "sv_active_connections (snd (enqueue_room_event ev ty u rm w)) = sv_active_connections w"
  "sv_registry (snd (enqueue_room_event ev ty u rm w)) = sv_registry w"
  "sv_rooms (snd (enqueue_room_event ev ty u rm w)) = sv_rooms w"
  "sv_auth (snd (enqueue_room_event ev ty u rm w)) = sv_auth w"
  "w_net (snd (enqueue_room_event ev ty u rm w)) = w_net w"
  "sv_queue (snd (enqueue_room_event ev ty u rm w)) = snd (mq_push (ee_mem ev) (room_event ev ty u rm) (sv_queue w))"
  by (simp_all add: enqueue_room_event_def split_beta)

text \<open>A push adds the event at the end, or changes nothing when it fails.\<close>

lemma mq_push_spec:
  assumes "mq_inv q"
  shows "mq_inv (snd (mq_push mem m q))"
    and "mq_contents (snd (mq_push mem m q)) = mq_contents q @ (if mem \<and> \<not> mq_shutdown q then [m] else [])"
    and "mq_shutdown (snd (mq_push mem m q)) = mq_shutdown q"
    and "fst (mq_push mem m q) = CHAT_OK \<longleftrightarrow> mem \<and> \<not> mq_shutdown q"
  using mq_step_refines [OF assms, of "Op_Push mem m"]
  by (auto simp: mq_abs_def split_beta split: if_splits)


text \<open>The event a call adds to the queue, if any.\<close>

definition queued :: "event_env \<Rightarrow> mq_message \<Rightarrow> world \<Rightarrow> mq_message list" where
  "queued ev m w = (if ee_mem ev \<and> \<not> mq_shutdown (sv_queue w) then [m] else [])"

lemma enqueue_spec:
  assumes "mq_inv (sv_queue w)"
  shows "events (snd (enqueue_room_event ev ty u rm w)) = events w @ queued ev (room_event ev ty u rm) w"
    and "mq_inv (sv_queue (snd (enqueue_room_event ev ty u rm w)))"
    and "mq_shutdown (sv_queue (snd (enqueue_room_event ev ty u rm w))) = mq_shutdown (sv_queue w)"
  using mq_push_spec [OF assms] by (simp_all add: frame_simps queued_def)

section \<open>Logging in\<close>

lemma auth_del_undo:
  assumes "registry_inv reg" and "node_mem_ok mem u rm" and "registry_sessions reg fd = None"
    and "registry_add mem reg fd u rm a = (CHAT_OK, reg')"
  shows "registry_inv (snd (registry_remove reg' fd))"
    and "registry_sessions (snd (registry_remove reg' fd)) = registry_sessions reg"
  using reg.add_keeps [OF assms(1-3), of a] reg.login_logout [OF assms] assms(4)
  by (simp_all add: reg.del_keeps)

lemma cmd_handle_auth_fails:
  assumes w: "world_inv w" and m: "node_mem_ok (ce_node e) u DEFAULT_ROOM" and s: "sessions w fd = None"
    and r: "cmd_handle_auth e fd u pw w = (st, w')" and st: "st \<noteq> CHAT_OK"
  shows "(st = CHAT_ERR_AUTH \<or> st = CHAT_ERR_IO) \<and> world_inv w' \<and> sessions w' = sessions w \<and>
         sv_queue w' = sv_queue w \<and> sv_rooms w' = sv_rooms w"
proof -
  let ?add = "registry_add (ce_node e) (sv_registry w) fd u DEFAULT_ROOM (auth_is_admin (sv_auth w) u)"
  obtain st1 reg' where add: "?add = (st1, reg')" by (cases ?add)
  show ?thesis
  proof (cases "st1 = CHAT_OK")
    case True
    note undo = auth_del_undo [OF world_invD(1) [OF w] m s add [unfolded True]]
    show ?thesis
      using r st w undo by (auto simp: cmd_handle_auth_def Let_def add True frame_simps world_inv_def split: if_splits)
  next
    case False
    then have "reg' = sv_registry w" using reg.add_fails [OF add] by simp
    with False show ?thesis
      using r st w by (auto simp: cmd_handle_auth_def Let_def add frame_simps world_inv_def split: if_splits)
  qed
qed

lemma cmd_handle_auth_OK:
  assumes w: "world_inv w" and m: "node_mem_ok (ce_node e) u DEFAULT_ROOM" and s: "sessions w fd = None"
    and r: "cmd_handle_auth e fd u pw w = (CHAT_OK, w')"
  shows "u \<noteq> [] \<and> auth_verify (ce_evp e) (sv_auth w) u pw = CHAT_OK \<and> u \<notin> reg.online (sv_registry w) \<and>
         world_inv w' \<and> sv_rooms w' = sv_rooms w \<and>
         sessions w' = (sessions w)(fd \<mapsto> (u, DEFAULT_ROOM, auth_is_admin (sv_auth w) u)) \<and>
         events w' = events w @ queued (ce_ev1 e) (room_event (ce_ev1 e) MQ_JOIN u DEFAULT_ROOM) w"
proof -
  let ?a = "auth_is_admin (sv_auth w) u"
  let ?add = "registry_add (ce_node e) (sv_registry w) fd u DEFAULT_ROOM ?a"
  obtain st1 reg' where add: "?add = (st1, reg')" by (cases ?add)
  then have ok: "st1 = CHAT_OK"
    using r by (auto simp: cmd_handle_auth_def Let_def split: if_splits)
  note new = reg.add_ok [OF world_invD(1) [OF w] m s add [unfolded ok]]
  have "registry_inv reg'" using reg.add_keeps [OF world_invD(1) [OF w] m s, of ?a] add by simp
  then show ?thesis
    using r w new registry_username_exists_online [OF world_invD(1) [OF w], of u]
      mq_push_spec [OF world_invD(3) [OF w]]
    by (auto simp: cmd_handle_auth_def Let_def add ok frame_simps world_inv_def queued_def split: if_splits)
qed

section \<open>What the commands do to the shared state\<close>

lemma get_username_sessions:
  assumes "world_inv w"
  shows "registry_get_username (sv_registry w) fd MAX_USERNAME_LEN =
     (case sessions w fd of None \<Rightarrow> (CHAT_ERR_NOT_FOUND, []) | Some (u, _, _) \<Rightarrow> (CHAT_OK, u))"
  using registry_sessions_short [OF world_invD(1) [OF assms], of fd]
  by (auto simp: registry_get_username_sessions split: option.split)

lemma get_room_sessions:
  assumes "world_inv w"
  shows "registry_get_room (sv_registry w) fd MAX_ROOM_NAME_LEN =
     (case sessions w fd of None \<Rightarrow> (CHAT_ERR_NOT_FOUND, []) | Some (_, rm, _) \<Rightarrow> (CHAT_OK, rm))"
  using registry_sessions_short [OF world_invD(1) [OF assms], of fd]
  by (auto simp: registry_get_room_sessions split: option.split)

lemmas lookup_simps = get_username_sessions [unfolded MAX_USERNAME_LEN_def] get_room_sessions [unfolded MAX_ROOM_NAME_LEN_def]

lemma cmd_handle_join_room_spec:
  assumes w: "world_inv w" and rm: "is_c_string room" "length room < MAX_ROOM_NAME_LEN"
    and r: "cmd_handle_join_room e fd room w = (st, w')"
  shows "world_inv w' \<and> sv_rooms w' = sv_rooms w \<and>
     (case sessions w fd of
        None \<Rightarrow> sessions w' = sessions w \<and> events w' = events w
      | Some (u, old, a) \<Rightarrow>
          if room \<noteq> [] \<and> room \<noteq> old then
            sessions w' = (sessions w)(fd \<mapsto> (u, room, a)) \<and>
            events w' = events w @ queued (ce_ev1 e) (room_event (ce_ev1 e) MQ_LEAVE u old) w @
              queued (ce_ev2 e) (room_event (ce_ev2 e) MQ_JOIN u room) w
          else sessions w' = sessions w \<and> events w' = events w)"
proof (cases "sessions w fd")
  case None
  with assms show ?thesis
    by (auto simp: cmd_handle_join_room_def lookup_simps frame_simps world_inv_def dest!: arg_cong [of _ _ snd] split: if_splits)
next
  case (Some s)
  obtain u old a where s: "sessions w fd = Some (u, old, a)" using Some by (cases s) auto
  show ?thesis
  proof (cases "room \<noteq> [] \<and> room \<noteq> old")
    case True
    let ?w1 = "snd (enqueue_room_event (ce_ev1 e) MQ_LEAVE u old w)"
    note q1 = mq_push_spec [OF world_invD(3) [OF w]]
    note q2 = mq_push_spec [OF q1(1)]
    note mv = reg.move_keeps [OF world_invD(1) [OF w] rm(1), of fd]
      reg.move_sessions [OF world_invD(1) [OF w] rm(1), of fd]
    show ?thesis
      using r True s mv w rm(2)
      by (auto simp: cmd_handle_join_room_def lookup_simps [OF w] frame_simps world_inv_def Let_def queued_def q1 q2
          dest!: arg_cong [of _ _ snd])
  next
    case False
    with r s w show ?thesis
      by (auto simp: cmd_handle_join_room_def lookup_simps frame_simps world_inv_def dest!: arg_cong [of _ _ snd] split: if_splits)
  qed
qed

lemma cmd_handle_msg_spec:
  assumes w: "world_inv w" and r: "cmd_handle_msg e fd content w = (st, w')"
  shows "world_inv w' \<and> sessions w' = sessions w \<and>
     (case sessions w fd of
        None \<Rightarrow> sv_rooms w' = sv_rooms w \<and> events w' = events w
      | Some (u, room, a) \<Rightarrow>
          if content = [] then sv_rooms w' = sv_rooms w \<and> events w' = events w
          else
            sv_rooms w' = snd (room_history_add (ce_calloc e) (ce_localtime e) (sv_rooms w) room u content (ce_now e)) \<and>
            events w' = events w @ queued (ce_ev1 e) (chat_event e u room content) w)"
proof (cases "sessions w fd")
  case None
  with assms show ?thesis
    by (auto simp: cmd_handle_msg_def lookup_simps frame_simps world_inv_def dest!: arg_cong [of _ _ snd] split: if_splits)
next
  case (Some s)
  obtain u room a where s: "sessions w fd = Some (u, room, a)" using Some by (cases s) auto
  have nm: "room_name_ok room"
    using registry_sessions_short [OF world_invD(1) [OF w] s] by (simp add: room_name_ok_def)
  note q = mq_push_spec [OF world_invD(3) [OF w]]
  note h = room_history_add_spec [OF world_invD(2) [OF w] nm, THEN conjunct1]
  show ?thesis
    using r s h w
    by (auto simp: cmd_handle_msg_def lookup_simps [OF w] frame_simps world_inv_def Let_def queued_def q
        dest!: arg_cong [of _ _ snd] split: if_splits)
qed

lemma cmd_handle_quiet:
  "sv_registry (snd (cmd_handle_pm e fd target content w)) = sv_registry w"
  "sv_registry (snd (cmd_handle_list fd w)) = sv_registry w"
  "sv_registry (snd (cmd_handle_history fd w)) = sv_registry w"
  "sv_registry (snd (cmd_handle_kick fd target w)) = sv_registry w"
  "sv_rooms (snd (cmd_handle_pm e fd target content w)) = sv_rooms w"
  "sv_rooms (snd (cmd_handle_list fd w)) = sv_rooms w"
  "sv_rooms (snd (cmd_handle_history fd w)) = sv_rooms w"
  "sv_rooms (snd (cmd_handle_kick fd target w)) = sv_rooms w"
  "sv_queue (snd (cmd_handle_pm e fd target content w)) = sv_queue w"
  "sv_queue (snd (cmd_handle_list fd w)) = sv_queue w"
  "sv_queue (snd (cmd_handle_history fd w)) = sv_queue w"
  "sv_queue (snd (cmd_handle_kick fd target w)) = sv_queue w"
  by (simp_all add: cmd_handle_pm_def cmd_handle_list_def cmd_handle_history_def cmd_handle_kick_def
      frame_simps Let_def split: prod.split)

lemma cmd_disconnect_client_spec:
  assumes w: "world_inv w" and au: "authenticated \<longleftrightarrow> sessions w fd \<noteq> None"
    and nm: "authenticated \<Longrightarrow> username \<noteq> []"
  shows "world_inv (cmd_disconnect_client ev fd username authenticated w) \<and>
     sessions (cmd_disconnect_client ev fd username authenticated w) = (sessions w)(fd := None) \<and>
     sv_rooms (cmd_disconnect_client ev fd username authenticated w) = sv_rooms w \<and>
     events (cmd_disconnect_client ev fd username authenticated w) = events w @
       (case sessions w fd of None \<Rightarrow> []
        | Some (_, rm, _) \<Rightarrow> queued ev (room_event ev MQ_LEAVE username rm) w)"
proof (cases "sessions w fd")
  case None
  with assms show ?thesis
    by (simp add: cmd_disconnect_client_def frame_simps world_inv_def fun_upd_idem)
next
  case (Some s)
  obtain u room a where s: "sessions w fd = Some (u, room, a)" using Some by (cases s) auto
  note q = mq_push_spec [OF world_invD(3) [OF w]]
  show ?thesis
    using assms s reg.del_keeps [OF world_invD(1) [OF w]] reg.del_sessions [OF world_invD(1) [OF w]] q
    by (simp add: cmd_disconnect_client_def lookup_simps frame_simps world_inv_def queued_def)
qed
end
