(* ===== verification/Command_Properties.thy ===== *)
theory Command_Properties
  imports Commands
begin

text \<open>
  The theorems on \<open>commands.c\<close>: logging in, changing rooms, chat and private messages,
  kicking and leaving. They rest on the effect lemmas of \<open>Commands\<close>; the bytes a client
  receives are given as lists of responses, \<open>lines_of\<close>, for connections whose kernel takes
  everything it is given (\<open>open_fd\<close>).
\<close>

section \<open>A server to run the commands on\<close>

text \<open>Alice, an administrator, on descriptor 5 and Bob on descriptor 6, both in the lobby.\<close>

definition sample_registry :: client_registry where
  "sample_registry =
     snd (registry_add (Some zero_node)
       (snd (registry_add (Some zero_node) registry_empty 5 ''alice'' ''lobby'' True))
       6 ''bob'' ''lobby'' False)"

definition sample_hash :: string where
  "sample_hash = the (snd (auth_hash_password sample_evp ''pw'' SHA256_HEX_LEN))"

definition sample_world :: world where
  "sample_world = \<lparr>sv_listen_fd = 3, sv_port = 8080, sv_running = True, sv_active_connections = 2,
     sv_registry = sample_registry, sv_queue = mq_empty, sv_broadcaster_tid = True,
     sv_auth = \<lparr>ad_head = [sample_user ''carol'' sample_hash False], ad_db_path = []\<rparr>,
     sv_rooms = snd (room_manager_init True True),
     w_net = \<lparr>nt_script = (\<lambda>_. []), nt_wire = (\<lambda>_. []), nt_shutdown = [], nt_closed = []\<rparr>\<rparr>"

definition zero_stack :: mq_message where
  "zero_stack = \<lparr>mm_type = MQ_CHAT, mm_username = replicate 32 NUL, mm_room = replicate 32 NUL,
     mm_content = replicate 512 NUL, mm_timestamp = 0\<rparr>"

definition sample_event :: event_env where
  "sample_event = \<lparr>ee_mem = True, ee_stack = zero_stack, ee_time = 0\<rparr>"

definition sample_env :: call_env where
  "sample_env = \<lparr>ce_evp = sample_evp, ce_localtime = (\<lambda>_. None), ce_node = Some zero_node,
     ce_calloc = True, ce_now = 0, ce_ev1 = sample_event, ce_ev2 = sample_event\<rparr>"

lemma node_mem_zero:
  "is_c_string u \<Longrightarrow> is_c_string rm \<Longrightarrow> length u < 32 \<Longrightarrow> length rm < 32 \<Longrightarrow> node_mem_ok (Some zero_node) u rm"
  by (auto simp: node_mem_ok_def zero_node_def copy_ok_def nth_Cons')

lemma sample_registry_inv:
  "registry_inv sample_registry \<and> registry_sessions sample_registry
     = [5 \<mapsto> (''alice'', ''lobby'', True), 6 \<mapsto> (''bob'', ''lobby'', False)]"
proof -
  let ?r1 = "snd (registry_add (Some zero_node) registry_empty 5 ''alice'' ''lobby'' True)"
  have m: "node_mem_ok (Some zero_node) ''alice'' ''lobby''" "node_mem_ok (Some zero_node) ''bob'' ''lobby''"
    by (rule node_mem_zero; simp add: is_c_string_def)+
  have e: "registry_sessions registry_empty = Map.empty"
    by (simp add: registry_sessions_def registry_empty_def fun_eq_iff)
  then have n1: "registry_sessions registry_empty 5 = None" by simp
  have a1: "registry_add (Some zero_node) registry_empty 5 ''alice'' ''lobby'' True = (CHAT_OK, ?r1)"
    by (simp add: registry_add_def registry_empty_def Let_def)
  have i1: "registry_inv ?r1"
    by (rule reg.add_keeps [OF registry_inv_empty m(1) n1])
  have s1: "registry_sessions ?r1 = [5 \<mapsto> (''alice'', ''lobby'', True)]"
    using reg.add_ok [OF registry_inv_empty m(1) n1 a1] e by simp
  have a2: "registry_add (Some zero_node) ?r1 6 ''bob'' ''lobby'' False = (CHAT_OK, sample_registry)"
    by (simp add: registry_add_def registry_empty_def Let_def sample_registry_def zero_node_def strncpy_def c_str_def)
  have n2: "registry_sessions ?r1 6 = None" using s1 by simp
  show ?thesis
    using reg.add_keeps [OF i1 m(2) n2, of False] reg.add_ok [OF i1 m(2) n2 a2] s1
    by (simp add: sample_registry_def)
qed

lemma sample_world_inv: "world_inv sample_world"
proof -
  have "room_manager_init True True = (CHAT_OK, sv_rooms sample_world)"
    by (simp add: sample_world_def room_manager_init_def room_find_or_create_def room_manager_empty_def)
  then have "rooms_inv (sv_rooms sample_world)" using room_manager_init_inv by blast
  then show ?thesis
    using sample_registry_inv mq_inv_empty by (simp add: world_inv_def sample_world_def)
qed

lemma sample_world_simps:
  "sessions sample_world = [5 \<mapsto> (''alice'', ''lobby'', True), 6 \<mapsto> (''bob'', ''lobby'', False)]"
  "open_fd sample_world fd" "wire_of sample_world fd = []"
  "nt_shutdown (w_net sample_world) = []" "nt_closed (w_net sample_world) = []"
  "sv_queue sample_world = mq_empty" "mq_contents mq_empty = []"
  using sample_registry_inv
  by (simp_all add: sample_world_def open_fd_def mq_contents_def mq_empty_def)


section \<open>What a connection whose kernel takes everything receives\<close>

lemma cmd_send_open:
  assumes "open_fd w fd"
  shows "fst (cmd_send_response fd line w) = CHAT_OK"
    and "wire_of (snd (cmd_send_response fd line w)) fd = wire_of w fd @ line"
    and "open_fd (snd (cmd_send_response fd line w)) fd' = open_fd w fd'"
  using net_send_all_open [OF assms] by (simp_all add: cmd_send_response_def open_fd_def)

lemma reply_open:
  assumes "open_fd w fd" and "length msg < 512"
  shows "fst (send_ok fd msg w) = CHAT_OK" "fst (send_err fd msg w) = CHAT_OK"
    and "wire_of (snd (send_ok fd msg w)) fd = wire_of w fd @ lines_of [S_Ok msg]"
    and "wire_of (snd (send_err fd msg w)) fd = wire_of w fd @ lines_of [S_Err msg]"
  using assms cmd_send_open [OF assms(1)] build_server_line [of "S_Ok msg" 2048] build_server_line [of "S_Err msg" 2048]
  by (simp_all add: send_ok_def send_err_def)

lemma history_send_open:
  assumes "open_fd w fd"
  shows "wire_of (snd (room_history_send_to_client mgr room (cmd_send_response fd) w)) fd = wire_of w fd @
     lines_of (if length (history_text mgr room) \<le> 2038 then [S_History (history_text mgr room)] else [])"
    and "open_fd (snd (room_history_send_to_client mgr room (cmd_send_response fd) w)) fd' = open_fd w fd'"
  using cmd_send_open [OF assms] by (simp_all add: history_send_cases)

lemma enqueue_open: "open_fd (snd (enqueue_room_event ev ty u rm w)) fd = open_fd w fd"
  by (simp add: open_fd_def frame_simps)

lemma open_fd_registry [simp]: "open_fd (w\<lparr>sv_registry := reg\<rparr>) fd = open_fd w fd"
  by (simp add: open_fd_def)

lemma registry_add_succeeds:
  assumes "registry_inv reg" and "u \<notin> reg.online reg" and "mem \<noteq> None" and "registry_count reg < MAX_CLIENTS"
  shows "fst (registry_add mem reg fd u rm a) = CHAT_OK"
proof -
  have "\<not> list_ex (\<lambda>cur. c_str (cn_username cur) = u) (cr_nodes reg)"
    using assms(1,2) by (auto simp: registry_online_node list_ex_iff)
  with assms(3,4) show ?thesis
    by (auto simp: registry_add_def registry_count_def Let_def split: option.split)
qed

section \<open>What the queued events say\<close>

text \<open>
  When the memory under an event is good enough for the strings copied to it: they are
  shorter than the arrays by two, or the last byte happens to be NUL.
\<close>

definition event_mem_ok :: "event_env \<Rightarrow> string \<Rightarrow> string \<Rightarrow> bool" where
  "event_mem_ok ev u rm \<longleftrightarrow> copy_ok (mm_username (ee_stack ev)) u MAX_USERNAME_LEN \<and>
     copy_ok (mm_room (ee_stack ev)) rm MAX_ROOM_NAME_LEN \<and> length (mm_content (ee_stack ev)) = MAX_MSG_LEN"

lemma room_event_view:
  assumes "event_mem_ok ev u rm"
  shows "event_view (room_event ev ty u rm) = (ty, u, rm, [])"
proof -
  have "mm_content (ee_stack ev) \<noteq> []" using assms by (auto simp: event_mem_ok_def)
  then have "c_str ((mm_content (ee_stack ev))[0 := NUL]) = []"
    by (cases "mm_content (ee_stack ev)") (simp_all add: c_str_def)
  then show ?thesis
    using assms copy_ok_copy(1) [of _ u 32] copy_ok_copy(1) [of _ rm 32]
    by (simp add: event_view_def room_event_def Let_def event_mem_ok_def)
qed

lemma chat_event_view:
  assumes "event_mem_ok (ce_ev1 e) u rm" and "copy_ok (mm_content (ee_stack (ce_ev1 e))) content MAX_MSG_LEN"
  shows "event_view (chat_event e u rm content) = (MQ_CHAT, u, rm, content)"
  using assms copy_ok_copy(1) [of _ u 32] copy_ok_copy(1) [of _ rm 32] copy_ok_copy(1) [of _ content 512]
  by (simp add: event_view_def chat_event_def Let_def event_mem_ok_def)

lemma copy_ok_zero: "is_c_string s \<Longrightarrow> length s < n \<Longrightarrow> copy_ok (replicate n NUL) s n"
  by (simp add: copy_ok_def)

lemma sample_event_mem:
  "is_c_string u \<Longrightarrow> is_c_string rm \<Longrightarrow> length u < 32 \<Longrightarrow> length rm < 32 \<Longrightarrow> event_mem_ok sample_event u rm"
  by (simp add: event_mem_ok_def sample_event_def zero_stack_def copy_ok_zero)

lemma sample_env_simps:
  "ce_ev1 sample_env = sample_event" "ce_ev2 sample_env = sample_event" "ee_mem sample_event = True"
  "mm_content (ee_stack sample_event) = replicate 512 NUL" "ce_calloc sample_env" "ce_now sample_env = 0"
  "ce_localtime sample_env = (\<lambda>_. None)"
  by (simp_all add: sample_env_def sample_event_def zero_stack_def)

lemma sample_queued: "queued sample_event m sample_world = [m]"
  by (simp add: queued_def sample_event_def sample_world_def mq_empty_def)

text \<open>When a message finds its room's history.\<close>

definition room_available :: "bool \<Rightarrow> room_manager \<Rightarrow> string \<Rightarrow> bool" where
  "room_available mem_ok mgr room \<longleftrightarrow>
     room \<in> rn_name ` set (rm_rooms mgr) \<or> rm_room_count mgr < MAX_ROOMS \<and> mem_ok"

lemma room_history_add_OK:
  "fst (room_history_add mem_ok lt mgr room u c ts) = CHAT_OK \<longleftrightarrow> room_available mem_ok mgr room"
  using room_index_None [of "rm_rooms mgr" room]
  by (auto simp: room_history_add_def room_find_or_create_def room_available_def not_le split: option.split)

section \<open>Properties\<close>

text \<open>
  Property C5. A login is all or nothing. It succeeds only for a non-empty name with the
  right password that nobody is using; the table then has exactly one session more, for
  that name, in the lobby, with the flag of the user database, and the join is announced.
  Whatever else happens, a refused login, a full table or a failure to send the welcome,
  leaves the sessions and the queue as they were. The descriptor has no session yet, and the
  memory \<open>malloc\<close> gives for the session leaves the name terminated (\<open>node_mem_ok\<close>), which every
  memory does for a name of at most 30 characters; C36 is what happens otherwise.
\<close>

theorem login_all_or_nothing:
  assumes "world_inv w" and "node_mem_ok (ce_node e) u DEFAULT_ROOM" and "sessions w fd = None"
    and "cmd_handle_auth e fd u pw w = (st, w')"
  shows "world_inv w' \<and> sv_rooms w' = sv_rooms w \<and>
    (if st = CHAT_OK then
       u \<noteq> [] \<and> auth_verify (ce_evp e) (sv_auth w) u pw = CHAT_OK \<and>
       u \<notin> reg.online (sv_registry w) \<and>
       sessions w' = (sessions w)(fd \<mapsto> (u, DEFAULT_ROOM, auth_is_admin (sv_auth w) u)) \<and>
       events w' = events w @ queued (ce_ev1 e) (room_event (ce_ev1 e) MQ_JOIN u DEFAULT_ROOM) w
     else (st = CHAT_ERR_AUTH \<or> st = CHAT_ERR_IO) \<and> sessions w' = sessions w \<and> sv_queue w' = sv_queue w)"
  using cmd_handle_auth_OK [OF assms(1-3)] cmd_handle_auth_fails [OF assms] assms(4) by auto

lemma sample_auth: "auth_verify sample_evp (sv_auth sample_world) ''carol'' ''pw'' = CHAT_OK"
  by (simp add: auth_verify_def auth_hash_password_def sample_world_def sample_user_def sample_hash_def sample_evp_def)

lemma sample_mem: "node_mem_ok (ce_node sample_env) ''carol'' DEFAULT_ROOM"
  by (simp add: sample_env_def DEFAULT_ROOM_def node_mem_zero is_c_string_def)

theorem login_all_or_nothing_witness:
  "let res = cmd_handle_auth sample_env 7 ''carol'' ''no'' sample_world
   in fst res = CHAT_ERR_AUTH \<and> sessions (snd res) = sessions sample_world"
proof -
  let ?res = "cmd_handle_auth sample_env 7 ''carol'' ''no'' sample_world"
  have none: "sessions sample_world 7 = None" by (simp add: sample_world_simps)
  obtain st w' where r: "?res = (st, w')" by (cases ?res)
  have "fst ?res = CHAT_ERR_AUTH"
    by (simp add: cmd_handle_auth_def auth_verify_def auth_hash_password_def sample_world_def sample_user_def
        sample_hash_def sample_evp_def sample_env_def hex2_def digit_def)
  with r have st: "st = CHAT_ERR_AUTH" by simp
  from login_all_or_nothing [OF sample_world_inv sample_mem none r] have "sessions w' = sessions sample_world"
    by (simp add: st)
  with r st show ?thesis by (simp add: Let_def)
qed

lemma login_open:
  assumes "world_inv w" and "sessions w fd = None" and "open_fd w fd"
    and "u \<noteq> []" and "length u < MAX_USERNAME_LEN" and "pw \<noteq> []"
    and "auth_verify (ce_evp e) (sv_auth w) u pw = CHAT_OK"
    and "u \<notin> reg.online (sv_registry w)" and "ce_node e \<noteq> None" and "registry_count (sv_registry w) < MAX_CLIENTS"
  shows "fst (cmd_handle_auth e fd u pw w) = CHAT_OK \<and>
     wire_of (snd (cmd_handle_auth e fd u pw w)) fd = wire_of w fd @
       lines_of ([S_Welcome u, S_Room_Joined DEFAULT_ROOM] @
         (if length (history_text (sv_rooms w) DEFAULT_ROOM) \<le> 2038
          then [S_History (history_text (sv_rooms w) DEFAULT_ROOM)] else []) @ [S_Ok ''authenticated''])"
proof -
  let ?a = "auth_is_admin (sv_auth w) u"
  have add: "fst (registry_add (ce_node e) (sv_registry w) fd u DEFAULT_ROOM ?a) = CHAT_OK"
    using assms by (intro registry_add_succeeds) (simp_all add: world_inv_def)
  have new: "\<not> registry_username_exists (sv_registry w) u"
    using assms registry_username_exists_online by (simp add: world_inv_def)
  have lines: "snd (protocol_build_server_welcome 2048 u) = lines_of [S_Welcome u]"
    "snd (protocol_build_server_room_joined 2048 DEFAULT_ROOM) = lines_of [S_Room_Joined DEFAULT_ROOM]"
    using build_server_line [of "S_Welcome u" 2048] build_server_line [of "S_Room_Joined DEFAULT_ROOM" 2048] assms(5)
    by (simp_all add: DEFAULT_ROOM_def)
  show ?thesis
    using assms(3,4,6,7) new add
    by (simp add: cmd_handle_auth_def Let_def lines cmd_send_open reply_open history_send_open enqueue_open frame_simps)
qed

text \<open>
  Property C3. What a successful login sends: with the right password, a free name, a free
  place in the table and a connection that takes everything, the login succeeds and the
  client receives, in this order, the welcome, the lobby, the lobby's history when it fits a
  line, and the confirmation.
\<close>

theorem login_transcript:
  assumes "world_inv w" and "sessions w fd = None" and "open_fd w fd"
    and "u \<noteq> []" and "length u < MAX_USERNAME_LEN" and "pw \<noteq> []"
    and "auth_verify (ce_evp e) (sv_auth w) u pw = CHAT_OK"
    and "u \<notin> reg.online (sv_registry w)" and "ce_node e \<noteq> None" and "registry_count (sv_registry w) < MAX_CLIENTS"
  shows "fst (cmd_handle_auth e fd u pw w) = CHAT_OK \<and>
     wire_of (snd (cmd_handle_auth e fd u pw w)) fd = wire_of w fd @
       lines_of ([S_Welcome u, S_Room_Joined DEFAULT_ROOM] @
         (if length (history_text (sv_rooms w) DEFAULT_ROOM) \<le> 2038
          then [S_History (history_text (sv_rooms w) DEFAULT_ROOM)] else []) @ [S_Ok ''authenticated''])"
  using assms by (rule login_open)

theorem login_transcript_witness:
  "wire_of (snd (cmd_handle_auth sample_env 7 ''carol'' ''pw'' sample_world)) 7
     = lines_of [S_Welcome ''carol'', S_Room_Joined ''lobby'', S_History [], S_Ok ''authenticated'']"
proof -
  have none: "sessions sample_world 7 = None" by (simp add: sample_world_simps)
  have v: "auth_verify (ce_evp sample_env) (sv_auth sample_world) ''carol'' ''pw'' = CHAT_OK"
    using sample_auth by (simp add: sample_env_def)
  have off: "''carol'' \<notin> reg.online (sv_registry sample_world)"
    using sample_world_simps(1) by (auto simp: reg.online_def split: if_splits)
  have c: "registry_count (sv_registry sample_world) < MAX_CLIENTS" "ce_node sample_env \<noteq> None"
    by (simp_all add: sample_world_def sample_registry_def registry_count_def registry_add_def
        registry_empty_def Let_def sample_env_def zero_node_def strncpy_def c_str_def)
  have h: "history_text (sv_rooms sample_world) DEFAULT_ROOM = []"
    by (simp add: sample_world_def history_text_def mgr_log_def room_manager_init_def room_find_or_create_def
        room_manager_empty_def room_log_new new_room_def DEFAULT_ROOM_def room_log_def)
  show ?thesis
    using login_transcript [OF sample_world_inv none sample_world_simps(2) _ _ _ v off c(2) c(1)] h
    by (simp add: sample_world_simps DEFAULT_ROOM_def)
qed

lemma auth_script:
  assumes "nt_script (w_net w) = (\<lambda>_. [])"
  shows "nt_script (w_net (snd (cmd_handle_auth e fd u pw w))) = (\<lambda>_. [])"
proof -
  have send: "nt_script (w_net (snd (cmd_send_response fd line w))) = (\<lambda>_. [])"
    if "nt_script (w_net w) = (\<lambda>_. [])" for line w
    using that by (simp add: cmd_send_response_def net_send_def fun_eq_iff)
  have hist: "nt_script (w_net (snd (room_history_send_to_client mgr room (cmd_send_response fd) w))) = (\<lambda>_. [])"
    if "nt_script (w_net w) = (\<lambda>_. [])" for mgr room w
    using send [OF that] that by (simp add: history_send_cases)
  show ?thesis
    using assms by (simp add: cmd_handle_auth_def Let_def send hist send_err_def send_ok_def frame_simps)
qed

lemma auth_running:
  "sv_running (snd (cmd_handle_auth e fd u pw w)) = sv_running w"
  "nt_shutdown (w_net (snd (cmd_handle_auth e fd u pw w))) = nt_shutdown (w_net w)"
  by (simp_all add: cmd_handle_auth_def Let_def frame_simps split_beta)

text \<open>
  Property C15. Changing rooms: a client that is logged in and names another room moves there
  and nobody else moves; the departure is announced in the old room and then the arrival in
  the new one. A client that is not logged in, an empty name and the room the client is
  already in change nothing.
\<close>

theorem join_room_moves:
  assumes "world_inv w" and "is_c_string room" and "length room < MAX_ROOM_NAME_LEN"
    and "cmd_handle_join_room e fd room w = (st, w')"
  shows "world_inv w' \<and> sv_rooms w' = sv_rooms w \<and>
     (case sessions w fd of
        None \<Rightarrow> sessions w' = sessions w \<and> events w' = events w
      | Some (u, old, a) \<Rightarrow>
          if room \<noteq> [] \<and> room \<noteq> old then
            sessions w' = (sessions w)(fd \<mapsto> (u, room, a)) \<and>
            events w' = events w @ queued (ce_ev1 e) (room_event (ce_ev1 e) MQ_LEAVE u old) w @
              queued (ce_ev2 e) (room_event (ce_ev2 e) MQ_JOIN u room) w
          else sessions w' = sessions w \<and> events w' = events w)"
  using assms by (rule cmd_handle_join_room_spec)

theorem join_room_moves_witness:
  "let w' = snd (cmd_handle_join_room sample_env 6 ''dev'' sample_world)
   in sessions w' 6 = Some (''bob'', ''dev'', False) \<and> sessions w' 5 = Some (''alice'', ''lobby'', True) \<and>
      map event_view (events w') = [(MQ_LEAVE, ''bob'', ''lobby'', []), (MQ_JOIN, ''bob'', ''dev'', [])]"
proof -
  obtain st w' where r: "cmd_handle_join_room sample_env 6 ''dev'' sample_world = (st, w')"
    by (cases "cmd_handle_join_room sample_env 6 ''dev'' sample_world")
  have rm: "is_c_string ''dev''" by (simp add: is_c_string_def)
  have mem: "event_mem_ok sample_event ''bob'' ''lobby''" "event_mem_ok sample_event ''bob'' ''dev''"
    by (rule sample_event_mem; simp add: is_c_string_def)+
  from join_room_moves [OF sample_world_inv rm _ r] r show ?thesis
    by (simp add: sample_world_simps sample_queued sample_env_simps room_event_view mem)
qed

text \<open>
  Property C16. A chat message of a client that is logged in goes under the client's name to
  the history of the client's room, which keeps its last 100 entries, and to the queue of
  the broadcaster; other rooms' histories and all sessions stay. The history loses the
  message only when the room has none yet and cannot be created. A client that is not logged
  in and an empty message change nothing.
\<close>

theorem msg_logged_and_queued:
  assumes "world_inv w" and "cmd_handle_msg e fd content w = (st, w')"
  shows "world_inv w' \<and> sessions w' = sessions w \<and>
     (case sessions w fd of
        None \<Rightarrow> logs w' = logs w \<and> events w' = events w
      | Some (u, room, a) \<Rightarrow>
          if content = [] then logs w' = logs w \<and> events w' = events w
          else
            logs w' = (if room_available (ce_calloc e) (sv_rooms w) room
              then (logs w)(room := lastn MAX_ROOM_HISTORY
                (logs w room @ [history_entry_of (ce_localtime e) u content (ce_now e)]))
              else logs w) \<and>
            events w' = events w @ queued (ce_ev1 e) (chat_event e u room content) w)"
proof (cases "sessions w fd")
  case None
  with cmd_handle_msg_spec [OF assms] show ?thesis by simp
next
  case (Some s)
  obtain u room a where s: "sessions w fd = Some (u, room, a)" using Some by (cases s) auto
  have nm: "room_name_ok room"
    using registry_sessions_short [OF world_invD(1) [OF assms(1)] s] by (simp add: room_name_ok_def)
  from cmd_handle_msg_spec [OF assms] s show ?thesis
    using room_history_add_spec [OF world_invD(2) [OF assms(1)] nm] room_history_add_OK by simp
qed

theorem msg_logged_and_queued_witness:
  "let w' = snd (cmd_handle_msg sample_env 6 ''hi'' sample_world)
   in map event_view (events w') = [(MQ_CHAT, ''bob'', ''lobby'', ''hi'')] \<and>
      map he_content (logs w' ''lobby'') = [''hi'']"
proof -
  obtain st w' where r: "cmd_handle_msg sample_env 6 ''hi'' sample_world = (st, w')"
    by (cases "cmd_handle_msg sample_env 6 ''hi'' sample_world")
  have mem: "event_mem_ok sample_event ''bob'' ''lobby''"
    by (rule sample_event_mem; simp add: is_c_string_def)
  have chat: "copy_ok (replicate 512 NUL) ''hi'' 512" by (simp add: copy_ok_def is_c_string_def)
  have rooms: "room_available True (sv_rooms sample_world) ''lobby''" "logs sample_world ''lobby'' = []"
    by (simp_all add: sample_world_def room_available_def room_manager_init_def room_find_or_create_def
        room_manager_empty_def new_room_def DEFAULT_ROOM_def mgr_log_def room_log_def)
  from msg_logged_and_queued [OF sample_world_inv r] r show ?thesis
    by (simp add: sample_world_simps sample_queued sample_env_simps chat_event_view mem chat rooms lastn_all
        history_entry_of_def)
qed

text \<open>
  Property C14. A private message reaches the user it names and nobody else: between two
  users that are online, whose connections take everything, exactly one line, the sender's
  name, the time and the text, goes to the target's connection and the confirmation to the
  sender's; no other connection receives a byte and the shared state stays.
\<close>

theorem pm_delivery:
  assumes "world_inv w" and "sessions w fd = Some (u, rm, a)" and "sessions w tfd = Some (target, trm, ta)"
    and "u \<noteq> target" and "0 \<le> tfd" and "target \<noteq> []" and "content \<noteq> []" and "length content < MAX_MSG_LEN"
    and "localtime_ok (ce_localtime e)" and "open_fd w fd" and "open_fd w tfd"
    and "cmd_handle_pm e fd target content w = (st, w')"
  shows "st = CHAT_OK \<and>
     nt_wire (w_net w') = (nt_wire (w_net w))(
       tfd := wire_of w tfd @ lines_of
         [S_Pm u (format_timestamp (ce_localtime e) (ce_now e) TIMESTAMP_LEN) content],
       fd := wire_of w fd @ lines_of [S_Ok ''PM delivered'']) \<and>
     sv_registry w' = sv_registry w \<and> sv_queue w' = sv_queue w \<and> sv_rooms w' = sv_rooms w"
proof -
  let ?ts = "format_timestamp (ce_localtime e) (ce_now e) TIMESTAMP_LEN"
  have "fd \<noteq> tfd" using assms(2-4) by auto
  have tgt: "registry_get_sockfd_by_username (sv_registry w) target = tfd"
    using registry_get_sockfd_sessions(1) [OF world_invD(1) [OF assms(1)] assms(3)] .
  have "length u < 32" using registry_sessions_short(1) [OF world_invD(1) [OF assms(1)] assms(2)] .
  moreover have "length ?ts < 32" using format_timestamp_ok [OF assms(9)] by (simp add: ts_ok_def)
  ultimately have line: "snd (protocol_build_server_pm 2048 u ?ts content) = lines_of [S_Pm u ?ts content]"
    using build_server_line [of "S_Pm u ?ts content" 2048] assms(8) by simp
  let ?w1 = "snd (cmd_send_response tfd (lines_of [S_Pm u ?ts content]) w)"
  have pm: "cmd_handle_pm e fd target content w = send_ok fd ''PM delivered'' ?w1"
    using assms tgt line \<open>fd \<noteq> tfd\<close>
    by (simp add: cmd_handle_pm_def lookup_simps Let_def cmd_send_open)
  have w1: "open_fd ?w1 fd" "wire_of ?w1 tfd = wire_of w tfd @ lines_of [S_Pm u ?ts content]"
    using assms(10,11) cmd_send_open [OF assms(11)] by simp_all
  have "nt_wire (w_net (snd (send_ok fd ''PM delivered'' ?w1))) x = ((nt_wire (w_net w))(
       tfd := wire_of w tfd @ lines_of [S_Pm u ?ts content],
       fd := wire_of w fd @ lines_of [S_Ok ''PM delivered''])) x" for x
    using w1 reply_open(3) [OF w1(1), of "''PM delivered''"] \<open>fd \<noteq> tfd\<close>
    by (cases "x = fd"; cases "x = tfd") (simp_all add: frame_simps)
  moreover have "fst (send_ok fd ''PM delivered'' ?w1) = CHAT_OK"
    using w1(1) by (simp add: reply_open)
  moreover have "st = fst (send_ok fd ''PM delivered'' ?w1)" "w' = snd (send_ok fd ''PM delivered'' ?w1)"
    using assms(12) pm by simp_all
  ultimately show ?thesis by (simp only: fun_eq_iff) (simp add: frame_simps)
qed

theorem pm_delivery_witness:
  "let w' = snd (cmd_handle_pm sample_env 5 ''bob'' ''hello there'' sample_world)
   in wire_of w' 6 = ''PM alice unknown hello there'' @ [LF] \<and> wire_of w' 5 = ''OK PM delivered'' @ [LF]"
proof -
  obtain st w' where r: "cmd_handle_pm sample_env 5 ''bob'' ''hello there'' sample_world = (st, w')"
    by (cases "cmd_handle_pm sample_env 5 ''bob'' ''hello there'' sample_world")
  have s: "sessions sample_world 5 = Some (''alice'', ''lobby'', True)"
      "sessions sample_world 6 = Some (''bob'', ''lobby'', False)"
    by (simp_all add: sample_world_simps)
  have lt: "localtime_ok (ce_localtime sample_env)" by (simp add: localtime_ok_def sample_env_simps)
  show ?thesis
    using pm_delivery [OF sample_world_inv s _ _ _ _ _ lt sample_world_simps(2) sample_world_simps(2) r] r
    by (simp add: sample_world_simps sample_env_simps format_timestamp_def)
qed

text \<open>
  Property C17. Only an administrator kicks, and only somebody else who is online: a
  connection is shut down by the command exactly when the caller's session has the admin
  flag and the name is that of another session, and it is that session's connection. The
  tables stay as they are; the session goes when its own thread notices.
\<close>

theorem kick_needs_admin:
  assumes "world_inv w" and "\<forall>x s. sessions w x = Some s \<longrightarrow> 0 \<le> x"
    and "cmd_handle_kick fd target w = (st, w')"
  shows "nt_shutdown (w_net w') =
       (case sessions w fd of
          Some (u, rm, True) \<Rightarrow>
            if target \<noteq> [] \<and> u \<noteq> target \<and> target \<in> reg.online (sv_registry w)
            then registry_get_sockfd_by_username (sv_registry w) target # nt_shutdown (w_net w)
            else nt_shutdown (w_net w)
        | _ \<Rightarrow> nt_shutdown (w_net w)) \<and>
     (target \<in> reg.online (sv_registry w) \<longrightarrow>
        (\<exists>rm a. sessions w (registry_get_sockfd_by_username (sv_registry w) target) = Some (target, rm, a))) \<and>
     sv_registry w' = sv_registry w"
proof -
  note inv = world_invD(1) [OF assms(1)]
  let ?tfd = "registry_get_sockfd_by_username (sv_registry w) target"
  have on: "\<exists>rm a. sessions w ?tfd = Some (target, rm, a)" if "target \<in> reg.online (sv_registry w)"
    using that registry_get_sockfd_sessions(1) [OF inv] by (auto simp: reg.online_def)
  with assms(2) have pos: "target \<in> reg.online (sv_registry w) \<Longrightarrow> 0 \<le> ?tfd" by blast
  have off: "?tfd = -1" if "target \<notin> reg.online (sv_registry w)"
    using registry_get_sockfd_sessions(2) [OF inv that] .
  have w': "w' = snd (cmd_handle_kick fd target w)" using assms(3) by simp
  have "nt_shutdown (w_net w') =
       (case sessions w fd of
          Some (u, rm, True) \<Rightarrow>
            if target \<noteq> [] \<and> u \<noteq> target \<and> target \<in> reg.online (sv_registry w)
            then ?tfd # nt_shutdown (w_net w) else nt_shutdown (w_net w)
        | _ \<Rightarrow> nt_shutdown (w_net w))"
    unfolding w' using pos off
    by (cases "target \<in> reg.online (sv_registry w)")
      (auto simp: cmd_handle_kick_def lookup_simps [OF assms(1)] registry_is_admin_sessions frame_simps Let_def
        split: option.split bool.split)
  with on show ?thesis unfolding w' by (simp add: cmd_handle_quiet)
qed

theorem kick_needs_admin_witness:
  "nt_shutdown (w_net (snd (cmd_handle_kick 5 ''bob'' sample_world))) = [6]"
proof -
  obtain st w' where r: "cmd_handle_kick 5 ''bob'' sample_world = (st, w')"
    by (cases "cmd_handle_kick 5 ''bob'' sample_world")
  have pos: "\<forall>x s. sessions sample_world x = Some s \<longrightarrow> 0 \<le> x" by (simp add: sample_world_simps)
  have s: "sessions sample_world 6 = Some (''bob'', ''lobby'', False)" by (simp add: sample_world_simps)
  then have on: "''bob'' \<in> reg.online (sv_registry sample_world)" by (auto simp: reg.online_def)
  have "registry_get_sockfd_by_username (sv_registry sample_world) ''bob'' = 6"
    using registry_get_sockfd_sessions(1) [OF world_invD(1) [OF sample_world_inv] s] .
  with kick_needs_admin [OF sample_world_inv pos r] r on show ?thesis
    by (simp add: sample_world_simps)
qed

text \<open>
  A login, a change of rooms, a chat message and the requests for the list and
  the history write to the caller's own connection only: whatever they do, no other
  connection receives a byte from them, and none is shut down or closed.
\<close>

theorem commands_write_to_caller:
  assumes "other \<noteq> fd"
    and "w' \<in> {snd (cmd_handle_auth e fd u pw w), snd (cmd_handle_join_room e fd room w),
               snd (cmd_handle_msg e fd content w), snd (cmd_handle_list fd w), snd (cmd_handle_history fd w)}"
  shows "wire_of w' other = wire_of w other \<and> nt_shutdown (w_net w') = nt_shutdown (w_net w) \<and>
         nt_closed (w_net w') = nt_closed (w_net w)"
  using assms
  by (auto simp: cmd_handle_auth_def cmd_handle_join_room_def cmd_handle_msg_def cmd_handle_list_def
      cmd_handle_history_def Let_def frame_simps split: prod.split)

theorem commands_write_to_caller_witness:
  "wire_of (snd (cmd_handle_list 5 sample_world)) 6 = []"
  using commands_write_to_caller [of 6 5 "snd (cmd_handle_list 5 sample_world)" sample_env _ _ sample_world]
  by (simp add: sample_world_simps)

text \<open>
  A client that leaves is out of the table before its descriptor is closed, so
  that the kernel cannot hand the descriptor to a new connection while the table still has
  it: the call is the close of a world without the session. The departure is announced in
  the room the client was in, and no other session changes.
\<close>

theorem logout_before_close:
  assumes "world_inv w" and "authenticated \<longleftrightarrow> sessions w fd \<noteq> None" and "authenticated \<Longrightarrow> username \<noteq> []"
  shows "\<exists>w1. cmd_disconnect_client ev fd username authenticated w = sys_close fd w1 \<and> world_inv w1 \<and>
     sessions w1 = (sessions w)(fd := None) \<and> nt_closed (w_net w1) = nt_closed (w_net w) \<and>
     events w1 = events w @
       (case sessions w fd of None \<Rightarrow> []
        | Some (_, rm, _) \<Rightarrow> queued ev (room_event ev MQ_LEAVE username rm) w)"
proof -
  obtain w1 where w1: "cmd_disconnect_client ev fd username authenticated w = sys_close fd w1"
      "nt_closed (w_net w1) = nt_closed (w_net w)"
    by (simp add: cmd_disconnect_client_def Let_def frame_simps split: prod.split)
  show ?thesis
    using cmd_disconnect_client_spec [OF assms, where ev = ev] w1 world_invD(2) [OF assms(1)]
    by (intro exI [of _ w1]) (simp add: frame_simps world_inv_def)
qed

theorem logout_before_close_witness:
  "sessions (cmd_disconnect_client sample_event 6 ''bob'' True sample_world) = [5 \<mapsto> (''alice'', ''lobby'', True)]"
proof -
  have s: "True \<longleftrightarrow> sessions sample_world 6 \<noteq> None" by (simp add: sample_world_simps)
  obtain w1 where "cmd_disconnect_client sample_event 6 ''bob'' True sample_world = sys_close 6 w1"
      "sessions w1 = (sessions sample_world)(6 := None)"
    using logout_before_close [OF sample_world_inv s, of "''bob''" sample_event] by auto
  then show ?thesis by (simp add: frame_simps sample_world_simps)
qed
end
