(* ===== verification/Broadcaster.thy ===== *)
theory Broadcaster
  imports Command_Properties
begin

text \<open>
  \<open>src/server/broadcaster.c\<close>: the thread that takes the events from the queue, makes a
  protocol line of each and sends it to every client in the event's room. The clients are
  visited in the order of the registry's list. One turn of the loop is
  \<open>broadcaster_iter\<close>, with no other thread in between (for that, see \<open>Interleaving\<close>); the loop itself is given fuel, one unit per turn, and one more turn
  than there are events in the queue is enough for it to stop or wait
  (\<open>broadcaster_drain\<close>).
\<close>

section \<open>Sending to a room\<close>

definition send_to_client :: "string \<Rightarrow> string \<Rightarrow> client_node \<Rightarrow> world \<Rightarrow> chat_status \<times> world" where
  "send_to_client line room node w =
     (if c_str (cn_room node) \<noteq> room then (CHAT_OK, w)
      else
        let (st, w') = net_send send_all (cn_sockfd node) line w
        in if st \<noteq> CHAT_OK then (CHAT_ERR_IO, w') else (CHAT_OK, w'))"

definition broadcast_line_to_room :: "string \<Rightarrow> string \<Rightarrow> world \<Rightarrow> world" where
  "broadcast_line_to_room room line w =
     snd (registry_foreach (sv_registry w) (send_to_client line room) w)"

section \<open>The loop\<close>

text \<open>The line the \<open>switch\<close> builds for an event, and whether it fits the buffer.\<close>

definition event_line :: "(int \<Rightarrow> tm option) \<Rightarrow> mq_message \<Rightarrow> chat_status \<times> string" where
  "event_line lt msg =
     (let username = c_str (mm_username msg); room = c_str (mm_room msg);
          ts = format_timestamp lt (mm_timestamp msg) TIMESTAMP_LEN
      in case mm_type msg of
           MQ_CHAT \<Rightarrow> protocol_build_server_broadcast MAX_LINE_LEN username ts room (c_str (mm_content msg))
         | MQ_JOIN \<Rightarrow> protocol_build_server_user_join MAX_LINE_LEN username room
         | MQ_ROOM_JOIN \<Rightarrow> protocol_build_server_user_join MAX_LINE_LEN username room
         | MQ_LEAVE \<Rightarrow> protocol_build_server_user_left MAX_LINE_LEN username room
         | MQ_ROOM_LEAVE \<Rightarrow> protocol_build_server_user_left MAX_LINE_LEN username room
         | MQ_SHUTDOWN \<Rightarrow> (CHAT_ERR, []))"

definition broadcast_event :: "(int \<Rightarrow> tm option) \<Rightarrow> mq_message \<Rightarrow> world \<Rightarrow> world" where
  "broadcast_event lt msg w =
     (let (st, line) = event_line lt msg
      in if st = CHAT_OK then broadcast_line_to_room (c_str (mm_room msg)) line w else w)"

datatype bcast_result = Bc_Wait | Bc_Fault | Bc_Exit world | Bc_Next world

text \<open>A turn past the check of \<open>running\<close>, and the whole turn.\<close>

definition broadcaster_turn :: "(int \<Rightarrow> tm option) \<Rightarrow> world \<Rightarrow> bcast_result" where
  "broadcaster_turn lt w =
     (case mq_pop (sv_queue w) of
        Pop_Blocked \<Rightarrow> Bc_Wait
      | Pop_Fault \<Rightarrow> Bc_Fault
      | Pop_Returns st None q \<Rightarrow> Bc_Exit (w\<lparr>sv_queue := q\<rparr>)
      | Pop_Returns st (Some msg) q \<Rightarrow>
          (let w1 = w\<lparr>sv_queue := q\<rparr>
           in if st \<noteq> CHAT_OK then Bc_Exit w1
              else if mm_type msg = MQ_SHUTDOWN then Bc_Exit w1
              else Bc_Next (broadcast_event lt msg w1)))"

definition broadcaster_iter :: "(int \<Rightarrow> tm option) \<Rightarrow> world \<Rightarrow> bcast_result" where
  "broadcaster_iter lt w = (if \<not> sv_running w then Bc_Exit w else broadcaster_turn lt w)"

datatype bcast_end = Out_Of_Fuel | Faulted | Waiting world | Ended world

fun broadcaster_thread :: "nat \<Rightarrow> (int \<Rightarrow> tm option) \<Rightarrow> world \<Rightarrow> bcast_end" where
  "broadcaster_thread 0 lt w = Out_Of_Fuel"
| "broadcaster_thread (Suc fuel) lt w =
     (case broadcaster_iter lt w of
        Bc_Wait \<Rightarrow> Waiting w
      | Bc_Fault \<Rightarrow> Faulted
      | Bc_Exit w' \<Rightarrow> Ended w'
      | Bc_Next w' \<Rightarrow> broadcaster_thread fuel lt w')"

section \<open>Facts\<close>

lemma send_to_client_frame [frame_simps]:
  "sv_running (snd (send_to_client line room n w)) = sv_running w"
  "sv_active_connections (snd (send_to_client line room n w)) = sv_active_connections w"
  "sv_registry (snd (send_to_client line room n w)) = sv_registry w"
  "sv_queue (snd (send_to_client line room n w)) = sv_queue w"
  "sv_rooms (snd (send_to_client line room n w)) = sv_rooms w"
  "sv_auth (snd (send_to_client line room n w)) = sv_auth w"
  "nt_shutdown (w_net (snd (send_to_client line room n w))) = nt_shutdown (w_net w)"
  "nt_closed (w_net (snd (send_to_client line room n w))) = nt_closed (w_net w)"
  "fd \<noteq> cn_sockfd n \<Longrightarrow> wire_of (snd (send_to_client line room n w)) fd = wire_of w fd"
  by (simp_all add: send_to_client_def split_beta Let_def frame_simps)

lemma foreach_frame:
  "sv_running (snd (foreach_loop (send_to_client line room) ns w)) = sv_running w \<and>
   sv_active_connections (snd (foreach_loop (send_to_client line room) ns w)) = sv_active_connections w \<and>
   sv_registry (snd (foreach_loop (send_to_client line room) ns w)) = sv_registry w \<and>
   sv_queue (snd (foreach_loop (send_to_client line room) ns w)) = sv_queue w \<and>
   sv_rooms (snd (foreach_loop (send_to_client line room) ns w)) = sv_rooms w \<and>
   sv_auth (snd (foreach_loop (send_to_client line room) ns w)) = sv_auth w \<and>
   nt_shutdown (w_net (snd (foreach_loop (send_to_client line room) ns w))) = nt_shutdown (w_net w) \<and>
   nt_closed (w_net (snd (foreach_loop (send_to_client line room) ns w))) = nt_closed (w_net w)"
  by (induction ns arbitrary: w) (simp_all add: split_beta Let_def frame_simps)

lemma broadcast_frame [frame_simps]:
  "sv_running (broadcast_line_to_room room line w) = sv_running w"
  "sv_active_connections (broadcast_line_to_room room line w) = sv_active_connections w"
  "sv_registry (broadcast_line_to_room room line w) = sv_registry w"
  "sv_queue (broadcast_line_to_room room line w) = sv_queue w"
  "sv_rooms (broadcast_line_to_room room line w) = sv_rooms w"
  "sv_auth (broadcast_line_to_room room line w) = sv_auth w"
  "nt_shutdown (w_net (broadcast_line_to_room room line w)) = nt_shutdown (w_net w)"
  "nt_closed (w_net (broadcast_line_to_room room line w)) = nt_closed (w_net w)"
  by (simp_all add: broadcast_line_to_room_def registry_foreach_def foreach_frame)

lemma broadcast_event_frame [frame_simps]:
  "sv_running (broadcast_event lt m w) = sv_running w"
  "sv_active_connections (broadcast_event lt m w) = sv_active_connections w"
  "sv_registry (broadcast_event lt m w) = sv_registry w"
  "sv_queue (broadcast_event lt m w) = sv_queue w"
  "sv_rooms (broadcast_event lt m w) = sv_rooms w"
  "sv_auth (broadcast_event lt m w) = sv_auth w"
  "nt_shutdown (w_net (broadcast_event lt m w)) = nt_shutdown (w_net w)"
  "nt_closed (w_net (broadcast_event lt m w)) = nt_closed (w_net w)"
  by (simp_all add: broadcast_event_def split_beta frame_simps)

text \<open>Clients that are not in the list receive nothing.\<close>

lemma foreach_other:
  "fd \<notin> cn_sockfd ` set ns \<Longrightarrow> wire_of (snd (foreach_loop (send_to_client line room) ns w)) fd = wire_of w fd"
  by (induction ns arbitrary: w) (auto simp: split_beta Let_def frame_simps)

text \<open>The clients of the room get the line once when nothing fails.\<close>

lemma foreach_open:
  "distinct (map cn_sockfd ns) \<Longrightarrow> \<forall>n \<in> set ns. open_fd w (cn_sockfd n) \<Longrightarrow>
   fst (foreach_loop (send_to_client line room) ns w) = CHAT_OK \<and>
   nt_script (w_net (snd (foreach_loop (send_to_client line room) ns w))) = nt_script (w_net w) \<and>
   wire_of (snd (foreach_loop (send_to_client line room) ns w)) fd =
     (if \<exists>n \<in> set ns. cn_sockfd n = fd \<and> c_str (cn_room n) = room then wire_of w fd @ line else wire_of w fd)"
proof (induction ns arbitrary: w)
  case Nil
  then show ?case by simp
next
  case (Cons n ns)
  let ?w1 = "snd (send_to_client line room n w)"
  have op: "open_fd w (cn_sockfd n)" using Cons.prems by simp
  have s: "fst (send_to_client line room n w) = CHAT_OK" "nt_script (w_net ?w1) = nt_script (w_net w)"
    "wire_of ?w1 fd = (if cn_sockfd n = fd \<and> c_str (cn_room n) = room then wire_of w fd @ line else wire_of w fd)"
    using net_send_all_open [OF op, of line] by (auto simp: send_to_client_def split_beta)
  have "\<forall>m \<in> set ns. open_fd ?w1 (cn_sockfd m)" "distinct (map cn_sockfd ns)"
    using Cons.prems s(2) by (simp_all add: open_fd_def)
  note IH = Cons.IH [OF this(2,1)]
  have fresh: "\<forall>m \<in> set ns. cn_sockfd m \<noteq> cn_sockfd n"
    using Cons.prems(1) by (auto simp: image_iff)
  show ?case
    using IH s fresh by (auto simp: split_beta)
qed

lemma sessions_in_room:
  assumes "registry_inv reg"
  shows "(\<exists>n \<in> set (cr_nodes reg). cn_sockfd n = fd \<and> c_str (cn_room n) = room)
     \<longleftrightarrow> (\<exists>u a. registry_sessions reg fd = Some (u, room, a))"
  using assms by (auto simp: registry_sessions_node node_view_def)

text \<open>Who is in a room.\<close>

definition in_room :: "world \<Rightarrow> int \<Rightarrow> string \<Rightarrow> bool" where
  "in_room w fd room \<longleftrightarrow> (case sessions w fd of Some (_, rm, _) \<Rightarrow> rm = room | None \<Rightarrow> False)"

lemma in_room_iff: "in_room w fd room \<longleftrightarrow> (\<exists>u a. sessions w fd = Some (u, room, a))"
  by (auto simp: in_room_def split: option.split)

definition all_open :: "world \<Rightarrow> bool" where
  "all_open w \<longleftrightarrow> (\<forall>fd. sessions w fd \<noteq> None \<longrightarrow> open_fd w fd)"

lemma broadcast_open:
  assumes inv: "registry_inv (sv_registry w)" and op: "all_open w"
  shows "nt_script (w_net (broadcast_line_to_room room line w)) = nt_script (w_net w)"
    and "wire_of (broadcast_line_to_room room line w) fd
      = (if in_room w fd room then wire_of w fd @ line else wire_of w fd)"
proof -
  let ?ns = "cr_nodes (sv_registry w)"
  have d: "distinct (map cn_sockfd ?ns)" using inv by (simp add: registry_inv_def)
  have o: "\<forall>n \<in> set ?ns. open_fd w (cn_sockfd n)"
  proof
    fix n
    assume "n \<in> set ?ns"
    then have "sessions w (cn_sockfd n) = Some (node_view n)"
      using inv by (auto simp: registry_sessions_node)
    with op show "open_fd w (cn_sockfd n)" by (metis all_open_def option.distinct(1))
  qed
  show "nt_script (w_net (broadcast_line_to_room room line w)) = nt_script (w_net w)"
    "wire_of (broadcast_line_to_room room line w) fd
      = (if in_room w fd room then wire_of w fd @ line else wire_of w fd)"
    using foreach_open [OF d o, of line room fd] sessions_in_room [OF inv, of fd room]
    by (simp_all add: broadcast_line_to_room_def registry_foreach_def in_room_iff)
qed


text \<open>What a client receives of a list of events: the lines of those in its room.\<close>

definition event_bytes :: "(int \<Rightarrow> tm option) \<Rightarrow> string option \<Rightarrow> mq_message \<Rightarrow> string" where
  "event_bytes lt room msg =
     (if room = Some (c_str (mm_room msg)) \<and> fst (event_line lt msg) = CHAT_OK
      then snd (event_line lt msg) else [])"

definition room_of :: "world \<Rightarrow> int \<Rightarrow> string option" where
  "room_of w fd = map_option (\<lambda>(u, rm, a). rm) (sessions w fd)"

lemma in_room_room_of: "in_room w fd room \<longleftrightarrow> room_of w fd = Some room"
  by (auto simp: in_room_def room_of_def split: option.split)

lemma broadcast_event_open:
  assumes inv: "registry_inv (sv_registry w)" and op: "all_open w"
  shows "nt_script (w_net (broadcast_event lt msg w)) = nt_script (w_net w)"
    and "wire_of (broadcast_event lt msg w) fd = wire_of w fd @ event_bytes lt (room_of w fd) msg"
  using broadcast_open [OF inv op]
  by (auto simp: broadcast_event_def event_bytes_def split_beta in_room_room_of)

lemma all_open_frame:
  "sv_registry w' = sv_registry w \<Longrightarrow> nt_script (w_net w') = nt_script (w_net w) \<Longrightarrow> all_open w' = all_open w"
  by (simp add: all_open_def open_fd_def)

lemma broadcaster_iter_Cons:
  assumes "mq_inv (sv_queue w)" and "events w = m # ms" and "sv_running w" and "mm_type m \<noteq> MQ_SHUTDOWN"
  shows "\<exists>q. broadcaster_iter lt w = Bc_Next (broadcast_event lt m (w\<lparr>sv_queue := q\<rparr>)) \<and> mq_inv q \<and>
           mq_contents q = ms \<and> mq_shutdown q = mq_shutdown (sv_queue w)"
proof -
  obtain q where "mq_pop (sv_queue w) = Pop_Returns CHAT_OK (Some m) q" "mq_inv q"
      "mq_abs q = (ms, mq_shutdown (sv_queue w))"
    using mq_pop_Cons [OF assms(1,2)] by blast
  with assms(3,4) show ?thesis by (intro exI [of _ q]) (simp add: broadcaster_iter_def broadcaster_turn_def mq_abs_def)
qed

lemma broadcaster_drain:
  assumes "mq_inv (sv_queue w)" and "registry_inv (sv_registry w)" and "sv_running w"
    and "\<not> mq_shutdown (sv_queue w)" and "\<forall>m \<in> set (events w). mm_type m \<noteq> MQ_SHUTDOWN" and "all_open w"
    and "length (events w) < fuel"
  shows "\<exists>w'. broadcaster_thread fuel lt w = Waiting w' \<and> mq_inv (sv_queue w') \<and> events w' = [] \<and>
     sv_registry w' = sv_registry w \<and> sv_rooms w' = sv_rooms w \<and>
     (\<forall>fd. wire_of w' fd = wire_of w fd @ concat (map (event_bytes lt (room_of w fd)) (events w)))"
  using assms
proof (induction "events w" arbitrary: w fuel)
  case Nil
  obtain f where f: "fuel = Suc f" using Nil.prems(7) by (cases fuel) auto
  have e: "events w = []" using Nil.hyps by simp
  then have "mq_pop (sv_queue w) = Pop_Blocked"
    using mq_pop_empty [OF Nil.prems(1)] Nil.prems(4) by simp
  with e f Nil.prems show ?case by (simp add: broadcaster_iter_def broadcaster_turn_def)
next
  case (Cons m ms)
  have e: "events w = m # ms" using Cons.hyps(2) by simp
  obtain f where f: "fuel = Suc f" "length ms < f" using Cons.prems(7) e by (cases fuel) auto
  have nm: "mm_type m \<noteq> MQ_SHUTDOWN" using Cons.prems(5) e by simp
  obtain q where q: "broadcaster_iter lt w = Bc_Next (broadcast_event lt m (w\<lparr>sv_queue := q\<rparr>))" "mq_inv q"
      "mq_contents q = ms" "mq_shutdown q = mq_shutdown (sv_queue w)"
    using broadcaster_iter_Cons [OF Cons.prems(1) e Cons.prems(3) nm] by blast
  let ?w0 = "w\<lparr>sv_queue := q\<rparr>" and ?w1 = "broadcast_event lt m (w\<lparr>sv_queue := q\<rparr>)"
  have op: "all_open ?w0" using Cons.prems(6) by (simp add: all_open_def open_fd_def)
  note bc = broadcast_event_open [of ?w0 lt m, simplified, OF Cons.prems(2) op]
  have w1: "events ?w1 = ms" "sv_registry ?w1 = sv_registry w" "all_open ?w1" "\<And>fd. room_of ?w1 fd = room_of w fd"
    using q(3) op bc(1) by (simp_all add: frame_simps all_open_def open_fd_def room_of_def)
  have "\<exists>w'. broadcaster_thread f lt ?w1 = Waiting w' \<and> mq_inv (sv_queue w') \<and> events w' = [] \<and>
     sv_registry w' = sv_registry ?w1 \<and> sv_rooms w' = sv_rooms ?w1 \<and>
     (\<forall>fd. wire_of w' fd = wire_of ?w1 fd @ concat (map (event_bytes lt (room_of ?w1 fd)) (events ?w1)))"
    using Cons.hyps(1) [OF w1(1) [symmetric]] Cons.prems q e f w1 by (simp add: frame_simps)
  then show ?case
    using q(1) f(1) e w1 bc(2) by (auto simp: frame_simps room_of_def)
qed

section \<open>Properties\<close>

text \<open>
  Property C6. The broadcaster delivers every queued event, in the order of the queue, once
  to every client that is in the event's room and to nobody else, when the connections
  take what they are given; it then waits for the next event, and neither the table of
  sessions nor the histories change.
\<close>

theorem broadcaster_delivers:
  assumes "world_inv w" and "sv_running w" and "\<not> mq_shutdown (sv_queue w)" and "all_open w"
    and "\<forall>m \<in> set (events w). mm_type m \<noteq> MQ_SHUTDOWN"
  shows "\<exists>w'. broadcaster_thread (Suc (length (events w))) lt w = Waiting w' \<and> events w' = [] \<and> world_inv w' \<and>
     sessions w' = sessions w \<and> logs w' = logs w \<and>
     (\<forall>fd. wire_of w' fd = wire_of w fd @ concat (map (event_bytes lt (room_of w fd)) (events w)))"
proof -
  obtain w' where "broadcaster_thread (Suc (length (events w))) lt w = Waiting w'" "mq_inv (sv_queue w')"
      "events w' = []" "sv_registry w' = sv_registry w" "sv_rooms w' = sv_rooms w"
      "\<forall>fd. wire_of w' fd = wire_of w fd @ concat (map (event_bytes lt (room_of w fd)) (events w))"
    using broadcaster_drain [OF world_invD(3,1) [OF assms(1)] assms(2,3,5,4) lessI] by blast
  with assms(1) show ?thesis by (auto simp: world_inv_def)
qed

lemma mq_push_empty:
  "mq_inv (snd (mq_push True m mq_empty))" "mq_contents (snd (mq_push True m mq_empty)) = [m]"
  "\<not> mq_shutdown (snd (mq_push True m mq_empty))"
  using mq_push_spec [OF mq_inv_empty, of True m] by (simp_all add: sample_world_simps) (simp_all add: mq_empty_def)

theorem broadcaster_delivers_witness:
  "let w = sample_world\<lparr>sv_queue := snd (mq_push True (chat_event sample_env ''bob'' ''lobby'' ''hi'') mq_empty)\<rparr>
   in \<exists>w'. broadcaster_thread 2 (\<lambda>_. None) w = Waiting w' \<and>
        wire_of w' 5 = ''BROADCAST bob unknown lobby hi'' @ [LF]"
proof -
  let ?m = "chat_event sample_env ''bob'' ''lobby'' ''hi''"
  let ?w = "sample_world\<lparr>sv_queue := snd (mq_push True ?m mq_empty)\<rparr>"
  have inv: "world_inv ?w"
    using world_invD [OF sample_world_inv] mq_push_empty by (simp add: world_inv_def)
  have run: "sv_running ?w" by (simp add: sample_world_def)
  have op: "all_open ?w" using sample_world_simps(2) by (simp add: all_open_def open_fd_def)
  have e: "events ?w = [?m]" using mq_push_empty by simp
  have v: "event_view ?m = (MQ_CHAT, ''bob'', ''lobby'', ''hi'')"
    by (rule chat_event_view)
      (simp_all add: sample_env_simps sample_event_mem copy_ok_def is_c_string_def)
  then have ty: "\<forall>m \<in> set (events ?w). mm_type m \<noteq> MQ_SHUTDOWN" using e by (simp add: event_view_def)
  have line: "event_bytes (\<lambda>_. None) (Some ''lobby'') ?m = ''BROADCAST bob unknown lobby hi'' @ [LF]"
    using v by (simp add: event_bytes_def event_line_def event_view_def format_timestamp_def
        protocol_build_server_broadcast_def snprintf_line_def)
  have rm: "room_of ?w 5 = Some ''lobby''" by (simp add: room_of_def sample_world_simps)
  obtain w' where "broadcaster_thread (Suc (length (events ?w))) (\<lambda>_. None) ?w = Waiting w'"
      "wire_of w' 5 = wire_of ?w 5 @ concat (map (event_bytes (\<lambda>_. None) (room_of ?w 5)) (events ?w))"
    using broadcaster_delivers [OF inv run _ op ty] mq_push_empty(3) by fastforce
  then show ?thesis unfolding e rm Let_def using line
    by (intro exI [of _ w']) (simp add: sample_world_simps numeral_2_eq_2)
qed

text \<open>
  Property C38. A broadcast stops at the first client it cannot reach: once a send to a client
  of the room fails, the clients behind it in the list receive nothing of the line, although
  their own connections are sound.
\<close>

theorem broadcast_stops_at_failure:
  assumes "registry_inv (sv_registry w)" and "cr_nodes (sv_registry w) = ns @ n # ms"
    and "fst (foreach_loop (send_to_client line room) ns w) = CHAT_OK"
    and "c_str (cn_room n) = room"
    and "fst (net_send send_all (cn_sockfd n) line (snd (foreach_loop (send_to_client line room) ns w))) \<noteq> CHAT_OK"
    and "fd \<in> cn_sockfd ` set ms"
  shows "wire_of (broadcast_line_to_room room line w) fd = wire_of w fd"
proof -
  let ?w1 = "snd (foreach_loop (send_to_client line room) ns w)"
  have "foreach_loop (send_to_client line room) (ns @ n # ms) w
      = foreach_loop (send_to_client line room) (n # ms) ?w1"
    using assms(3) by (metis foreach_loop_append_ok prod.collapse)
  also have "\<dots> = foreach_loop (send_to_client line room) [n] ?w1"
    using assms(4,5) by (simp add: send_to_client_def split_beta)
  also have "\<dots> = foreach_loop (send_to_client line room) (ns @ [n]) w"
    using assms(3) by (metis foreach_loop_append_ok prod.collapse)
  finally have "broadcast_line_to_room room line w = snd (foreach_loop (send_to_client line room) (ns @ [n]) w)"
    using assms(2) by (simp add: broadcast_line_to_room_def registry_foreach_def)
  moreover have "fd \<notin> cn_sockfd ` set (ns @ [n])"
  proof -
    have "distinct (map cn_sockfd (ns @ n # ms))" using assms(1,2) by (simp add: registry_inv_def)
    then show ?thesis using assms(6) by (auto simp: disjoint_iff image_iff)
  qed
  ultimately show ?thesis using foreach_other by metis
qed


theorem broadcast_stops_at_failure_witness:
  "let w = sample_world\<lparr>w_net := (w_net sample_world)\<lparr>nt_script := (\<lambda>fd. if fd = 6 then [Send_Err] else [])\<rparr>\<rparr>
   in sessions w 5 = Some (''alice'', ''lobby'', True) \<and>
      wire_of (broadcast_line_to_room ''lobby'' ''hi'' w) 5 = []"
proof -
  let ?w = "sample_world\<lparr>w_net := (w_net sample_world)\<lparr>nt_script := (\<lambda>fd. if fd = 6 then [Send_Err] else [])\<rparr>\<rparr>"
  obtain n m where nodes: "cr_nodes sample_registry = [n, m]" "cn_sockfd n = 6" "cn_sockfd m = 5"
      "c_str (cn_room n) = ''lobby''"
    by (simp add: sample_registry_def registry_add_def registry_empty_def Let_def zero_node_def
        strncpy_def c_str_def)
  have reg: "sv_registry ?w = sample_registry" by (simp add: sample_world_def)
  have "wire_of (broadcast_line_to_room ''lobby'' ''hi'' ?w) 5 = wire_of ?w 5"
  proof (rule broadcast_stops_at_failure [of _ "[]" n "[m]"])
    show "registry_inv (sv_registry ?w)" unfolding reg using sample_registry_inv by simp
    show "cr_nodes (sv_registry ?w) = [] @ n # [m]" unfolding reg using nodes by simp
    show "fst (net_send send_all (cn_sockfd n) ''hi'' (snd (foreach_loop (send_to_client ''hi'' ''lobby'') [] ?w))) \<noteq> CHAT_OK"
      using nodes by (simp add: net_send_def)
  qed (use nodes in simp_all)
  then show ?thesis by (simp add: sample_world_simps)
qed

end
