(* ===== verification/Server.thy ===== *)
theory Server
  imports Broadcaster
begin

text \<open>
  \<open>src/server/server.c\<close> and \<open>src/server/main.c\<close>: the connection counter, the two socket loops
  of the server, the thread of one client, the accept loop, start and shutdown. A socket
  call whose result the program does not control is an argument.
\<close>

section \<open>The connection counter\<close>

definition conn_track_increment :: "world \<Rightarrow> world" where
  "conn_track_increment w = w\<lparr>sv_active_connections := sv_active_connections w + 1\<rparr>"

definition conn_track_decrement :: "world \<Rightarrow> world" where
  "conn_track_decrement w =
     (if sv_active_connections w > 0 then w\<lparr>sv_active_connections := sv_active_connections w - 1\<rparr> else w)"

definition conn_at_capacity :: "world \<Rightarrow> bool" where
  "conn_at_capacity w \<longleftrightarrow> sv_active_connections w \<ge> int MAX_CLIENTS"

section \<open>Socket loops\<close>

fun server_send_all :: "send_res list \<Rightarrow> string \<Rightarrow> nat \<Rightarrow> nat \<Rightarrow> chat_status \<times> string \<times> send_res list" where
  "server_send_all [] buf len sent = (CHAT_OK, take (len - sent) (drop sent buf), [])"
| "server_send_all (k # ks) buf len sent =
     (if sent < len then
        (case k of
           Send_EINTR \<Rightarrow> server_send_all ks buf len sent
         | Send_Err \<Rightarrow> (CHAT_ERR_IO, [], ks)
         | Send_Zero \<Rightarrow> (CHAT_ERR_IO, [], ks)
         | Sent n \<Rightarrow>
             (let m = min (Suc n) (len - sent);
                  (st, out, ks') = server_send_all ks buf len (sent + m)
              in (st, take m (drop sent buf) @ out, ks')))
      else (CHAT_OK, [], k # ks))"

definition send_response :: "int \<Rightarrow> string \<Rightarrow> world \<Rightarrow> chat_status \<times> world" where
  "send_response fd line w = net_send server_send_all fd line w"

text \<open>
  \<open>server_recv_line\<close> is not \<open>recv_line\<close>: when the peer closes the connection in the middle of
  a line it returns \<open>CHAT_OK\<close> without the terminating NUL and without trimming.
\<close>

fun server_recv_loop ::
  "recv_res list \<Rightarrow> cbuf \<Rightarrow> nat \<Rightarrow> nat \<Rightarrow> (chat_status \<times> cbuf \<times> recv_res list) option" where
  "server_recv_loop [] buf buflen pos =
     (if pos < buflen - 1 then None else Some (CHAT_OK, finish_line buf pos, []))"
| "server_recv_loop (r # rs) buf buflen pos =
     (if pos < buflen - 1 then
        (case r of
           Recv_EINTR \<Rightarrow> server_recv_loop rs buf buflen pos
         | Recv_Err \<Rightarrow> Some (CHAT_ERR_IO, buf, rs)
         | Recv_EOF \<Rightarrow> Some (if pos = 0 then CHAT_ERR_IO else CHAT_OK, buf, rs)
         | Byte c \<Rightarrow>
             if c = LF then Some (CHAT_OK, finish_line (buf[pos := c]) (pos + 1), rs)
             else server_recv_loop rs (buf[pos := c]) buflen (pos + 1))
      else Some (CHAT_OK, finish_line buf pos, r # rs))"

definition server_recv_line ::
  "recv_res list \<Rightarrow> cbuf \<Rightarrow> nat \<Rightarrow> (chat_status \<times> cbuf \<times> recv_res list) option" where
  "server_recv_line rs buf buflen =
     (if buflen < 2 then Some (CHAT_ERR, buf, rs) else server_recv_loop rs buf buflen 0)"

section \<open>The thread of a client\<close>

record handler =
  hd_fd :: int
  hd_line :: cbuf
  hd_username :: string
  hd_authenticated :: bool

definition disconnect_client :: "event_env \<Rightarrow> int \<Rightarrow> string \<Rightarrow> bool \<Rightarrow> world \<Rightarrow> world" where
  "disconnect_client ev fd username authenticated w =
     conn_track_decrement (cmd_disconnect_client ev fd username authenticated w)"

text \<open>An error response built in \<open>errline\<close> and sent; whether the loop goes on.\<close>

definition refuse :: "int \<Rightarrow> string \<Rightarrow> world \<Rightarrow> bool \<times> world" where
  "refuse fd msg w =
     (let (st, w') = send_response fd (snd (protocol_build_server_err MAX_LINE_LEN (Some msg))) w
      in (st = CHAT_OK, w'))"

text \<open>
  The body of the loop of \<open>client_handler\<close> after the line was read: whether the loop goes on
  (\<open>break\<close> and \<open>goto done\<close> both end it), the thread's variables and the shared state.
\<close>

definition handler_command :: "call_env \<Rightarrow> string \<Rightarrow> handler \<Rightarrow> world \<Rightarrow> bool \<times> handler \<times> world" where
  "handler_command e line h w =
     (let fd = hd_fd h; (pst, cmd) = protocol_parse_client_line line
      in if pst \<noteq> CHAT_OK then (let (go, w') = refuse fd ''invalid command'' w in (go, h, w'))
         else if \<not> hd_authenticated h then
           (if pc_cmd cmd \<noteq> CMD_AUTH
            then (let (go, w') = refuse fd ''authentication required: AUTH user pass'' w in (go, h, w'))
            else
              (let (st, w') = cmd_handle_auth e fd (pc_arg1 cmd) (pc_arg2 cmd) w
               in if st \<noteq> CHAT_OK then (False, h, w')
                  else (True, h\<lparr>hd_authenticated := True,
                                hd_username := take (MAX_USERNAME_LEN - 1) (pc_arg1 cmd)\<rparr>, w')))
         else
           (case pc_cmd cmd of
              CMD_JOIN_ROOM \<Rightarrow> (let (st, w') = cmd_handle_join_room e fd (pc_arg1 cmd) w in (st = CHAT_OK, h, w'))
            | CMD_MSG \<Rightarrow> (let (st, w') = cmd_handle_msg e fd (pc_arg2 cmd) w in (st = CHAT_OK, h, w'))
            | CMD_PM \<Rightarrow> (let (st, w') = cmd_handle_pm e fd (pc_arg1 cmd) (pc_arg2 cmd) w in (st = CHAT_OK, h, w'))
            | CMD_LIST \<Rightarrow> (let (st, w') = cmd_handle_list fd w in (st = CHAT_OK, h, w'))
            | CMD_HISTORY \<Rightarrow> (let (st, w') = cmd_handle_history fd w in (st = CHAT_OK, h, w'))
            | CMD_KICK \<Rightarrow> (let (st, w') = cmd_handle_kick fd (pc_arg1 cmd) w in (st = CHAT_OK, h, w'))
            | CMD_QUIT \<Rightarrow> (False, h, w)
            | _ \<Rightarrow> (let (go, w') = refuse fd ''unknown command'' w in (go, h, w'))))"

text \<open>A line takes at least one result of \<open>recv\<close>, so that the loop below ends.\<close>

lemma server_recv_loop_consumes:
  "server_recv_loop rs buf buflen pos = Some (st, b, rs') \<Longrightarrow> pos < buflen - 1 \<Longrightarrow> length rs' < length rs"
proof (induction rs buf buflen pos rule: server_recv_loop.induct)
  case (1 buf buflen pos)
  then show ?case by simp
next
  case (2 r rs buf buflen pos)
  show ?case
  proof (cases r)
    case (Byte c)
    show ?thesis
    proof (cases "c = LF \<or> Suc pos < buflen - 1")
      case True
      with "2" Byte show ?thesis by (auto split: if_splits simp: less_Suc_eq)
    next
      case False
      with "2.prems" Byte show ?thesis by (cases rs) auto
    qed
  next
    case Recv_EINTR
    with "2" show ?thesis by (auto simp: less_Suc_eq)
  qed (use "2.prems" in auto)
qed

lemma server_recv_line_consumes:
  "server_recv_line rs buf MAX_LINE_LEN = Some (st, b, rs') \<Longrightarrow> length rs' < length rs"
  by (auto simp: server_recv_line_def dest: server_recv_loop_consumes)

text \<open>
  \<open>client_handler\<close>: \<open>rs\<close> is what \<open>recv\<close> is going to give, \<open>envs k\<close> the parameters of the
  \<open>k\<close>th line, \<open>ev\<close> those of the departure. The result is \<^term>\<open>None\<close> when the thread is
  blocked in \<open>recv\<close>.
\<close>

function client_handler ::
  "(nat \<Rightarrow> call_env) \<Rightarrow> event_env \<Rightarrow> nat \<Rightarrow> recv_res list \<Rightarrow> handler \<Rightarrow> world \<Rightarrow> world option" where
  "client_handler envs ev k rs h w =
     (if \<not> sv_running w
      then Some (disconnect_client ev (hd_fd h) (hd_username h) (hd_authenticated h) w)
      else case server_recv_line rs (hd_line h) MAX_LINE_LEN of
             None \<Rightarrow> None
           | Some (st, line, rs') \<Rightarrow>
               if st \<noteq> CHAT_OK
               then Some (disconnect_client ev (hd_fd h) (hd_username h) (hd_authenticated h) w)
               else
                 (let (go, h', w') = handler_command (envs k) (c_str line) (h\<lparr>hd_line := line\<rparr>) w
                  in if go then client_handler envs ev (Suc k) rs' h' w'
                     else Some (disconnect_client ev (hd_fd h') (hd_username h') (hd_authenticated h') w')))"
  by pat_completeness auto
termination
  by (relation "measure (\<lambda>(envs, ev, k, rs, h, w). length rs)")
    (auto dest!: server_recv_line_consumes [unfolded MAX_LINE_LEN_def])

declare client_handler.simps [simp del]

text \<open>A thread as \<open>client_handler\<close> starts it; the line buffer is not initialised.\<close>

definition new_handler :: "int \<Rightarrow> cbuf \<Rightarrow> handler" where
  "new_handler fd line = \<lparr>hd_fd = fd, hd_line = line, hd_username = [], hd_authenticated = False\<rparr>"

section \<open>The accept loop\<close>

datatype accept_res = Accepted int | Accept_EINTR | Accept_Err

text \<open>
  One turn of the loop of \<open>server_run\<close>, given what \<open>accept\<close> returns and whether the thread's
  argument and the thread can be had: the descriptor whose thread was started, if any.
\<close>

definition accept_turn :: "accept_res \<Rightarrow> bool \<Rightarrow> bool \<Rightarrow> world \<Rightarrow> int option \<times> world" where
  "accept_turn res malloc_ok thread_ok w =
     (case res of
        Accept_EINTR \<Rightarrow> (None, w)
      | Accept_Err \<Rightarrow> (None, w)
      | Accepted client_fd \<Rightarrow>
          if conn_at_capacity w
          then (None, sys_close client_fd (snd (refuse client_fd ''server full (max 100 clients)'' w)))
          else
            let w1 = conn_track_increment w
            in if \<not> malloc_ok then (None, conn_track_decrement (sys_close client_fd w1))
               else if \<not> thread_ok then (None, conn_track_decrement (sys_close client_fd w1))
               else (Some client_fd, w1))"

section \<open>Start and shutdown\<close>

text \<open>\<open>signal_handler\<close>: whether \<open>g_server\<close> has been set.\<close>

definition signal_handler :: "bool \<Rightarrow> world \<Rightarrow> world" where
  "signal_handler g_server w = (if g_server then w\<lparr>sv_running := False\<rparr> else w)"

record init_env =
  ie_conn_mutex :: bool
  ie_registry_mutex :: bool
  ie_mq_mutex :: bool
  ie_mq_cond :: bool
  ie_rooms_mutex :: bool
  ie_rooms_mem :: bool
  ie_auth_mutex :: bool
  ie_auth_mems :: "bool list"
  ie_files :: "string \<Rightarrow> string option"

text \<open>
  \<open>server_init\<close>: what has been set up is destroyed again when a later part fails. The
  result is \<^term>\<open>None\<close> when destroying the queue follows a bad pointer.
\<close>

definition server_init :: "init_env \<Rightarrow> net \<Rightarrow> 16 word \<Rightarrow> string option \<Rightarrow> (chat_status \<times> world) option" where
  "server_init ie net port users_db =
     (let w0 = \<lparr>sv_listen_fd = -1, sv_port = port, sv_running = True, sv_active_connections = 0,
                sv_registry = registry_empty, sv_queue = mq_empty, sv_broadcaster_tid = False,
                sv_auth = \<lparr>ad_head = [], ad_db_path = []\<rparr>, sv_rooms = room_manager_empty, w_net = net\<rparr>
      in if \<not> ie_conn_mutex ie then Some (CHAT_ERR, w0)
         else
      let (st, reg) = registry_init (ie_registry_mutex ie); w1 = w0\<lparr>sv_registry := reg\<rparr>
      in if st \<noteq> CHAT_OK then Some (CHAT_ERR, w1)
         else
      let (st, q) = mq_init (ie_mq_mutex ie) (ie_mq_cond ie); w2 = w1\<lparr>sv_queue := q\<rparr>
      in if st \<noteq> CHAT_OK then Some (CHAT_ERR, w2\<lparr>sv_registry := registry_destroy (sv_registry w2)\<rparr>)
         else
      let (st, rooms) = room_manager_init (ie_rooms_mutex ie) (ie_rooms_mem ie); w3 = w2\<lparr>sv_rooms := rooms\<rparr>
      in if st \<noteq> CHAT_OK then
           map_option (\<lambda>q'. (CHAT_ERR, w3\<lparr>sv_queue := q', sv_registry := registry_destroy (sv_registry w3)\<rparr>))
             (mq_destroy (sv_queue w3))
         else
      let (st, auth) = auth_init (ie_files ie) (ie_auth_mutex ie) (ie_auth_mems ie) users_db;
          w4 = w3\<lparr>sv_auth := auth\<rparr>
      in if st \<noteq> CHAT_OK then
           map_option (\<lambda>q'. (CHAT_ERR, w4\<lparr>sv_rooms := room_manager_destroy (sv_rooms w4), sv_queue := q',
               sv_registry := registry_destroy (sv_registry w4)\<rparr>))
             (mq_destroy (sv_queue w4))
         else Some (CHAT_OK, w4))"

text \<open>
  What \<open>server_run\<close> does before its loop, given the descriptor of \<open>socket\<close> (negative for a
  failure) and whether \<open>setsockopt\<close>, \<open>bind\<close>, \<open>listen\<close> and \<open>pthread_create\<close> succeed.
\<close>

definition abandon_listener :: "world \<Rightarrow> chat_status \<times> world" where
  "abandon_listener w = (CHAT_ERR, (sys_close (sv_listen_fd w) w)\<lparr>sv_listen_fd := -1\<rparr>)"

definition server_listen :: "int \<Rightarrow> bool \<Rightarrow> bool \<Rightarrow> bool \<Rightarrow> bool \<Rightarrow> world \<Rightarrow> chat_status \<times> world" where
  "server_listen fd setsockopt_ok bind_ok listen_ok thread_ok w =
     (let w1 = w\<lparr>sv_listen_fd := fd\<rparr>
      in if sv_listen_fd w1 < 0 then (CHAT_ERR, w1)
         else if \<not> setsockopt_ok then abandon_listener w1
         else if \<not> bind_ok then abandon_listener w1
         else if \<not> listen_ok then abandon_listener w1
         else if \<not> thread_ok then abandon_listener w1
         else (CHAT_OK, w1\<lparr>sv_broadcaster_tid := True\<rparr>))"

text \<open>
  \<open>server_shutdown\<close> up to the \<open>pthread_join\<close> of the broadcaster: the sentinel is pushed after
  the queue was closed. The message on the stack is \<open>junk\<close>.
\<close>

definition server_shutdown :: "bool \<Rightarrow> mq_message \<Rightarrow> world \<Rightarrow> world" where
  "server_shutdown mem_ok junk w =
     (let w1 = w\<lparr>sv_running := False\<rparr>;
          w2 = (if sv_listen_fd w1 \<ge> 0 then (sys_close (sv_listen_fd w1) w1)\<lparr>sv_listen_fd := -1\<rparr> else w1);
          w3 = w2\<lparr>sv_queue := mq_signal_shutdown (sv_queue w2)\<rparr>
      in w3\<lparr>sv_queue := snd (mq_push mem_ok (junk\<lparr>mm_type := MQ_SHUTDOWN\<rparr>) (sv_queue w3))\<rparr>)"

definition server_destroy :: "world \<Rightarrow> world option" where
  "server_destroy w =
     (case mq_destroy (sv_queue w) of
        None \<Rightarrow> None
      | Some q \<Rightarrow>
          let w1 = w\<lparr>sv_queue := q, sv_registry := registry_destroy (sv_registry w),
                     sv_rooms := room_manager_destroy (sv_rooms w), sv_auth := auth_destroy (sv_auth w)\<rparr>
          in Some (if sv_listen_fd w1 \<ge> 0 then (sys_close (sv_listen_fd w1) w1)\<lparr>sv_listen_fd := -1\<rparr> else w1))"

text \<open>The arguments of \<open>main\<close>: the port and the database, or none for \<open>EXIT_FAILURE\<close>.\<close>

definition server_main_args :: "string list \<Rightarrow> (16 word \<times> string) option" where
  "server_main_args args =
     (if length args > 3 then None
      else
        case (if length args \<ge> 2 then parse_port (args ! 1) else (CHAT_OK, Some (word_of_nat DEFAULT_PORT))) of
          (CHAT_OK, Some port) \<Rightarrow> Some (port, if length args = 3 then args ! 2 else DEFAULT_USERS_DB)
        | _ \<Rightarrow> None)"


section \<open>The socket loops keep their contracts\<close>

lemma server_send_all_eq: "server_send_all = send_all"
proof (intro ext)
  fix ks buf len sent
  show "server_send_all ks buf len sent = send_all ks buf len sent"
    by (induction ks buf len sent rule: server_send_all.induct)
      (auto split: send_res.split prod.split)
qed

interpretation snd_server: full_sender server_send_all
  unfolding server_send_all_eq by (rule snd_utils.full_sender_axioms)

lemma server_recv_loop_bytes:
  "length buf = n \<Longrightarrow> LF \<notin> set s \<Longrightarrow> pos + length s \<le> n - 1 \<Longrightarrow>
   server_recv_loop (map Byte s @ rs) buf n pos = server_recv_loop rs (fill buf pos s) n (pos + length s)"
proof (induction s arbitrary: buf pos)
  case Nil
  then show ?case by simp
next
  case (Cons c s)
  then show ?case by (auto simp: fill_Cons)
qed

lemma server_recv_loop_full:
  "n - 1 \<le> pos \<Longrightarrow> server_recv_loop rs buf n pos = Some (CHAT_OK, finish_line buf pos, rs)"
  by (cases rs) auto

interpretation rcv_server: line_receiver server_recv_line
proof unfold_locales
  fix buf :: cbuf and n s rs
  assume a: "length buf = n" "is_c_string s" "LF \<notin> set s"
  show "\<exists>b. server_recv_line (map Byte s @ Byte LF # rs) buf n = Some (CHAT_OK, b, rs) \<and>
          c_str b = trim_newline s \<and> length b = n" if "length s + 2 \<le> n"
    using a that finish_fill_LF [of s buf]
    by (simp add: server_recv_line_def server_recv_loop_bytes)
  show "\<exists>b. server_recv_line (map Byte s @ rs) buf n = Some (CHAT_OK, b, rs) \<and>
          c_str b = trim_newline s \<and> length b = n" if "length s + 1 = n" "2 \<le> n"
    using a that finish_fill_full [of s buf] server_recv_loop_bytes [of buf n s 0 rs]
    by (auto simp: server_recv_line_def server_recv_loop_full)
qed

lemma refuse_send_err: "refuse fd msg w = (fst (send_err fd msg w) = CHAT_OK, snd (send_err fd msg w))"
  by (simp add: refuse_def send_response_def server_send_all_eq send_err_def cmd_send_response_def split_beta Let_def)

end
