(* ===== verification/Server_Threads.thy ===== *)
theory Server_Threads
  imports Server
begin

text \<open>
  What one client thread does: the arguments it can get from the parser, the effect of one
  command and of leaving on the shared state (\<open>handler_command_spec\<close>,
  \<open>handler_disconnect_spec\<close>), and the end of the loop of \<open>client_handler\<close>.
\<close>

section \<open>The arguments of a command\<close>

lemma split_first_token_c_string:
  "split_first_token line n = Inr (cmd, rest) \<Longrightarrow> is_c_string line \<Longrightarrow> is_c_string rest"
  by (auto simp: split_first_token_def is_c_string_def dest: in_set_dropD split: option.splits if_splits)

lemma parse_two_tokens_args:
  assumes "parse_two_tokens rest [] na [] nb = (CHAT_OK, a, b)" and "is_c_string rest"
  shows "is_c_string a \<and> is_c_string b \<and> a \<noteq> [] \<and> length a < na \<and> b \<noteq> []"
proof (cases "strchr rest SP")
  case None
  with assms show ?thesis by (simp add: parse_two_tokens_def)
next
  case (Some i)
  with strchr_Some [OF Some] assms show ?thesis
    by (auto simp: parse_two_tokens_def Let_def is_c_string_def dest: in_set_takeD in_set_dropD split: if_splits)
qed

definition args_ok :: "parsed_cmd \<Rightarrow> bool" where
  "args_ok cmd \<longleftrightarrow> is_c_string (pc_arg1 cmd) \<and> is_c_string (pc_arg2 cmd) \<and> length (pc_arg1 cmd) < 32 \<and>
     (pc_cmd cmd = CMD_AUTH \<or> pc_cmd cmd = CMD_JOIN_ROOM \<or> pc_cmd cmd = CMD_PM \<or> pc_cmd cmd = CMD_KICK
        \<longrightarrow> pc_arg1 cmd \<noteq> [])"

lemma parse_client_line_args:
  assumes "protocol_parse_client_line line = (CHAT_OK, out)" and "is_c_string line"
  shows "args_ok out"
proof -
  obtain cmd rest where split: "split_first_token line CMD_BUF_LEN = Inr (cmd, rest)"
    using assms(1) by (cases "split_first_token line CMD_BUF_LEN")
      (auto simp: protocol_parse_client_line_def)
  have rest: "is_c_string rest" using split_first_token_c_string [OF split assms(2)] .
  obtain st a b where two: "parse_two_tokens rest [] MAX_USERNAME_LEN [] MAX_MSG_LEN = (st, a, b)"
    by (cases "parse_two_tokens rest [] MAX_USERNAME_LEN [] MAX_MSG_LEN") auto
  have tok: "st = CHAT_OK \<Longrightarrow> is_c_string a \<and> is_c_string b \<and> a \<noteq> [] \<and> length a < 32 \<and> b \<noteq> []"
    using two parse_two_tokens_args [OF _ rest] by fastforce
  note parse = assms(1) [unfolded protocol_parse_client_line_def Let_def split, simplified]
  consider "cmd = ''AUTH''" | "cmd = ''JOIN_ROOM''" | "cmd = ''MSG''" | "cmd = ''PM''" | "cmd = ''LIST''" | "cmd = ''HISTORY''" | "cmd = ''KICK''" | "cmd = ''QUIT''" |
    "cmd \<noteq> ''AUTH'' \<and> cmd \<noteq> ''JOIN_ROOM'' \<and> cmd \<noteq> ''MSG'' \<and> cmd \<noteq> ''PM'' \<and>
     cmd \<noteq> ''LIST'' \<and> cmd \<noteq> ''HISTORY'' \<and> cmd \<noteq> ''KICK'' \<and> cmd \<noteq> ''QUIT''"
    by satx
  then show ?thesis
    by cases (use parse rest tok two in \<open>auto simp: args_ok_def empty_cmd_def is_c_string_take is_c_string_def [of "[]"] split: if_splits\<close>)
qed


section \<open>One command of a thread\<close>

lemma handlers_frame [frame_simps]:
  "sv_running (snd (cmd_handle_auth e fd u pw w)) = sv_running w"
  "sv_running (snd (cmd_handle_join_room e fd room w)) = sv_running w"
  "sv_running (snd (cmd_handle_msg e fd content w)) = sv_running w"
  "sv_running (snd (cmd_handle_pm e fd target content w)) = sv_running w"
  "sv_running (snd (cmd_handle_list fd w)) = sv_running w"
  "sv_running (snd (cmd_handle_history fd w)) = sv_running w"
  "sv_running (snd (cmd_handle_kick fd target w)) = sv_running w"
  "sv_active_connections (snd (cmd_handle_auth e fd u pw w)) = sv_active_connections w"
  "sv_active_connections (snd (cmd_handle_join_room e fd room w)) = sv_active_connections w"
  "sv_active_connections (snd (cmd_handle_msg e fd content w)) = sv_active_connections w"
  "sv_active_connections (snd (cmd_handle_pm e fd target content w)) = sv_active_connections w"
  "sv_active_connections (snd (cmd_handle_list fd w)) = sv_active_connections w"
  "sv_active_connections (snd (cmd_handle_history fd w)) = sv_active_connections w"
  "sv_active_connections (snd (cmd_handle_kick fd target w)) = sv_active_connections w"
  "sv_auth (snd (cmd_handle_auth e fd u pw w)) = sv_auth w"
  "sv_auth (snd (cmd_handle_join_room e fd room w)) = sv_auth w"
  "sv_auth (snd (cmd_handle_msg e fd content w)) = sv_auth w"
  "sv_auth (snd (cmd_handle_pm e fd target content w)) = sv_auth w"
  "sv_auth (snd (cmd_handle_list fd w)) = sv_auth w"
  "sv_auth (snd (cmd_handle_history fd w)) = sv_auth w"
  "sv_auth (snd (cmd_handle_kick fd target w)) = sv_auth w"
  by (simp_all add: cmd_handle_auth_def cmd_handle_join_room_def cmd_handle_msg_def cmd_handle_pm_def
      cmd_handle_list_def cmd_handle_history_def cmd_handle_kick_def Let_def frame_simps split: prod.split)

lemma handlers_closed [frame_simps]:
  "nt_closed (w_net (snd (cmd_handle_auth e fd u pw w))) = nt_closed (w_net w)"
  "nt_closed (w_net (snd (cmd_handle_join_room e fd room w))) = nt_closed (w_net w)"
  "nt_closed (w_net (snd (cmd_handle_msg e fd content w))) = nt_closed (w_net w)"
  "nt_closed (w_net (snd (cmd_handle_pm e fd target content w))) = nt_closed (w_net w)"
  "nt_closed (w_net (snd (cmd_handle_list fd w))) = nt_closed (w_net w)"
  "nt_closed (w_net (snd (cmd_handle_history fd w))) = nt_closed (w_net w)"
  "nt_closed (w_net (snd (cmd_handle_kick fd target w))) = nt_closed (w_net w)"
  by (simp_all add: cmd_handle_auth_def cmd_handle_join_room_def cmd_handle_msg_def cmd_handle_pm_def
      cmd_handle_list_def cmd_handle_history_def cmd_handle_kick_def Let_def frame_simps split: prod.split)

text \<open>
  What a thread believes of its client is what the table says: a name and a session, or
  neither.
\<close>

definition handler_sync :: "world \<Rightarrow> handler \<Rightarrow> bool" where
  "handler_sync w h \<longleftrightarrow>
     (if hd_authenticated h
      then hd_username h \<noteq> [] \<and> (\<exists>rm a. sessions w (hd_fd h) = Some (hd_username h, rm, a))
      else sessions w (hd_fd h) = None)"

text \<open>
  Whatever the allocator leaves in its memory, a login is one of a name with a free byte when
  the database has no other names; a login that the password fails gets no memory at all.
\<close>

lemma login_mem_ok:
  assumes "auth_verify evp db u pw = CHAT_OK" and "names_short db" and "node_sized mem" and "is_c_string u"
  shows "node_mem_ok mem u DEFAULT_ROOM"
  using node_mem_short [OF assms(3,4) auth_verify_short [OF assms(1,2)], of DEFAULT_ROOM]
  by (simp add: DEFAULT_ROOM_def is_c_string_def)

lemma cmd_handle_auth_refused:
  assumes "auth_verify (ce_evp e) (sv_auth w) u pw \<noteq> CHAT_OK"
  obtains msg where "cmd_handle_auth e fd u pw w = (CHAT_ERR_AUTH, snd (send_err fd msg w))"
proof (cases "u = [] \<or> pw = []")
  case True
  then show ?thesis by (intro that [of "''username and password required''"]) (simp add: cmd_handle_auth_def)
next
  case False
  with assms show ?thesis by (intro that [of "''invalid credentials''"]) (simp add: cmd_handle_auth_def)
qed

lemma handler_command_spec:
  assumes w: "world_inv w" and sync: "handler_sync w h" and line: "is_c_string line"
    and db: "names_short (sv_auth w)" and mem: "node_sized (ce_node e)"
    and r: "handler_command e line h w = (go, h', w')"
  shows "world_inv w' \<and> handler_sync w' h' \<and> hd_fd h' = hd_fd h \<and>
     (\<forall>x. x \<noteq> hd_fd h \<longrightarrow> sessions w' x = sessions w x) \<and>
     sv_running w' = sv_running w \<and> sv_active_connections w' = sv_active_connections w \<and>
     nt_closed (w_net w') = nt_closed (w_net w) \<and> sv_auth w' = sv_auth w"
proof -
  obtain pst cmd where p: "protocol_parse_client_line line = (pst, cmd)"
    by (cases "protocol_parse_client_line line")
  have quiet: ?thesis
    if "h' = h" "sv_registry w' = sv_registry w" "sv_rooms w' = sv_rooms w" "sv_queue w' = sv_queue w"
      "sv_running w' = sv_running w" "sv_active_connections w' = sv_active_connections w"
      "nt_closed (w_net w') = nt_closed (w_net w)" "sv_auth w' = sv_auth w"
    using that w sync by (simp add: world_inv_def handler_sync_def)
  show ?thesis
  proof (cases "pst = CHAT_OK \<and> (hd_authenticated h \<longleftrightarrow> pc_cmd cmd \<noteq> CMD_AUTH)")
    case False
    with r p show ?thesis
      by (intro quiet) (auto simp: handler_command_def refuse_send_err frame_simps Let_def split_beta split: if_splits client_cmd.splits)
  next
    case True
    then have args: "args_ok cmd" using parse_client_line_args [OF _ line] p by simp
    show ?thesis
    proof (cases "pc_cmd cmd = CMD_AUTH")
      case auth: True
      with True have na: "\<not> hd_authenticated h" by simp
      obtain st w1 where a: "cmd_handle_auth e (hd_fd h) (pc_arg1 cmd) (pc_arg2 cmd) w = (st, w1)"
        by (cases "cmd_handle_auth e (hd_fd h) (pc_arg1 cmd) (pc_arg2 cmd) w")
      have none: "sessions w (hd_fd h) = None" using sync na by (simp add: handler_sync_def)
      have w1: "w' = w1" "sv_running w1 = sv_running w" "sv_active_connections w1 = sv_active_connections w"
          "nt_closed (w_net w1) = nt_closed (w_net w)" "sv_auth w1 = sv_auth w"
        using r p True auth na a handlers_frame(1,8,15) [of e "hd_fd h" "pc_arg1 cmd" "pc_arg2 cmd" w]
          handlers_closed(1) [of e "hd_fd h" "pc_arg1 cmd" "pc_arg2 cmd" w]
        by (auto simp: handler_command_def Let_def split: if_splits)
      have h': "h' = (if st = CHAT_OK then h\<lparr>hd_authenticated := True, hd_username := pc_arg1 cmd\<rparr> else h)"
        using r p True auth na a args by (auto simp: handler_command_def args_ok_def Let_def split: if_splits)
      show ?thesis
      proof (cases "auth_verify (ce_evp e) (sv_auth w) (pc_arg1 cmd) (pc_arg2 cmd) = CHAT_OK")
        case False
        then obtain msg where msg: "cmd_handle_auth e (hd_fd h) (pc_arg1 cmd) (pc_arg2 cmd) w = (CHAT_ERR_AUTH, snd (send_err (hd_fd h) msg w))"
          by (rule cmd_handle_auth_refused)
        then have "h' = h" "w' = snd (send_err (hd_fd h) msg w)" using a h' w1(1) by simp_all
        then show ?thesis by (intro quiet) (simp_all add: frame_simps)
      next
        case verified: True
        have "is_c_string (pc_arg1 cmd)" using args by (simp add: args_ok_def)
        note m = login_mem_ok [OF verified db mem this]
        show ?thesis
        proof (cases "st = CHAT_OK")
          case True
          with cmd_handle_auth_OK [OF w m none] a w1 h' show ?thesis by (auto simp: handler_sync_def)
        next
          case False
          with cmd_handle_auth_fails [OF w m none a] w1 h' none na show ?thesis by (auto simp: handler_sync_def)
        qed
      qed
    next
      case na: False
      with True have auth: "hd_authenticated h" by simp
      then obtain rm a where s: "sessions w (hd_fd h) = Some (hd_username h, rm, a)" "hd_username h \<noteq> []"
        using sync by (auto simp: handler_sync_def)
      show ?thesis
      proof (cases "pc_cmd cmd = CMD_JOIN_ROOM \<or> pc_cmd cmd = CMD_MSG")
        case False
        with r p True auth show ?thesis
          by (intro quiet)
            (auto simp: handler_command_def refuse_send_err frame_simps cmd_handle_quiet split_beta Let_def split: client_cmd.splits)
      next
        case jm: True
        show ?thesis
        proof (cases "pc_cmd cmd = CMD_JOIN_ROOM")
          case j: True
          let ?res = "cmd_handle_join_room e (hd_fd h) (pc_arg1 cmd) w"
          have w': "h' = h" "w' = snd ?res"
            using r p True auth j by (auto simp: handler_command_def split_beta Let_def)
          have "is_c_string (pc_arg1 cmd)" "length (pc_arg1 cmd) < MAX_ROOM_NAME_LEN"
            using args by (simp_all add: args_ok_def)
          from cmd_handle_join_room_spec [OF w this, of e "hd_fd h" "fst ?res" "snd ?res"] s w' auth
          show ?thesis by (auto simp: handler_sync_def frame_simps split: if_splits)
        next
          case False
          with jm have m: "pc_cmd cmd = CMD_MSG" by simp
          let ?res = "cmd_handle_msg e (hd_fd h) (pc_arg2 cmd) w"
          have w': "h' = h" "w' = snd ?res"
            using r p True auth m by (auto simp: handler_command_def split_beta Let_def)
          from cmd_handle_msg_spec [OF w, of e "hd_fd h" "pc_arg2 cmd" "fst ?res" "snd ?res"] s w' auth
          show ?thesis by (auto simp: handler_sync_def frame_simps split: if_splits)
        qed
      qed
    qed
  qed
qed

definition counted_off :: "int \<Rightarrow> int" where
  "counted_off n = (if n > 0 then n - 1 else n)"

lemma handler_disconnect_spec:
  assumes w: "world_inv w" and sync: "handler_sync w h"
  shows "world_inv (disconnect_client ev (hd_fd h) (hd_username h) (hd_authenticated h) w) \<and>
     sessions (disconnect_client ev (hd_fd h) (hd_username h) (hd_authenticated h) w) = (sessions w)(hd_fd h := None) \<and>
     sv_running (disconnect_client ev (hd_fd h) (hd_username h) (hd_authenticated h) w) = sv_running w \<and>
     sv_active_connections (disconnect_client ev (hd_fd h) (hd_username h) (hd_authenticated h) w)
       = counted_off (sv_active_connections w) \<and>
     nt_closed (w_net (disconnect_client ev (hd_fd h) (hd_username h) (hd_authenticated h) w))
       = hd_fd h # nt_closed (w_net w) \<and>
     sv_auth (disconnect_client ev (hd_fd h) (hd_username h) (hd_authenticated h) w) = sv_auth w"
proof -
  have au: "hd_authenticated h \<longleftrightarrow> sessions w (hd_fd h) \<noteq> None" "hd_authenticated h \<Longrightarrow> hd_username h \<noteq> []"
    using sync by (auto simp: handler_sync_def split: if_splits)
  have fr: "sv_running (cmd_disconnect_client ev (hd_fd h) (hd_username h) (hd_authenticated h) w) = sv_running w"
    "sv_active_connections (cmd_disconnect_client ev (hd_fd h) (hd_username h) (hd_authenticated h) w) = sv_active_connections w"
    "nt_closed (w_net (cmd_disconnect_client ev (hd_fd h) (hd_username h) (hd_authenticated h) w)) = hd_fd h # nt_closed (w_net w)"
    "sv_auth (cmd_disconnect_client ev (hd_fd h) (hd_username h) (hd_authenticated h) w) = sv_auth w"
    by (simp_all add: cmd_disconnect_client_def frame_simps Let_def split: prod.split)
  show ?thesis
    using cmd_disconnect_client_spec [OF w au, of ev] fr world_invD(2) [OF w]
    by (simp add: disconnect_client_def conn_track_decrement_def world_inv_def counted_off_def)
qed


section \<open>A client that hangs up\<close>

text \<open>What \<open>recv\<close> gives in the end: an error, or the end of the stream and again the end of the stream.\<close>

fun hangs_up :: "recv_res list \<Rightarrow> bool" where
  "hangs_up [] \<longleftrightarrow> False"
| "hangs_up (r # rs) \<longleftrightarrow> r = Recv_Err \<or> (r = Recv_EOF \<and> rs \<noteq> [] \<and> hd rs = Recv_EOF) \<or> hangs_up rs"

definition ends :: "recv_res list \<Rightarrow> bool" where
  "ends rs \<longleftrightarrow> hangs_up rs \<or> (rs \<noteq> [] \<and> hd rs = Recv_EOF)"

lemma server_recv_loop_ends:
  "hangs_up rs \<Longrightarrow> \<exists>st b rs'. server_recv_loop rs buf n pos = Some (st, b, rs') \<and> (st = CHAT_OK \<longrightarrow> ends rs')"
proof (induction rs arbitrary: buf pos)
  case Nil
  then show ?case by simp
next
  case (Cons r rs)
  show ?case
  proof (cases "pos < n - 1")
    case False
    with Cons.prems show ?thesis by (simp add: ends_def)
  next
    case True
    show ?thesis
    proof (cases r)
      case (Byte c)
      with Cons True show ?thesis by (auto simp: ends_def)
    next
      case Recv_EINTR
      with Cons True show ?thesis by simp
    qed (use Cons.prems True in \<open>auto simp: ends_def\<close>)
  qed
qed

lemma server_recv_line_ends:
  assumes "ends rs"
  shows "\<exists>st b rs'. server_recv_line rs buf 2048 = Some (st, b, rs') \<and> (st = CHAT_OK \<longrightarrow> ends rs')"
proof (cases "hangs_up rs")
  case True
  then show ?thesis using server_recv_loop_ends by (simp add: server_recv_line_def)
next
  case False
  with assms obtain rs' where "rs = Recv_EOF # rs'" by (cases rs) (auto simp: ends_def)
  then show ?thesis by (simp add: server_recv_line_def)
qed

lemma client_handler_ends:
  assumes "\<And>k. node_sized (ce_node (envs k))"
  shows "world_inv w \<Longrightarrow> names_short (sv_auth w) \<Longrightarrow> handler_sync w h \<Longrightarrow> ends rs \<Longrightarrow>
    \<exists>w'. client_handler envs ev k rs h w = Some w' \<and> world_inv w' \<and>
      sessions w' = (sessions w)(hd_fd h := None) \<and>
      sv_active_connections w' = counted_off (sv_active_connections w) \<and>
      nt_closed (w_net w') = hd_fd h # nt_closed (w_net w)"
proof (induction "length rs" arbitrary: rs k h w rule: less_induct)
  case less
  show ?case
  proof (cases "sv_running w")
    case False
    with handler_disconnect_spec [OF less.prems(1,3), of ev] show ?thesis
      by (subst client_handler.simps) simp
  next
    case True
    obtain st line rs' where r: "server_recv_line rs (hd_line h) 2048 = Some (st, line, rs')"
        "st = CHAT_OK \<longrightarrow> ends rs'"
      using server_recv_line_ends [OF less.prems(4)] by blast
    show ?thesis
    proof (cases "st = CHAT_OK")
      case False
      with True r handler_disconnect_spec [OF less.prems(1,3), of ev] show ?thesis
        by (subst client_handler.simps) simp
    next
      case ok: True
      obtain go h1 w1 where c: "handler_command (envs k) (c_str line) (h\<lparr>hd_line := line\<rparr>) w = (go, h1, w1)"
        by (cases "handler_command (envs k) (c_str line) (h\<lparr>hd_line := line\<rparr>) w")
      have "handler_sync w (h\<lparr>hd_line := line\<rparr>)" using less.prems(3) by (simp add: handler_sync_def)
      from handler_command_spec [OF less.prems(1) this is_c_string_c_str less.prems(2) assms c] less.prems(2)
      have s: "world_inv w1" "handler_sync w1 h1" "hd_fd h1 = hd_fd h"
          "(sessions w1)(hd_fd h := None) = (sessions w)(hd_fd h := None)"
          "sv_active_connections w1 = sv_active_connections w" "nt_closed (w_net w1) = nt_closed (w_net w)"
          and db: "names_short (sv_auth w1)"
        by auto
      show ?thesis
      proof (cases go)
        case False
        with True r ok c s handler_disconnect_spec [OF s(1,2), of ev] show ?thesis
          by (subst client_handler.simps) simp
      next
        case go: True
        have "length rs' < length rs"
          using r(1) by (auto dest: server_recv_line_consumes [unfolded MAX_LINE_LEN_def])
        from less.hyps [OF this s(1) db s(2), of "Suc k"] r ok True go c s show ?thesis
          by (subst client_handler.simps) simp
      qed
    qed
  qed
qed

section \<open>Properties\<close>

text \<open>
  Property C7. The thread of a client that hangs up ends, whatever the client sent before,
  however the sends of its commands went, whatever the memory for its sessions held, and
  wherever in a line it stopped: the loop returns, the client's session is gone, its
  descriptor is closed once, the connection is counted off, and every other session is as
  it was. The user database has no name of 31 characters, the case of C36, in which the table
  can hold an unterminated name.
\<close>

theorem client_handler_returns:
  assumes "world_inv w" and "handler_sync w h" and "hangs_up rs" and "0 < sv_active_connections w"
    and "names_short (sv_auth w)" and "\<And>k. node_sized (ce_node (envs k))"
  shows "\<exists>w'. client_handler envs ev k rs h w = Some w' \<and> world_inv w' \<and>
      sessions w' = (sessions w)(hd_fd h := None) \<and>
      sv_active_connections w' = sv_active_connections w - 1 \<and>
      nt_closed (w_net w') = hd_fd h # nt_closed (w_net w)"
proof -
  have "ends rs" using assms(3) by (simp add: ends_def)
  from client_handler_ends [OF assms(6,1,5,2) this] assms(4) show ?thesis
    by (simp add: counted_off_def)
qed

text \<open>The memory of the second login holds no NUL at all.\<close>

definition full_node :: client_node where
  "full_node = zero_node\<lparr>cn_username := replicate 32 (CHR ''x''), cn_room := replicate 32 (CHR ''y'')\<rparr>"

theorem client_handler_returns_witness:
  "\<exists>w'. client_handler (\<lambda>_. sample_env\<lparr>ce_node := Some full_node\<rparr>) sample_event 0
       (map Byte (''AUTH carol pw'' @ [LF] @ ''MSG h'') @ [Recv_EOF, Recv_EOF])
       (new_handler 7 (replicate 2048 NUL)) sample_world = Some w' \<and>
     sessions w' = sessions sample_world \<and> nt_closed (w_net w') = [7]"
proof -
  let ?rs = "map Byte (''AUTH carol pw'' @ [LF] @ ''MSG h'') @ [Recv_EOF, Recv_EOF]"
  let ?envs = "\<lambda>_ :: nat. sample_env\<lparr>ce_node := Some full_node\<rparr>"
  have none: "sessions sample_world 7 = None" by (simp add: sample_world_simps)
  then have sync: "handler_sync sample_world (new_handler 7 (replicate 2048 NUL))"
    by (simp add: handler_sync_def new_handler_def)
  have "hangs_up ?rs" "0 < sv_active_connections sample_world" "names_short (sv_auth sample_world)"
    "\<And>k. node_sized (ce_node (?envs k))"
    by (simp_all add: sample_world_def names_short_def sample_user_def node_sized_def node_typed_def full_node_def)
  then obtain w' where w': "client_handler ?envs sample_event 0 ?rs
         (new_handler 7 (replicate 2048 NUL)) sample_world = Some w'"
      "sessions w' = (sessions sample_world)(7 := None)" "nt_closed (w_net w') = [7]"
    using client_handler_returns [OF sample_world_inv sync, of ?rs ?envs sample_event 0]
    by (auto simp: sample_world_simps new_handler_def)
  then have "sessions w' = sessions sample_world" using none by (simp add: fun_upd_idem)
  with w' show ?thesis by blast
qed

text \<open>
  Property C32. Before it has logged in, a client can only be told so: a line that is not an
  \<open>AUTH\<close> command changes neither the sessions, the queue nor the histories, and sends nothing
  to anybody else.
\<close>

theorem unauthenticated_is_harmless:
  assumes "\<not> hd_authenticated h" and "pc_cmd (snd (protocol_parse_client_line line)) \<noteq> CMD_AUTH"
    and "handler_command e line h w = (go, h', w')"
  shows "h' = h \<and> sv_registry w' = sv_registry w \<and> sv_queue w' = sv_queue w \<and> sv_rooms w' = sv_rooms w \<and>
     (\<forall>x. x \<noteq> hd_fd h \<longrightarrow> wire_of w' x = wire_of w x) \<and> nt_shutdown (w_net w') = nt_shutdown (w_net w)"
proof -
  obtain st cmd where "protocol_parse_client_line line = (st, cmd)"
    by (cases "protocol_parse_client_line line")
  with assms show ?thesis
    by (auto simp: handler_command_def refuse_send_err Let_def frame_simps split: if_splits)
qed

theorem unauthenticated_is_harmless_witness:
  "let res = handler_command sample_env ''KICK bob'' (new_handler 7 (replicate 2048 NUL)) sample_world
   in nt_shutdown (w_net (snd (snd res))) = [] \<and> sv_registry (snd (snd res)) = sv_registry sample_world"
proof -
  let ?h = "new_handler 7 (replicate 2048 NUL)"
  obtain go h' w' where r: "handler_command sample_env ''KICK bob'' ?h sample_world = (go, h', w')"
    by (cases "handler_command sample_env ''KICK bob'' ?h sample_world")
  have "pc_cmd (snd (protocol_parse_client_line ''KICK bob'')) \<noteq> CMD_AUTH" by code_simp
  from unauthenticated_is_harmless [OF _ this r] r show ?thesis
    by (simp add: new_handler_def sample_world_simps)
qed

text \<open>
  Property C39. A client that closes its connection in the middle of a line makes the server
  run a command it never sent: \<open>server_recv_line\<close> then returns \<open>CHAT_OK\<close> with the bytes
  received so far in front of what the previous line left in the buffer, without a NUL of
  its own between them.
\<close>

theorem eof_keeps_stale_bytes:
  assumes "length buf = n" and "is_c_string s" and "LF \<notin> set s" and "s \<noteq> []" and "length s + 1 < n"
  shows "\<exists>b. server_recv_line (map Byte s @ Recv_EOF # rs) buf n = Some (CHAT_OK, b, rs) \<and>
           c_str b = s @ c_str (drop (length s) buf)"
proof -
  have "server_recv_line (map Byte s @ Recv_EOF # rs) buf n = Some (CHAT_OK, fill buf 0 s, rs)"
    using assms by (simp add: server_recv_line_def server_recv_loop_bytes)
  moreover have "c_str (fill buf 0 s) = s @ c_str (drop (length s) buf)"
    using assms(2) by (auto simp: fill_def c_str_def is_c_string_def intro!: takeWhile_append2)
  ultimately show ?thesis by blast
qed

theorem eof_keeps_stale_bytes_witness:
  "\<exists>b. server_recv_line (map Byte ''MSG hi'' @ [Recv_EOF]) (''PM bob secret'' @ replicate 2035 NUL) 2048
         = Some (CHAT_OK, b, []) \<and> c_str b = ''MSG hi secret''"
  using eof_keeps_stale_bytes [of "''PM bob secret'' @ replicate 2035 NUL" 2048 "''MSG hi''" "[]"]
  by (simp add: is_c_string_def c_str_def)

end
