(* ===== verification/Descriptors.thy ===== *)
theory Descriptors
  imports Server_Threads
begin

text \<open>
  The registry as a list of descriptors. Which descriptors are in the table does not depend
  on the names in it, so that these facts hold whatever the memory of the nodes held, also
  where a name of 31 characters is stored without a terminator.
\<close>

section \<open>The registry's operations\<close>

abbreviation online_fds :: "world \<Rightarrow> int list" where
  "online_fds w \<equiv> map cn_sockfd (cr_nodes (sv_registry w))"

lemma sessions_online: "sessions w fd \<noteq> None \<longleftrightarrow> fd \<in> set (online_fds w)"
  by (auto simp: registry_sessions_def find_None_iff)

lemma registry_add_fds:
  "map cn_sockfd (cr_nodes (snd (registry_add mem reg fd u rm a))) =
   (if fst (registry_add mem reg fd u rm a) = CHAT_OK then fd # map cn_sockfd (cr_nodes reg)
    else map cn_sockfd (cr_nodes reg))"
  by (simp add: registry_add_def Let_def split: option.split)

lemma registry_remove_fds:
  "map cn_sockfd (cr_nodes (snd (registry_remove reg fd))) = remove1 fd (map cn_sockfd (cr_nodes reg))"
proof -
  have "(case remove_first (\<lambda>cur. cn_sockfd cur = fd) ns of None \<Rightarrow> map cn_sockfd ns | Some ys \<Rightarrow> map cn_sockfd ys)
      = remove1 fd (map cn_sockfd ns)" for ns
    by (induction ns) (auto split: option.splits)
  from this [of "cr_nodes reg"] show ?thesis by (simp add: registry_remove_def split: option.splits)
qed

lemma registry_set_room_fds:
  "map cn_sockfd (cr_nodes (snd (registry_set_room reg fd room))) = map cn_sockfd (cr_nodes reg)"
proof -
  have "set_room_loop ns fd room = Some ys \<Longrightarrow> map cn_sockfd ys = map cn_sockfd ns" for ns ys
    by (induction ns arbitrary: ys) (auto simp: write_room_simps split: if_splits)
  then show ?thesis by (simp add: registry_set_room_def split: option.split)
qed

section \<open>The handlers\<close>

lemma auth_fds:
  "online_fds (snd (cmd_handle_auth e fd u pw w)) =
     (if fst (cmd_handle_auth e fd u pw w) = CHAT_OK then fd # online_fds w else online_fds w)"
  by (simp add: cmd_handle_auth_def Let_def frame_simps registry_add_fds registry_remove_fds)

lemma auth_OK_name: "fst (cmd_handle_auth e fd u pw w) = CHAT_OK \<Longrightarrow> u \<noteq> []"
  by (auto simp: cmd_handle_auth_def)

lemma handlers_fds [frame_simps]:
  "online_fds (snd (cmd_handle_join_room e fd room w)) = online_fds w"
  "online_fds (snd (cmd_handle_msg e fd content w)) = online_fds w"
  "online_fds (snd (cmd_handle_pm e fd target content w)) = online_fds w"
  "online_fds (snd (cmd_handle_list fd w)) = online_fds w"
  "online_fds (snd (cmd_handle_history fd w)) = online_fds w"
  "online_fds (snd (cmd_handle_kick fd target w)) = online_fds w"
  by (simp_all add: cmd_handle_quiet)
    (simp_all add: cmd_handle_join_room_def cmd_handle_msg_def Let_def frame_simps registry_set_room_fds split: prod.split)

lemma handlers_queue:
  assumes "mq_inv (sv_queue w)"
  shows "mq_inv (sv_queue (snd (cmd_handle_auth e fd u pw w)))"
    "mq_inv (sv_queue (snd (cmd_handle_join_room e fd room w)))"
    "mq_inv (sv_queue (snd (cmd_handle_msg e fd content w)))"
    "mq_inv (sv_queue (cmd_disconnect_client ev fd u' au w))"
  using assms
  by (simp_all add: cmd_handle_auth_def cmd_handle_join_room_def cmd_handle_msg_def cmd_disconnect_client_def
      enqueue_room_event_def Let_def frame_simps mq_push_spec(1) split_beta)

lemma cmd_disconnect_fds:
  "online_fds (cmd_disconnect_client ev fd u au w) = (if au \<and> u \<noteq> [] then remove1 fd (online_fds w) else online_fds w)"
  by (simp add: cmd_disconnect_client_def Let_def frame_simps registry_remove_fds split: prod.split)

section \<open>One turn of a thread\<close>

text \<open>The thread is logged in exactly when its descriptor is in the table, and then it has a name.\<close>

definition handler_on :: "world \<Rightarrow> handler \<Rightarrow> bool" where
  "handler_on w h \<longleftrightarrow> (hd_authenticated h \<longleftrightarrow> hd_fd h \<in> set (online_fds w)) \<and>
     (hd_authenticated h \<longrightarrow> hd_username h \<noteq> [])"

definition table_ok :: "world \<Rightarrow> bool" where
  "table_ok w \<longleftrightarrow> distinct (online_fds w) \<and> mq_inv (sv_queue w)"

lemma handler_command_on:
  assumes "table_ok w" and "handler_on w h" and "handler_command e line h w = (go, h', w')"
  shows "table_ok w' \<and> handler_on w' h' \<and> hd_fd h' = hd_fd h \<and>
     (\<forall>x. x \<noteq> hd_fd h \<longrightarrow> (x \<in> set (online_fds w') \<longleftrightarrow> x \<in> set (online_fds w))) \<and>
     sv_running w' = sv_running w \<and> sv_active_connections w' = sv_active_connections w"
proof -
  obtain pst cmd where p: "protocol_parse_client_line line = (pst, cmd)"
    by (cases "protocol_parse_client_line line")
  have same: ?thesis if "h' = h" "online_fds w' = online_fds w" "mq_inv (sv_queue w) \<Longrightarrow> mq_inv (sv_queue w')"
      "sv_running w' = sv_running w" "sv_active_connections w' = sv_active_connections w"
    using that assms(1,2) by (simp add: table_ok_def handler_on_def)
  show ?thesis
  proof (cases "pst = CHAT_OK \<and> \<not> hd_authenticated h \<and> pc_cmd cmd = CMD_AUTH")
    case False
    with assms(3) p show ?thesis
      by (intro same) (auto simp: handler_command_def refuse_send_err handlers_queue cmd_handle_quiet frame_simps
          Let_def split_beta split: if_splits client_cmd.splits)
  next
    case True
    let ?res = "cmd_handle_auth e (hd_fd h) (pc_arg1 cmd) (pc_arg2 cmd) w"
    have r: "w' = snd ?res" "h' = (if fst ?res = CHAT_OK then h\<lparr>hd_authenticated := True,
        hd_username := take 31 (pc_arg1 cmd)\<rparr> else h)"
      using assms(3) p True by (auto simp: handler_command_def Let_def split_beta split: if_splits)
    have "hd_fd h \<notin> set (online_fds w)" using assms(2) True by (simp add: handler_on_def)
    moreover have "mq_inv (sv_queue w')" using assms(1) r(1) handlers_queue(1) by (simp add: table_ok_def)
    ultimately show ?thesis
      using assms(1,2) True auth_fds [of e "hd_fd h" "pc_arg1 cmd" "pc_arg2 cmd" w]
        auth_OK_name [of e "hd_fd h" "pc_arg1 cmd" "pc_arg2 cmd" w] r
      by (simp add: table_ok_def handler_on_def frame_simps)
  qed
qed

lemma disconnect_on:
  assumes "table_ok w" and "handler_on w h"
    and "w' = disconnect_client ev (hd_fd h) (hd_username h) (hd_authenticated h) w"
  shows "table_ok w' \<and> set (online_fds w') = set (online_fds w) - {hd_fd h} \<and> sv_running w' = sv_running w \<and>
     sv_active_connections w' = counted_off (sv_active_connections w)"
proof -
  let ?w1 = "cmd_disconnect_client ev (hd_fd h) (hd_username h) (hd_authenticated h) w"
  have fds: "online_fds ?w1 = (if hd_authenticated h then remove1 (hd_fd h) (online_fds w) else online_fds w)"
    using assms(2) by (simp add: cmd_disconnect_fds handler_on_def)
  have fr: "sv_running ?w1 = sv_running w" "sv_active_connections ?w1 = sv_active_connections w"
    by (simp_all add: cmd_disconnect_client_def frame_simps Let_def split: prod.split)
  have w': "w' = conn_track_decrement ?w1" using assms(3) by (simp add: disconnect_client_def)
  have "mq_inv (sv_queue ?w1)" using assms(1) handlers_queue(4) by (simp add: table_ok_def)
  moreover have "distinct (online_fds ?w1) \<and> set (online_fds ?w1) = set (online_fds w) - {hd_fd h}"
    unfolding fds using assms(1,2) by (simp add: table_ok_def handler_on_def set_remove1_eq del: set_map)
  ultimately show ?thesis
    using fr by (simp add: w' conn_track_decrement_def table_ok_def counted_off_def del: set_map)
qed

end
