(* ===== verification/Thread_Programs.thy ===== *)
theory Thread_Programs
  imports Descriptors
begin

text \<open>
  The work of a client thread at the grain at which the threads of the server really
  interleave. A handler of \<open>src/server/commands.c\<close> is here a program of atomic actions: one
  action for every call that runs under a mutex and one for every line that is sent. Run
  without interruption a program is the function of \<open>Commands\<close> or \<open>Server\<close> (\<open>run_handler\<close>);
  what it guarantees when other threads act in between is stated action by action
  (\<open>safe_prog\<close>), in the manner of rely and guarantee.
\<close>

section \<open>Programs\<close>

datatype 'a prog = Ret 'a | Act "world \<Rightarrow> 'a prog \<times> world"

primrec run :: "'a prog \<Rightarrow> world \<Rightarrow> 'a \<times> world" where
  "run (Ret a) = (\<lambda>w. (a, w))"
| "run (Act f) = (\<lambda>w. case map_prod run id (f w) of (r, w') \<Rightarrow> r w')"

primrec prog_bind :: "'a prog \<Rightarrow> ('a \<Rightarrow> 'b prog) \<Rightarrow> 'b prog" where
  "prog_bind (Ret a) k = k a"
| "prog_bind (Act f) k = Act (\<lambda>w. map_prod (\<lambda>p. prog_bind p k) id (f w))"

text \<open>An action followed by the rest of the program; an action that only reads.\<close>

definition act :: "(world \<Rightarrow> 'b \<times> world) \<Rightarrow> ('b \<Rightarrow> 'a prog) \<Rightarrow> 'a prog" where
  "act f k = Act (\<lambda>w. case f w of (b, w') \<Rightarrow> (k b, w'))"

definition look :: "(world \<Rightarrow> 'b) \<Rightarrow> ('b \<Rightarrow> 'a prog) \<Rightarrow> 'a prog" where
  "look f k = act (\<lambda>w. (f w, w)) k"

definition on_registry ::
  "(client_registry \<Rightarrow> chat_status \<times> client_registry) \<Rightarrow> world \<Rightarrow> chat_status \<times> world" where
  "on_registry f w = (case f (sv_registry w) of (st, reg) \<Rightarrow> (st, w\<lparr>sv_registry := reg\<rparr>))"

definition on_queue ::
  "(message_queue \<Rightarrow> chat_status \<times> message_queue) \<Rightarrow> world \<Rightarrow> chat_status \<times> world" where
  "on_queue f w = (case f (sv_queue w) of (st, q) \<Rightarrow> (st, w\<lparr>sv_queue := q\<rparr>))"

definition on_rooms ::
  "(room_manager \<Rightarrow> chat_status \<times> room_manager) \<Rightarrow> world \<Rightarrow> chat_status \<times> world" where
  "on_rooms f w = (case f (sv_rooms w) of (st, rooms) \<Rightarrow> (st, w\<lparr>sv_rooms := rooms\<rparr>))"

named_theorems run_simps

lemma run_act [run_simps]: "run (act f k) w = (case f w of (b, w') \<Rightarrow> run (k b) w')"
  by (simp add: act_def map_prod_def split: prod.split)

lemma run_look [run_simps]: "run (look f k) w = run (k (f w)) w"
  by (simp add: look_def run_act)

lemma run_bind [run_simps]: "run (prog_bind p k) w = (case run p w of (a, w') \<Rightarrow> run (k a) w')"
proof (induction p arbitrary: w)
  case (Ret a)
  show ?case by simp
next
  case (Act f)
  obtain p' w' where f: "f w = (p', w')" by (cases "f w")
  have "f w \<in> range f" by simp
  from Act.IH [OF this, of p' w'] f show ?case by (simp add: prod_set_simps)
qed

section \<open>The handlers\<close>

text \<open>\<open>room_history_send_to_client\<close>: the history is formatted under the lock and sent after it.\<close>

definition history_prog :: "int \<Rightarrow> string \<Rightarrow> chat_status prog" where
  "history_prog fd room =
     look (\<lambda>w. room_history_format (sv_rooms w) room MAX_LINE_LEN) (\<lambda>(st, payload).
       if st \<noteq> CHAT_OK then Ret CHAT_ERR
       else case protocol_build_server_history MAX_LINE_LEN (Some payload) of
              (st', line) \<Rightarrow> if st' \<noteq> CHAT_OK then Ret CHAT_ERR else act (cmd_send_response fd line) Ret)"

definition auth_prog :: "call_env \<Rightarrow> int \<Rightarrow> string \<Rightarrow> string \<Rightarrow> chat_status prog" where
  "auth_prog e fd username password =
     (if username = [] \<or> password = []
      then act (send_err fd ''username and password required'') (\<lambda>_. Ret CHAT_ERR_AUTH)
      else
        look (\<lambda>w. auth_verify (ce_evp e) (sv_auth w) username password) (\<lambda>st.
        if st \<noteq> CHAT_OK then act (send_err fd ''invalid credentials'') (\<lambda>_. Ret CHAT_ERR_AUTH)
        else
        look (\<lambda>w. registry_username_exists (sv_registry w) username) (\<lambda>exists.
        if exists then act (send_err fd ''user already online'') (\<lambda>_. Ret CHAT_ERR_AUTH)
        else
        look (\<lambda>w. auth_is_admin (sv_auth w) username) (\<lambda>admin.
        act (on_registry (\<lambda>reg. registry_add (ce_node e) reg fd username DEFAULT_ROOM admin)) (\<lambda>st.
        if st \<noteq> CHAT_OK then act (send_err fd ''server full'') (\<lambda>_. Ret CHAT_ERR_AUTH)
        else
        act (cmd_send_response fd (snd (protocol_build_server_welcome MAX_LINE_LEN username))) (\<lambda>st.
        if st \<noteq> CHAT_OK then act (on_registry (\<lambda>reg. registry_remove reg fd)) (\<lambda>_. Ret CHAT_ERR_IO)
        else
        act (cmd_send_response fd (snd (protocol_build_server_room_joined MAX_LINE_LEN DEFAULT_ROOM))) (\<lambda>_.
        prog_bind (history_prog fd DEFAULT_ROOM) (\<lambda>_.
        act (send_ok fd ''authenticated'') (\<lambda>_.
        act (enqueue_room_event (ce_ev1 e) MQ_JOIN username DEFAULT_ROOM) (\<lambda>_. Ret CHAT_OK))))))))))"

definition join_room_prog :: "call_env \<Rightarrow> int \<Rightarrow> string \<Rightarrow> chat_status prog" where
  "join_room_prog e fd room =
     (if room = [] then act (send_err fd ''room name required'') Ret
      else
        look (\<lambda>w. registry_get_username (sv_registry w) fd MAX_USERNAME_LEN) (\<lambda>(st, username).
        if st \<noteq> CHAT_OK then act (send_err fd ''authenticate first'') Ret
        else
        look (\<lambda>w. registry_get_room (sv_registry w) fd MAX_ROOM_NAME_LEN) (\<lambda>(st, old_room).
        if st \<noteq> CHAT_OK then Ret CHAT_ERR
        else if old_room = room then act (send_err fd ''already in that room'') Ret
        else
        act (enqueue_room_event (ce_ev1 e) MQ_LEAVE username old_room) (\<lambda>_.
        act (on_registry (\<lambda>reg. registry_set_room reg fd room)) (\<lambda>_.
        act (cmd_send_response fd (snd (protocol_build_server_room_joined MAX_LINE_LEN room))) (\<lambda>_.
        prog_bind (history_prog fd room) (\<lambda>_.
        act (enqueue_room_event (ce_ev2 e) MQ_JOIN username room) (\<lambda>_.
        act (send_ok fd ''room changed'') Ret))))))))"

definition msg_prog :: "call_env \<Rightarrow> int \<Rightarrow> string \<Rightarrow> chat_status prog" where
  "msg_prog e fd content =
     look (\<lambda>w. registry_get_username (sv_registry w) fd MAX_USERNAME_LEN) (\<lambda>(st, username).
     if st \<noteq> CHAT_OK then act (send_err fd ''authenticate first'') Ret
     else
     look (\<lambda>w. registry_get_room (sv_registry w) fd MAX_ROOM_NAME_LEN) (\<lambda>(st, room).
     if st \<noteq> CHAT_OK then Ret CHAT_ERR
     else if content = [] then act (send_err fd ''empty message'') Ret
     else
     act (on_rooms (\<lambda>rooms. room_history_add (ce_calloc e) (ce_localtime e) rooms room username content (ce_now e))) (\<lambda>_.
     act (on_queue (mq_push (ee_mem (ce_ev1 e)) (chat_event e username room content))) (\<lambda>st.
     if st \<noteq> CHAT_OK then act (send_err fd ''broadcast queue error'') Ret
     else act (send_ok fd ''message sent'') Ret))))"

definition pm_prog :: "call_env \<Rightarrow> int \<Rightarrow> string \<Rightarrow> string \<Rightarrow> chat_status prog" where
  "pm_prog e fd target content =
     look (\<lambda>w. registry_get_username (sv_registry w) fd MAX_USERNAME_LEN) (\<lambda>(st, from_user).
     if st \<noteq> CHAT_OK then act (send_err fd ''authenticate first'') Ret
     else if target = [] \<or> content = [] then act (send_err fd ''usage: PM user message'') Ret
     else if from_user = target then act (send_err fd ''cannot PM yourself'') Ret
     else
     look (\<lambda>w. registry_get_sockfd_by_username (sv_registry w) target) (\<lambda>target_fd.
     if target_fd < 0 then act (send_err fd ''user not online'') Ret
     else
     act (cmd_send_response target_fd (snd (protocol_build_server_pm MAX_LINE_LEN from_user
            (format_timestamp (ce_localtime e) (ce_now e) TIMESTAMP_LEN) content))) (\<lambda>st.
     if st \<noteq> CHAT_OK then act (send_err fd ''failed to deliver PM'') Ret
     else act (send_ok fd ''PM delivered'') Ret)))"

definition list_prog :: "int \<Rightarrow> chat_status prog" where
  "list_prog fd =
     look (\<lambda>w. fst (registry_get_username (sv_registry w) fd MAX_USERNAME_LEN)) (\<lambda>st.
     if st \<noteq> CHAT_OK then act (send_err fd ''authenticate first'') Ret
     else
     look (\<lambda>w. registry_build_user_list (sv_registry w) MAX_MSG_LEN) (\<lambda>(st, users).
     if st \<noteq> CHAT_OK then act (send_err fd ''failed to build user list'') Ret
     else act (cmd_send_response fd (snd (protocol_build_server_list MAX_LINE_LEN (Some users)))) Ret))"

definition history_cmd_prog :: "int \<Rightarrow> chat_status prog" where
  "history_cmd_prog fd =
     look (\<lambda>w. fst (registry_get_username (sv_registry w) fd MAX_USERNAME_LEN)) (\<lambda>st.
     if st \<noteq> CHAT_OK then act (send_err fd ''authenticate first'') Ret
     else
     look (\<lambda>w. registry_get_room (sv_registry w) fd MAX_ROOM_NAME_LEN) (\<lambda>(st, room).
     if st \<noteq> CHAT_OK then Ret CHAT_ERR
     else
     prog_bind (history_prog fd room) (\<lambda>st.
     if st \<noteq> CHAT_OK then act (send_err fd ''history unavailable'') Ret
     else act (send_ok fd ''history sent'') Ret)))"

definition kick_prog :: "int \<Rightarrow> string \<Rightarrow> chat_status prog" where
  "kick_prog fd target =
     look (\<lambda>w. registry_is_admin (sv_registry w) fd) (\<lambda>admin.
     if \<not> admin then act (send_err fd ''admin privileges required'') Ret
     else if target = [] then act (send_err fd ''username required'') Ret
     else
     look (\<lambda>w. registry_get_username (sv_registry w) fd MAX_USERNAME_LEN) (\<lambda>(st, admin).
     if st = CHAT_OK \<and> admin = target then act (send_err fd ''cannot kick yourself'') Ret
     else
     look (\<lambda>w. registry_get_sockfd_by_username (sv_registry w) target) (\<lambda>target_fd.
     if target_fd < 0 then act (send_err fd ''user not online'') Ret
     else
     act (cmd_send_response target_fd (snd (protocol_build_server_kicked MAX_LINE_LEN (Some ''kicked by admin'')))) (\<lambda>_.
     act (\<lambda>w. ((), sys_shutdown target_fd w)) (\<lambda>_.
     act (send_ok fd ''user kicked'') Ret)))))"

text \<open>\<open>cmd_disconnect_client\<close>; the last action closes the descriptor.\<close>

definition leave_prog :: "event_env \<Rightarrow> int \<Rightarrow> string \<Rightarrow> bool \<Rightarrow> unit prog" where
  "leave_prog ev fd username authenticated =
     (let finish = act (\<lambda>w. ((), sys_close fd w)) Ret
      in if authenticated \<and> username \<noteq> [] then
           look (\<lambda>w. registry_get_room (sv_registry w) fd MAX_ROOM_NAME_LEN) (\<lambda>(st, room).
           if st = CHAT_OK then
             act (enqueue_room_event ev MQ_LEAVE username room) (\<lambda>_.
             act (on_registry (\<lambda>reg. registry_remove reg fd)) (\<lambda>_. finish))
           else act (on_registry (\<lambda>reg. registry_remove reg fd)) (\<lambda>_. finish))
         else finish)"

text \<open>The body of the loop of \<open>client_handler\<close>, as \<open>handler_command\<close> of \<open>Server\<close>.\<close>

definition refuse_prog :: "int \<Rightarrow> string \<Rightarrow> handler \<Rightarrow> (bool \<times> handler) prog" where
  "refuse_prog fd msg h = act (refuse fd msg) (\<lambda>go. Ret (go, h))"

definition dispatch :: "chat_status prog \<Rightarrow> handler \<Rightarrow> (bool \<times> handler) prog" where
  "dispatch p h = prog_bind p (\<lambda>st. Ret (st = CHAT_OK, h))"

definition handler_prog :: "call_env \<Rightarrow> string \<Rightarrow> handler \<Rightarrow> (bool \<times> handler) prog" where
  "handler_prog e line h =
     (let fd = hd_fd h; (pst, cmd) = protocol_parse_client_line line
      in if pst \<noteq> CHAT_OK then refuse_prog fd ''invalid command'' h
         else if \<not> hd_authenticated h then
           (if pc_cmd cmd \<noteq> CMD_AUTH then refuse_prog fd ''authentication required: AUTH user pass'' h
            else prog_bind (auth_prog e fd (pc_arg1 cmd) (pc_arg2 cmd)) (\<lambda>st.
                   Ret (if st \<noteq> CHAT_OK then (False, h)
                        else (True, h\<lparr>hd_authenticated := True,
                                     hd_username := take (MAX_USERNAME_LEN - 1) (pc_arg1 cmd)\<rparr>))))
         else
           (case pc_cmd cmd of
              CMD_JOIN_ROOM \<Rightarrow> dispatch (join_room_prog e fd (pc_arg1 cmd)) h
            | CMD_MSG \<Rightarrow> dispatch (msg_prog e fd (pc_arg2 cmd)) h
            | CMD_PM \<Rightarrow> dispatch (pm_prog e fd (pc_arg1 cmd) (pc_arg2 cmd)) h
            | CMD_LIST \<Rightarrow> dispatch (list_prog fd) h
            | CMD_HISTORY \<Rightarrow> dispatch (history_cmd_prog fd) h
            | CMD_KICK \<Rightarrow> dispatch (kick_prog fd (pc_arg1 cmd)) h
            | CMD_QUIT \<Rightarrow> Ret (False, h)
            | _ \<Rightarrow> refuse_prog fd ''unknown command'' h))"

section \<open>Run without interruption, the programs are the functions\<close>

lemma run_history [run_simps]:
  "run (history_prog fd room) w = room_history_send_to_client (sv_rooms w) room (cmd_send_response fd) w"
  by (auto simp: history_prog_def room_history_send_to_client_def run_simps split: prod.split)

lemma run_auth [run_simps]: "run (auth_prog e fd u pw) w = cmd_handle_auth e fd u pw w"
  by (simp add: auth_prog_def cmd_handle_auth_def run_simps on_registry_def Let_def split_beta)

lemma run_join_room [run_simps]: "run (join_room_prog e fd room) w = cmd_handle_join_room e fd room w"
  by (simp add: join_room_prog_def cmd_handle_join_room_def run_simps on_registry_def Let_def split_beta)

lemma run_msg [run_simps]: "run (msg_prog e fd content) w = cmd_handle_msg e fd content w"
  by (simp add: msg_prog_def cmd_handle_msg_def run_simps on_rooms_def on_queue_def Let_def split_beta)

lemma run_pm [run_simps]: "run (pm_prog e fd target content) w = cmd_handle_pm e fd target content w"
  by (simp add: pm_prog_def cmd_handle_pm_def run_simps Let_def split_beta)

lemma run_list [run_simps]: "run (list_prog fd) w = cmd_handle_list fd w"
  by (simp add: list_prog_def cmd_handle_list_def run_simps Let_def split_beta)

lemma run_history_cmd [run_simps]: "run (history_cmd_prog fd) w = cmd_handle_history fd w"
  by (simp add: history_cmd_prog_def cmd_handle_history_def run_simps Let_def split_beta)

lemma run_kick [run_simps]: "run (kick_prog fd target) w = cmd_handle_kick fd target w"
  by (simp add: kick_prog_def cmd_handle_kick_def run_simps Let_def split_beta)

lemma run_leave [run_simps]: "run (leave_prog ev fd u au) w = ((), cmd_disconnect_client ev fd u au w)"
  by (simp add: leave_prog_def cmd_disconnect_client_def run_simps on_registry_def Let_def split_beta)

lemma run_handler:
  "run (handler_prog e line h) w = (case handler_command e line h w of (go, h', w') \<Rightarrow> ((go, h'), w'))"
  by (simp add: handler_prog_def handler_command_def run_simps refuse_prog_def dispatch_def Let_def split_beta
      split: client_cmd.split)

end
