(* ===== verification/Thread_Safety.thy ===== *)
theory Thread_Safety
  imports Thread_Programs
begin

text \<open>
  What the work of a client thread guarantees to the other threads, and what it relies on, in
  the manner of rely and guarantee. The guarantees are stated for a view of the shared state:
  an invariant of it, and what each descriptor has in the table. The contract \<open>session_view\<close>
  says what the registry, the histories and the queue must give for a view to be kept; every
  program of \<open>Thread_Programs\<close> is proved once for all views. There are three of them: the
  descriptors in the table, whatever names and memory there are (\<open>table_view\<close>); the sessions
  with their names, for a user database without names of 31 characters (\<open>name_view\<close>); and
  the user database, which never changes (\<open>auth_view\<close>).
\<close>

type_synonym session = "string \<times> string \<times> bool"

section \<open>Views\<close>

text \<open>
  \<open>vw_enter\<close> is what a descriptor has in the table after a login under a name, in a room, with
  or without the admin flag, and \<open>vw_gone\<close> what it has when it is not in the table.
\<close>

record 'o view =
  vw_inv :: "world \<Rightarrow> bool"
  vw_obs :: "world \<Rightarrow> int \<Rightarrow> 'o"
  vw_enter :: "string \<Rightarrow> string \<Rightarrow> bool \<Rightarrow> 'o"
  vw_gone :: 'o

definition own_step :: "'o view \<Rightarrow> int \<Rightarrow> world \<Rightarrow> world \<Rightarrow> bool" where
  "own_step V fd w w' \<longleftrightarrow> vw_inv V w' \<and> (\<forall>x. x \<noteq> fd \<longrightarrow> vw_obs V w' x = vw_obs V w x) \<and>
     sv_active_connections w' = sv_active_connections w \<and> (sv_running w' \<longrightarrow> sv_running w)"

text \<open>
  \<open>safe_prog V fd Q s p\<close>: while the view of \<open>fd\<close> is \<open>s\<close> when \<open>p\<close> gets its turn, every action
  of \<open>p\<close> is an \<open>own_step\<close>, whatever other threads did before it, and \<open>Q\<close> holds of the result
  and the view of \<open>fd\<close> in the end.
\<close>

inductive safe_prog :: "'o view \<Rightarrow> int \<Rightarrow> ('a \<Rightarrow> 'o \<Rightarrow> bool) \<Rightarrow> 'o \<Rightarrow> 'a prog \<Rightarrow> bool"
  for V :: "'o view" and fd :: int and Q :: "'a \<Rightarrow> 'o \<Rightarrow> bool" where
  safe_Ret: "Q a s \<Longrightarrow> safe_prog V fd Q s (Ret a)"
| safe_Act: "(\<forall>w p w'. vw_inv V w \<and> vw_obs V w fd = s \<and> f w = (p, w') \<longrightarrow>
     own_step V fd w w' \<and> safe_prog V fd Q (vw_obs V w' fd) p) \<Longrightarrow> safe_prog V fd Q s (Act f)"

inductive_simps safe_Ret_iff [simp]: "safe_prog V fd Q s (Ret a)"
inductive_simps safe_Act_iff: "safe_prog V fd Q s (Act f)"

text \<open>What a thread believes of its client is what the view says of its descriptor.\<close>

definition view_sync :: "'o view \<Rightarrow> handler \<Rightarrow> 'o \<Rightarrow> bool" where
  "view_sync V h s \<longleftrightarrow>
     (if hd_authenticated h then hd_username h \<noteq> [] \<and> (\<exists>rm a. s = vw_enter V (hd_username h) rm a) else s = vw_gone V)"

lemma view_sync_line [simp]: "view_sync V (h\<lparr>hd_line := line\<rparr>) s = view_sync V h s"
  by (simp add: view_sync_def)

section \<open>Rules\<close>

lemma safe_act:
  assumes "\<And>w b w'. vw_inv V w \<Longrightarrow> vw_obs V w fd = s \<Longrightarrow> f w = (b, w') \<Longrightarrow>
      own_step V fd w w' \<and> safe_prog V fd Q (vw_obs V w' fd) (k b)"
  shows "safe_prog V fd Q s (act f k)"
  unfolding act_def safe_Act_iff using assms by (fastforce split: prod.splits)

lemma safe_look:
  assumes "\<And>w. vw_inv V w \<Longrightarrow> vw_obs V w fd = s \<Longrightarrow> safe_prog V fd Q s (k (f w))"
  shows "safe_prog V fd Q s (look f k)"
  unfolding look_def by (rule safe_act) (use assms in \<open>auto simp: own_step_def\<close>)

lemma safe_bind:
  assumes "safe_prog V fd Q s p" and "\<And>a s'. Q a s' \<Longrightarrow> safe_prog V fd R s' (k a)"
  shows "safe_prog V fd R s (prog_bind p k)"
  using assms(1)
proof induction
  case (safe_Ret a s)
  then show ?case using assms(2) by simp
next
  case (safe_Act s f)
  have "own_step V fd w w' \<and> safe_prog V fd R (vw_obs V w' fd) q"
    if "vw_inv V w" "vw_obs V w fd = s" "map_prod (\<lambda>p. prog_bind p k) id (f w) = (q, w')" for w q w'
    using safe_Act [rule_format, of w "fst (f w)" w'] that by (cases "f w") auto
  then show ?case unfolding prog_bind.simps safe_Act_iff by blast
qed

lemma safe_conseq:
  assumes "safe_prog V fd Q s p" and "\<And>a s'. Q a s' \<Longrightarrow> R a s'"
  shows "safe_prog V fd R s p"
  using assms(1)
proof induction
  case (safe_Ret a s)
  then show ?case using assms(2) by simp
next
  case (safe_Act s f)
  then show ?case by (simp add: safe_Act_iff)
qed

text \<open>Actions that write to connections only.\<close>

definition net_only :: "(world \<Rightarrow> 'b \<times> world) \<Rightarrow> bool" where
  "net_only f \<longleftrightarrow> (\<forall>w. sv_registry (snd (f w)) = sv_registry w \<and> sv_rooms (snd (f w)) = sv_rooms w \<and>
     sv_queue (snd (f w)) = sv_queue w \<and> sv_active_connections (snd (f w)) = sv_active_connections w \<and>
     sv_running (snd (f w)) = sv_running w \<and> sv_auth (snd (f w)) = sv_auth w)"

lemma net_only_sends [simp]:
  "net_only (cmd_send_response fd line)" "net_only (send_err fd msg)" "net_only (send_ok fd msg)"
  "net_only (refuse fd msg)" "net_only (\<lambda>w. (u, sys_close fd w))" "net_only (\<lambda>w. (u, sys_shutdown fd w))"
  by (simp_all add: net_only_def frame_simps refuse_send_err)

lemma enqueue_on_queue:
  "enqueue_room_event ev ty u rm = on_queue (mq_push (ee_mem ev) (room_event ev ty u rm))"
  by (simp add: fun_eq_iff enqueue_room_event_def on_queue_def)

lemma enter_ex: "\<exists>rm' a'. vw_enter V u rm a = vw_enter V u rm' a'"
  by blast

section \<open>The contract of a view\<close>

text \<open>
  A login reaches the table only after a check of the password, so that the name is one the
  database accepted in a state of the invariant.
\<close>

locale session_view =
  fixes V :: "'o view"
  assumes frame: "vw_inv V w \<Longrightarrow> sv_registry w' = sv_registry w \<Longrightarrow> sv_rooms w' = sv_rooms w \<Longrightarrow>
      sv_auth w' = sv_auth w \<Longrightarrow> mq_inv (sv_queue w) \<longrightarrow> mq_inv (sv_queue w') \<Longrightarrow> vw_inv V w'"
    and obs_frame: "sv_registry w' = sv_registry w \<Longrightarrow> vw_obs V w' = vw_obs V w"
    and add: "vw_inv V w \<Longrightarrow> vw_obs V w fd = vw_gone V \<Longrightarrow> node_sized mem \<Longrightarrow> is_c_string u \<Longrightarrow>
      vw_inv V w0 \<Longrightarrow> auth_verify evp (sv_auth w0) u pw = CHAT_OK \<Longrightarrow>
      registry_add mem (sv_registry w) fd u DEFAULT_ROOM a = (st, reg') \<Longrightarrow>
      vw_inv V (w\<lparr>sv_registry := reg'\<rparr>) \<and> vw_obs V (w\<lparr>sv_registry := reg'\<rparr>) =
        (if st = CHAT_OK then (vw_obs V w)(fd := vw_enter V u DEFAULT_ROOM a) else vw_obs V w)"
    and remove: "vw_inv V w \<Longrightarrow> vw_inv V (w\<lparr>sv_registry := snd (registry_remove (sv_registry w) fd)\<rparr>) \<and>
      vw_obs V (w\<lparr>sv_registry := snd (registry_remove (sv_registry w) fd)\<rparr>) = (vw_obs V w)(fd := vw_gone V)"
    and move: "vw_inv V w \<Longrightarrow> vw_obs V w fd = vw_enter V u old a \<Longrightarrow> is_c_string room \<Longrightarrow>
      length room < MAX_ROOM_NAME_LEN \<Longrightarrow>
      vw_inv V (w\<lparr>sv_registry := snd (registry_set_room (sv_registry w) fd room)\<rparr>) \<and>
      vw_obs V (w\<lparr>sv_registry := snd (registry_set_room (sv_registry w) fd room)\<rparr>) = (vw_obs V w)(fd := vw_enter V u room a)"
    and log: "vw_inv V w0 \<Longrightarrow> registry_get_room (sv_registry w0) fd MAX_ROOM_NAME_LEN = (CHAT_OK, room) \<Longrightarrow>
      vw_inv V w \<Longrightarrow> vw_inv V (w\<lparr>sv_rooms := snd (room_history_add m lt (sv_rooms w) room name c ts)\<rparr>)"
begin

lemma frame_step:
  assumes "vw_inv V w" and "sv_registry w' = sv_registry w" and "sv_rooms w' = sv_rooms w" and "sv_auth w' = sv_auth w"
    and "mq_inv (sv_queue w) \<longrightarrow> mq_inv (sv_queue w')" and "sv_active_connections w' = sv_active_connections w"
    and "sv_running w' \<longrightarrow> sv_running w"
  shows "own_step V fd w w'" and "vw_obs V w' = vw_obs V w"
  using frame [OF assms(1-5)] obs_frame [OF assms(2)] assms(6,7) by (simp_all add: own_step_def)

lemma safe_net:
  assumes "net_only f" and "\<And>b. safe_prog V fd Q s (k b)"
  shows "safe_prog V fd Q s (act f k)"
proof (rule safe_act)
  fix w b w'
  assume w: "vw_inv V w" "vw_obs V w fd = s" "f w = (b, w')"
  have n: "sv_registry w' = sv_registry w" "sv_rooms w' = sv_rooms w" "sv_queue w' = sv_queue w"
    "sv_active_connections w' = sv_active_connections w" "sv_running w' = sv_running w" "sv_auth w' = sv_auth w"
    using assms(1) w(3) by (metis net_only_def snd_conv)+
  from frame_step [OF w(1) n(1,2,6) _ n(4)] n(3,5) w(2) assms(2)
  show "own_step V fd w w' \<and> safe_prog V fd Q (vw_obs V w' fd) (k b)" by simp
qed

lemma safe_queue:
  assumes "\<And>b. safe_prog V fd Q s (k b)"
  shows "safe_prog V fd Q s (act (on_queue (mq_push m msg)) k)"
proof (rule safe_act)
  fix w b w'
  assume w: "vw_inv V w" "vw_obs V w fd = s" "on_queue (mq_push m msg) w = (b, w')"
  then have "w' = w\<lparr>sv_queue := snd (mq_push m msg (sv_queue w))\<rparr>" by (simp add: on_queue_def split_beta)
  with frame_step [OF w(1), of w'] w(2) assms mq_push_spec(1)
  show "own_step V fd w w' \<and> safe_prog V fd Q (vw_obs V w' fd) (k b)" by simp
qed

lemmas safe_enqueue = safe_queue [of fd Q s k "ee_mem ev" "room_event ev ty u rm" for fd Q s k ev ty u rm,
  folded enqueue_on_queue]

lemmas safe_rules = net_only_sends [THEN safe_net] safe_look safe_queue safe_enqueue

text \<open>The actions on the tables.\<close>

lemma safe_log:
  assumes "vw_inv V w0" and "registry_get_room (sv_registry w0) fd MAX_ROOM_NAME_LEN = (CHAT_OK, room)"
    and "\<And>b. safe_prog V fd Q s (k b)"
  shows "safe_prog V fd Q s (act (on_rooms (\<lambda>rooms. room_history_add m lt rooms room name c ts)) k)"
proof (rule safe_act)
  fix w b w'
  assume w: "vw_inv V w" "vw_obs V w fd = s" "on_rooms (\<lambda>rooms. room_history_add m lt rooms room name c ts) w = (b, w')"
  then have w': "w' = w\<lparr>sv_rooms := snd (room_history_add m lt (sv_rooms w) room name c ts)\<rparr>"
    by (simp add: on_rooms_def split_beta)
  have "vw_inv V w'" unfolding w' by (rule log [OF assms(1,2) w(1)])
  moreover have "vw_obs V w' = vw_obs V w" by (rule obs_frame) (simp add: w')
  ultimately show "own_step V fd w w' \<and> safe_prog V fd Q (vw_obs V w' fd) (k b)"
    using w(2) assms(3) by (simp add: own_step_def w')
qed

lemma safe_move:
  assumes "is_c_string room" and "length room < MAX_ROOM_NAME_LEN"
    and "\<And>b. safe_prog V fd Q (vw_enter V u room a) (k b)"
  shows "safe_prog V fd Q (vw_enter V u old a) (act (on_registry (\<lambda>reg. registry_set_room reg fd room)) k)"
proof (rule safe_act)
  fix w b w'
  assume w: "vw_inv V w" "vw_obs V w fd = vw_enter V u old a" "on_registry (\<lambda>reg. registry_set_room reg fd room) w = (b, w')"
  then have w': "w' = w\<lparr>sv_registry := snd (registry_set_room (sv_registry w) fd room)\<rparr>"
    by (simp add: on_registry_def split_beta)
  from move [OF w(1,2) assms(1,2)] assms(3)
  show "own_step V fd w w' \<and> safe_prog V fd Q (vw_obs V w' fd) (k b)" by (simp add: own_step_def w')
qed

lemma safe_remove:
  assumes "\<And>b. safe_prog V fd Q (vw_gone V) (k b)"
  shows "safe_prog V fd Q s (act (on_registry (\<lambda>reg. registry_remove reg fd)) k)"
proof (rule safe_act)
  fix w b w'
  assume w: "vw_inv V w" "vw_obs V w fd = s" "on_registry (\<lambda>reg. registry_remove reg fd) w = (b, w')"
  then have w': "w' = w\<lparr>sv_registry := snd (registry_remove (sv_registry w) fd)\<rparr>"
    by (simp add: on_registry_def split_beta)
  from remove [OF w(1), of fd] assms show "own_step V fd w w' \<and> safe_prog V fd Q (vw_obs V w' fd) (k b)"
    by (simp add: own_step_def w')
qed

lemma safe_add:
  assumes "vw_inv V w0" and "auth_verify evp (sv_auth w0) u pw = CHAT_OK" and "node_sized mem" and "is_c_string u"
    and "\<And>st. st \<noteq> CHAT_OK \<Longrightarrow> safe_prog V fd Q (vw_gone V) (k st)"
    and "safe_prog V fd Q (vw_enter V u DEFAULT_ROOM a) (k CHAT_OK)"
  shows "safe_prog V fd Q (vw_gone V) (act (on_registry (\<lambda>reg. registry_add mem reg fd u DEFAULT_ROOM a)) k)"
proof (rule safe_act)
  fix w st w'
  assume w: "vw_inv V w" "vw_obs V w fd = vw_gone V"
    "on_registry (\<lambda>reg. registry_add mem reg fd u DEFAULT_ROOM a) w = (st, w')"
  obtain reg' where r: "registry_add mem (sv_registry w) fd u DEFAULT_ROOM a = (st, reg')"
    and w': "w' = w\<lparr>sv_registry := reg'\<rparr>"
    using w(3) by (auto simp: on_registry_def split: prod.splits)
  from add [OF w(1,2) assms(3,4,1,2) r] w(2) assms(5,6)
  show "own_step V fd w w' \<and> safe_prog V fd Q (vw_obs V w' fd) (k st)" by (simp add: own_step_def w')
qed

text \<open>The handlers.\<close>

lemma safe_history: "safe_prog V fd (\<lambda>_ s'. s' = s) s (history_prog fd' room)"
  unfolding history_prog_def by (rule safe_look) (auto split: prod.split intro!: safe_rules)

lemma safe_list: "safe_prog V fd (\<lambda>_ s'. s' = s) s (list_prog fd)"
  unfolding list_prog_def by (auto split: prod.split intro!: safe_rules)

lemma safe_history_cmd: "safe_prog V fd (\<lambda>_ s'. s' = s) s (history_cmd_prog fd)"
  unfolding history_cmd_prog_def by (auto split: prod.split intro!: safe_rules safe_bind [OF safe_history])

lemma safe_pm: "safe_prog V fd (\<lambda>_ s'. s' = s) s (pm_prog e fd target content)"
  unfolding pm_prog_def by (auto split: prod.split intro!: safe_rules)

lemma safe_kick: "safe_prog V fd (\<lambda>_ s'. s' = s) s (kick_prog fd target)"
  unfolding kick_prog_def by (auto split: prod.split intro!: safe_rules)

lemma safe_msg: "safe_prog V fd (\<lambda>_ s'. s' = s) s (msg_prog e fd content)"
  unfolding msg_prog_def by (auto split: prod.split intro!: safe_rules safe_log simp: MAX_ROOM_NAME_LEN_def)

lemma safe_join_room:
  assumes "s = vw_enter V u rm a" and "is_c_string room" and "length room < MAX_ROOM_NAME_LEN"
  shows "safe_prog V fd (\<lambda>_ s'. \<exists>rm' a'. s' = vw_enter V u rm' a') s (join_room_prog e fd room)"
  using assms unfolding join_room_prog_def
  by (auto split: prod.split intro!: safe_rules safe_move safe_bind [OF safe_history] enter_ex)

lemma safe_auth:
  assumes "node_sized (ce_node e)" and "is_c_string u"
  shows "safe_prog V fd (\<lambda>st s'. if st = CHAT_OK then u \<noteq> [] \<and> (\<exists>rm a. s' = vw_enter V u rm a) else s' = vw_gone V)
    (vw_gone V) (auth_prog e fd u pw)"
  unfolding auth_prog_def
  by (auto intro!: safe_rules safe_add [OF _ _ assms] safe_remove safe_bind [OF safe_history] enter_ex)

lemma safe_leave:
  assumes "view_sync V h s"
  shows "safe_prog V (hd_fd h) (\<lambda>_ s'. s' = vw_gone V) s (leave_prog ev (hd_fd h) (hd_username h) (hd_authenticated h))"
  using assms unfolding leave_prog_def Let_def view_sync_def
  by (auto split: prod.split if_splits intro!: safe_rules safe_remove)

text \<open>One command.\<close>

lemma safe_dispatch:
  assumes "safe_prog V fd (\<lambda>_. view_sync V h) s p"
  shows "safe_prog V fd (\<lambda>(go, h') s'. hd_fd h' = hd_fd h \<and> view_sync V h' s') s (dispatch p h)"
  unfolding dispatch_def by (rule safe_bind [OF assms]) simp

lemma safe_handler:
  assumes "view_sync V h s" and "is_c_string line" and "node_sized (ce_node e)"
  shows "safe_prog V (hd_fd h) (\<lambda>(go, h') s'. hd_fd h' = hd_fd h \<and> view_sync V h' s') s (handler_prog e line h)"
proof -
  obtain pst cmd where p: "protocol_parse_client_line line = (pst, cmd)"
    by (cases "protocol_parse_client_line line")
  have args: "args_ok cmd" if "pst = CHAT_OK" using parse_client_line_args [OF _ assms(2)] p that by simp
  have refuse: "safe_prog V (hd_fd h) (\<lambda>(go, h') s'. hd_fd h' = hd_fd h \<and> view_sync V h' s') s
      (refuse_prog (hd_fd h) msg h)" for msg
    unfolding refuse_prog_def using assms(1) by (auto intro!: safe_rules)
  show ?thesis
  proof (cases "pst = CHAT_OK \<and> (hd_authenticated h \<longleftrightarrow> pc_cmd cmd \<noteq> CMD_AUTH)")
    case False
    with p refuse show ?thesis
      by (auto simp: handler_prog_def Let_def split: client_cmd.split)
  next
    case ok: True
    note a = args [OF ok [THEN conjunct1]]
    show ?thesis
    proof (cases "hd_authenticated h")
      case False
      with ok have c: "pc_cmd cmd = CMD_AUTH" by simp
      have "is_c_string (pc_arg1 cmd)" using a by (simp add: args_ok_def)
      from safe_auth [OF assms(3) this] False assms(1) p ok c a show ?thesis
        by (auto simp: handler_prog_def view_sync_def args_ok_def Let_def intro!: safe_bind split: if_splits)
    next
      case True
      with assms(1) obtain rm ad where s: "s = vw_enter V (hd_username h) rm ad" "hd_username h \<noteq> []"
        by (auto simp: view_sync_def)
      have same: "safe_prog V (hd_fd h) (\<lambda>(go, h') s'. hd_fd h' = hd_fd h \<and> view_sync V h' s') s (dispatch q h)"
        if "safe_prog V (hd_fd h) (\<lambda>_ s'. s' = s) s q" for q
        using that assms(1) by (intro safe_dispatch) (erule safe_conseq, simp)
      have "safe_prog V (hd_fd h) (\<lambda>_. view_sync V h) s (join_room_prog e (hd_fd h) (pc_arg1 cmd))"
        if "pc_cmd cmd = CMD_JOIN_ROOM"
        using a that s True by (intro safe_conseq [OF safe_join_room [OF s(1)]]) (auto simp: args_ok_def view_sync_def)
      with p ok True assms(1) same safe_list safe_history_cmd safe_pm safe_kick safe_msg refuse safe_dispatch show ?thesis
        by (auto simp: handler_prog_def Let_def split: client_cmd.split)
    qed
  qed
qed

end

section \<open>The three views\<close>

definition table_view :: "bool view" where
  "table_view = \<lparr>vw_inv = table_ok, vw_obs = (\<lambda>w fd. fd \<in> set (online_fds w)), vw_enter = (\<lambda>_ _ _. True), vw_gone = False\<rparr>"

definition name_view :: "session option view" where
  "name_view = \<lparr>vw_inv = (\<lambda>w. world_inv w \<and> names_short (sv_auth w)), vw_obs = sessions,
     vw_enter = (\<lambda>u rm a. Some (u, rm, a)), vw_gone = None\<rparr>"

definition auth_view :: "auth_db \<Rightarrow> unit view" where
  "auth_view db = \<lparr>vw_inv = (\<lambda>w. sv_auth w = db), vw_obs = (\<lambda>_ _. ()), vw_enter = (\<lambda>_ _ _. ()), vw_gone = ()\<rparr>"

lemma view_simps [simp]:
  "vw_inv table_view = table_ok" "vw_obs table_view w fd \<longleftrightarrow> fd \<in> set (online_fds w)"
  "vw_enter table_view u rm a" "\<not> vw_gone table_view"
  "vw_inv name_view w \<longleftrightarrow> world_inv w \<and> names_short (sv_auth w)" "vw_obs name_view = sessions"
  "vw_enter name_view u rm a = Some (u, rm, a)" "vw_gone name_view = None"
  "vw_inv (auth_view db) w \<longleftrightarrow> sv_auth w = db"
  by (simp_all add: table_view_def name_view_def auth_view_def)

lemma name_view_add:
  assumes "world_inv w" "sessions w fd = None" "node_sized mem" "is_c_string u" "names_short (sv_auth w0)"
    "auth_verify evp (sv_auth w0) u pw = CHAT_OK" "registry_add mem (sv_registry w) fd u DEFAULT_ROOM a = (st, reg')"
  shows "world_inv (w\<lparr>sv_registry := reg'\<rparr>) \<and>
    registry_sessions reg' = (if st = CHAT_OK then (sessions w)(fd \<mapsto> (u, DEFAULT_ROOM, a)) else sessions w)"
proof -
  note mem = login_mem_ok [OF assms(6,5,3,4)]
  note inv = registry_add_inv [OF world_invD(1) [OF assms(1)] mem assms(2), of a]
  show ?thesis
    using inv(1) inv(2) [of reg'] registry_add_fails [OF assms(7)] assms(1,7) by (simp add: world_inv_def)
qed

interpretation table: session_view table_view
proof (unfold_locales, goal_cases)
  case (3 w fd mem u w0 evp pw a st reg')
  then show ?case
    using registry_add_fds [of mem "sv_registry w" fd u DEFAULT_ROOM a]
    by (auto simp: fun_eq_iff table_ok_def simp del: set_map)
next
  case (4 w fd)
  then show ?case
    by (simp add: fun_eq_iff table_ok_def registry_remove_fds set_remove1_eq del: set_map)
next
  case (5 w fd u old a room)
  then show ?case by (simp add: fun_eq_iff table_ok_def registry_set_room_fds del: set_map)
qed (simp_all add: table_ok_def fun_eq_iff del: set_map)

interpretation names: session_view name_view
proof (unfold_locales, goal_cases)
  case (3 w fd mem u w0 evp pw a st reg')
  then show ?case using name_view_add [of w fd mem u w0 evp pw a st reg'] by simp
next
  case (4 w fd)
  then show ?case using registry_remove_inv(1,2) [of "sv_registry w" fd] by (simp add: world_inv_def)
next
  case (5 w fd u old a room)
  then show ?case using registry_set_room_inv [of "sv_registry w" room fd] by (simp add: world_inv_def)
next
  case (6 w0 fd room w m lt name c ts)
  then have "room_name_ok room"
    using registry_sessions_short [OF world_invD(1), of w0 fd]
    by (auto simp: lookup_simps room_name_ok_def split: option.splits)
  with 6 room_history_add_spec [of "sv_rooms w" room] show ?case by (simp add: world_inv_def)
qed (simp_all add: world_inv_def)

interpretation auth: session_view "auth_view db" for db
  by unfold_locales (simp_all add: fun_eq_iff)

end
