(* ===== verification/Server_System.thy ===== *)
theory Server_System
  imports Descriptors
begin

text \<open>
  The whole server as a step relation: the accept loop, the client threads, the broadcaster,
  the signal handler, the shutdown and the kernel take turns in any order, one turn of a
  loop at a time. The state is the shared state together with the threads that are alive,
  each under its descriptor. \<open>lt\<close> is the time zone of the machine.
\<close>

section \<open>Steps\<close>

text \<open>
  The threads of the clients, and where each thread is in its loop: every loop tests
  \<open>running\<close> and then waits in a call, \<open>accept\<close>, \<open>recv\<close> or \<open>pthread_cond_wait\<close>, and what the
  call returns is handled whatever has become of \<open>running\<close> in the meantime. \<open>ph_recv\<close> are the
  clients' threads that are past their test.
\<close>

type_synonym threads = "int \<Rightarrow> handler option"

datatype main_phase = Main_Test | Main_Accepting | Main_Joining

datatype bcast_phase = Bcast_Test | Bcast_Popping | Bcast_Left

record phases =
  ph_main :: main_phase
  ph_recv :: "int set"
  ph_bcast :: bcast_phase

type_synonym system = "world \<times> threads \<times> phases"

inductive server_step :: "(int \<Rightarrow> tm option) \<Rightarrow> system \<Rightarrow> system \<Rightarrow> bool"
  for lt :: "int \<Rightarrow> tm option" where
  main_test: "server_step lt (w, hs, p) (w, hs, p\<lparr>ph_main := Main_Accepting\<rparr>)"
    if "ph_main p = Main_Test" and "sv_running w"
| accept_starts: "server_step lt (w, hs, p) (w', hs(fd \<mapsto> new_handler fd line), p\<lparr>ph_main := Main_Test\<rparr>)"
    if "ph_main p = Main_Accepting" and "hs fd = None" and "0 \<le> fd"
      and "accept_turn (Accepted fd) malloc_ok thread_ok w = (Some fd, w')" and "length line = MAX_LINE_LEN"
| accept_none: "server_step lt (w, hs, p) (w', hs, p\<lparr>ph_main := Main_Test\<rparr>)"
    if "ph_main p = Main_Accepting" and "accept_turn res malloc_ok thread_ok w = (None, w')"
      and "case res of Accepted fd \<Rightarrow> hs fd = None \<and> 0 \<le> fd | _ \<Rightarrow> True"
| shutdown: "server_step lt (w, hs, p) (server_shutdown mem_ok junk w, hs, p\<lparr>ph_main := Main_Joining\<rparr>)"
    if "ph_main p = Main_Test" and "\<not> sv_running w"
| recv_test: "server_step lt (w, hs, p) (w, hs, p\<lparr>ph_recv := insert fd (ph_recv p)\<rparr>)"
    if "hs fd = Some h" and "sv_running w"
| command: "server_step lt (w, hs, p) (w', hs(fd \<mapsto> h'), p\<lparr>ph_recv := ph_recv p - {fd}\<rparr>)"
    if "fd \<in> ph_recv p" and "hs fd = Some h" and "node_sized (ce_node e)"
      and "handler_command e (c_str line) (h\<lparr>hd_line := line\<rparr>) w = (True, h', w')"
      and "length line = MAX_LINE_LEN"
| command_ends: "server_step lt (w, hs, p)
      (disconnect_client ev (hd_fd h') (hd_username h') (hd_authenticated h') w', hs(fd := None),
       p\<lparr>ph_recv := ph_recv p - {fd}\<rparr>)"
    if "fd \<in> ph_recv p" and "hs fd = Some h" and "node_sized (ce_node e)"
      and "handler_command e (c_str line) (h\<lparr>hd_line := line\<rparr>) w = (False, h', w')"
      and "length line = MAX_LINE_LEN"
| hangup: "server_step lt (w, hs, p)
      (disconnect_client ev (hd_fd h) (hd_username h) (hd_authenticated h) w, hs(fd := None),
       p\<lparr>ph_recv := ph_recv p - {fd}\<rparr>)"
    if "hs fd = Some h" and "fd \<in> ph_recv p \<or> \<not> sv_running w"
| bcast_test: "server_step lt (w, hs, p) (w, hs, p\<lparr>ph_bcast := Bcast_Popping\<rparr>)"
    if "ph_bcast p = Bcast_Test" and "sv_running w"
| bcast_leaves: "server_step lt (w, hs, p) (w, hs, p\<lparr>ph_bcast := Bcast_Left\<rparr>)"
    if "ph_bcast p = Bcast_Test" and "\<not> sv_running w"
| broadcast: "server_step lt (w, hs, p) (w', hs, p\<lparr>ph_bcast := Bcast_Test\<rparr>)"
    if "ph_bcast p = Bcast_Popping" and "broadcaster_turn lt w = Bc_Next w'"
| broadcast_ends: "server_step lt (w, hs, p) (w', hs, p\<lparr>ph_bcast := Bcast_Left\<rparr>)"
    if "ph_bcast p = Bcast_Popping" and "broadcaster_turn lt w = Bc_Exit w'"
| signal: "server_step lt (w, hs, p) (signal_handler g w, hs, p)"
| kernel: "server_step lt (w, hs, p) (w\<lparr>w_net := (w_net w)\<lparr>nt_script := script\<rparr>\<rparr>, hs, p)"

text \<open>The states the server can get to from a successful start.\<close>

definition first_phases :: phases where
  "first_phases = \<lparr>ph_main = Main_Test, ph_recv = {}, ph_bcast = Bcast_Test\<rparr>"

inductive reachable :: "(int \<Rightarrow> tm option) \<Rightarrow> system \<Rightarrow> bool"
  for lt :: "int \<Rightarrow> tm option" where
  start: "reachable lt (w, Map.empty, first_phases)"
    if "server_init ie net port users_db = Some (CHAT_OK, w0)"
      and "server_listen lfd True True True True w0 = (CHAT_OK, w)"
| step: "reachable lt s'" if "reachable lt s" and "server_step lt s s'"

inductive_cases server_stepE: "server_step lt (w, hs, p) (w', hs', p')"

section \<open>The invariant\<close>

text \<open>
  The counter and the table against the threads. Nothing is asked of the names in the table:
  the invariant holds for every database and for whatever the allocator's memory held.
\<close>

definition server_inv :: "world \<times> threads \<Rightarrow> bool" where
  "server_inv s \<longleftrightarrow> (case s of (w, hs) \<Rightarrow>
     table_ok w \<and> finite (dom hs) \<and> sv_active_connections w = int (card (dom hs)) \<and>
     card (dom hs) \<le> MAX_CLIENTS \<and>
     (\<forall>fd h. hs fd = Some h \<longrightarrow> hd_fd h = fd \<and> 0 \<le> fd \<and> handler_on w h) \<and>
     set (online_fds w) \<subseteq> dom hs)"

lemma server_invD:
  assumes "server_inv (w, hs)"
  shows "table_ok w" "finite (dom hs)" "sv_active_connections w = int (card (dom hs))"
    "card (dom hs) \<le> 100" "hs fd = Some h \<Longrightarrow> hd_fd h = fd \<and> 0 \<le> fd \<and> handler_on w h"
    "set (online_fds w) \<subseteq> dom hs"
  using assms by (auto simp: server_inv_def)

lemma server_invI:
  assumes "table_ok w" "finite (dom hs)" "sv_active_connections w = int (card (dom hs))" "card (dom hs) \<le> 100"
    and "\<And>fd h. hs fd = Some h \<Longrightarrow> hd_fd h = fd \<and> 0 \<le> fd \<and> handler_on w h" and "set (online_fds w) \<subseteq> dom hs"
  shows "server_inv (w, hs)"
  using assms by (simp add: server_inv_def)

lemma handler_on_other:
  "(hd_fd h \<in> set (online_fds w') \<longleftrightarrow> hd_fd h \<in> set (online_fds w)) \<Longrightarrow> handler_on w' h = handler_on w h"
  by (simp add: handler_on_def del: set_map)

lemma handler_on_line [simp]: "handler_on w (h\<lparr>hd_line := line\<rparr>) = handler_on w h"
  by (simp add: handler_on_def)

text \<open>A step that leaves the table and the counter alone keeps the invariant.\<close>

lemma server_inv_quiet:
  assumes "server_inv (w, hs)" and "table_ok w'" and "online_fds w' = online_fds w"
    and "sv_active_connections w' = sv_active_connections w"
  shows "server_inv (w', hs)"
proof -
  have "handler_on w' h = handler_on w h" for h using assms(3) by (intro handler_on_other) (simp only:)
  with assms show ?thesis by (simp add: server_inv_def del: set_map)
qed

lemma server_inv_gone:
  assumes inv: "server_inv (w, hs)" and "hs fd = Some h" and "table_ok w'"
    and "set (online_fds w') = set (online_fds w) - {fd}"
    and "sv_active_connections w' = counted_off (sv_active_connections w)"
  shows "server_inv (w', hs(fd := None))"
proof -
  have fd: "fd \<in> dom hs" using assms(2) by blast
  have card: "card (dom hs) = Suc (card (dom hs - {fd}))"
    using fd server_invD(2) [OF inv] by (metis card.remove)
  have act: "sv_active_connections w' = int (card (dom hs - {fd}))"
    using assms(5) server_invD(3) [OF inv] card by (simp add: counted_off_def)
  have on: "hd_fd k = x \<and> 0 \<le> x \<and> handler_on w' k" if "hs x = Some k" "x \<noteq> fd" for x k
    using server_invD(5) [OF inv that(1)] that(2) assms(4) handler_on_other [of k w' w] by blast
  show ?thesis
  proof (rule server_invI)
    show "hd_fd k = x \<and> 0 \<le> x \<and> handler_on w' k" if "(hs(fd := None)) x = Some k" for x k
      using that on by (cases "x = fd") simp_all
    show "set (online_fds w') \<subseteq> dom (hs(fd := None))" using server_invD(6) [OF inv] unfolding assms(4) by auto
  qed (use assms(3) act card server_invD(2,4) [OF inv] in simp_all)
qed

lemma server_inv_command:
  assumes inv: "server_inv (w, hs)" and h: "hs fd = Some h" and "table_ok w'" and "handler_on w' h'"
    and "hd_fd h' = fd" and other: "\<forall>x. x \<noteq> fd \<longrightarrow> (x \<in> set (online_fds w') \<longleftrightarrow> x \<in> set (online_fds w))"
    and "sv_active_connections w' = sv_active_connections w"
  shows "server_inv (w', hs(fd \<mapsto> h'))"
proof -
  have dom: "dom (hs(fd \<mapsto> h')) = dom hs" using h by auto
  have on: "hd_fd k = x \<and> 0 \<le> x \<and> handler_on w' k" if "hs x = Some k" "x \<noteq> fd" for x k
    using server_invD(5) [OF inv that(1)] that(2) other handler_on_other [of k w' w] by blast
  show ?thesis
  proof (rule server_invI)
    show "hd_fd k = x \<and> 0 \<le> x \<and> handler_on w' k" if "(hs(fd \<mapsto> h')) x = Some k" for x k
      using that on assms(4,5) server_invD(5) [OF inv h] by (cases "x = fd") simp_all
    show "set (online_fds w') \<subseteq> dom (hs(fd \<mapsto> h'))" unfolding dom
    proof
      fix x
      assume "x \<in> set (online_fds w')"
      with other server_invD(6) [OF inv] h show "x \<in> dom hs" by (cases "x = fd") (blast, blast)
    qed
  qed (use assms(3,7) server_invD(2-4) [OF inv] dom in \<open>simp_all del: dom_fun_upd\<close>)
qed

lemma server_inv_start:
  assumes inv: "server_inv (w, hs)" and "hs fd = None" and "0 \<le> fd" and "card (dom hs) < 100"
    and "table_ok w'" and fds: "online_fds w' = online_fds w" and "sv_active_connections w' = sv_active_connections w + 1"
  shows "server_inv (w', hs(fd \<mapsto> new_handler fd line))"
proof -
  have "fd \<notin> dom hs" using assms(2) by blast
  then have card: "card (dom (hs(fd \<mapsto> new_handler fd line))) = Suc (card (dom hs))"
    and "fd \<notin> set (online_fds w)"
    using server_invD(2,6) [OF inv] by (simp, blast)
  then have new: "handler_on w' (new_handler fd line)" unfolding handler_on_def fds by (simp add: new_handler_def)
  have on: "hd_fd k = x \<and> 0 \<le> x \<and> handler_on w' k" if "hs x = Some k" for x k
    using server_invD(5) [OF inv that] handler_on_other [of k w' w, unfolded fds] by blast
  show ?thesis
  proof (rule server_invI)
    show "hd_fd k = x \<and> 0 \<le> x \<and> handler_on w' k" if "(hs(fd \<mapsto> new_handler fd line)) x = Some k" for x k
      using that on new assms(3) by (cases "x = fd") (auto simp: new_handler_def)
    show "set (online_fds w') \<subseteq> dom (hs(fd \<mapsto> new_handler fd line))" using server_invD(6) [OF inv] unfolding fds by auto
  qed (use assms(4,5,7) card server_invD(2,3) [OF inv] in \<open>simp_all del: dom_fun_upd\<close>, simp)
qed

section \<open>The turns of the other threads\<close>

lemma accept_turn_Some:
  "accept_turn res malloc_ok thread_ok w = (Some fd, w') \<Longrightarrow>
   res = Accepted fd \<and> sv_active_connections w < 100 \<and> w' = conn_track_increment w"
  by (auto simp: accept_turn_def conn_at_capacity_def Let_def split: accept_res.splits if_splits)

lemma accept_turn_None:
  assumes "accept_turn res malloc_ok thread_ok w = (None, w')" and "table_ok w" and "0 \<le> sv_active_connections w"
  shows "table_ok w' \<and> online_fds w' = online_fds w \<and> sv_active_connections w' = sv_active_connections w \<and>
     sv_running w' = sv_running w"
  using assms
  by (auto simp: accept_turn_def Let_def conn_track_increment_def conn_track_decrement_def frame_simps
      refuse_send_err table_ok_def split: accept_res.splits if_splits)

lemma mq_pop_inv:
  assumes "mq_inv q" and "mq_pop q = Pop_Returns st m q'"
  shows "mq_inv q'"
proof (cases "mq_contents q")
  case Nil
  with assms show ?thesis using mq_pop_empty [OF assms(1)] by (auto split: if_splits)
next
  case (Cons a as)
  with assms show ?thesis using mq_pop_Cons [OF assms(1)] by fastforce
qed

lemma broadcaster_turn_quiet:
  assumes "table_ok w" and "broadcaster_turn lt w = Bc_Next w' \<or> broadcaster_turn lt w = Bc_Exit w'"
  shows "table_ok w' \<and> online_fds w' = online_fds w \<and> sv_active_connections w' = sv_active_connections w \<and>
     sv_running w' = sv_running w"
proof (cases "mq_pop (sv_queue w)")
  case (Pop_Returns st m q)
  have "mq_inv q" using mq_pop_inv [OF _ Pop_Returns] assms(1) by (simp add: table_ok_def)
  with assms Pop_Returns show ?thesis
    by (auto simp: broadcaster_turn_def Let_def frame_simps table_ok_def split: option.splits if_splits)
qed (use assms in \<open>auto simp: broadcaster_turn_def\<close>)

lemma server_shutdown_frame [frame_simps]:
  "sv_running (server_shutdown mem_ok junk w) = False"
  "sv_active_connections (server_shutdown mem_ok junk w) = sv_active_connections w"
  "sv_registry (server_shutdown mem_ok junk w) = sv_registry w"
  "sv_rooms (server_shutdown mem_ok junk w) = sv_rooms w"
  "nt_wire (w_net (server_shutdown mem_ok junk w)) = nt_wire (w_net w)"
  "sv_listen_fd (server_shutdown mem_ok junk w) = (if 0 \<le> sv_listen_fd w then -1 else sv_listen_fd w)"
  by (simp_all add: server_shutdown_def Let_def frame_simps)

lemma server_shutdown_queue:
  assumes "mq_inv (sv_queue w)"
  shows "mq_inv (sv_queue (server_shutdown mem_ok junk w))"
    and "events (server_shutdown mem_ok junk w) = events w"
    and "mq_shutdown (sv_queue (server_shutdown mem_ok junk w))"
proof -
  let ?w2 = "if sv_listen_fd (w\<lparr>sv_running := False\<rparr>) \<ge> 0
     then (sys_close (sv_listen_fd (w\<lparr>sv_running := False\<rparr>)) (w\<lparr>sv_running := False\<rparr>))\<lparr>sv_listen_fd := -1\<rparr>
     else w\<lparr>sv_running := False\<rparr>"
  have q: "sv_queue ?w2 = sv_queue w" by (simp add: frame_simps)
  note s = mq_signal_shutdown_inv [OF assms]
  note p = mq_push_spec [OF s [THEN conjunct1]]
  show "mq_inv (sv_queue (server_shutdown mem_ok junk w))" "events (server_shutdown mem_ok junk w) = events w"
    "mq_shutdown (sv_queue (server_shutdown mem_ok junk w))"
    unfolding server_shutdown_def Let_def using p s by (simp_all add: frame_simps)
qed

lemma server_init_OK:
  assumes "server_init ie net port users_db = Some (CHAT_OK, w)"
  shows "world_inv w \<and> sessions w = Map.empty \<and> events w = [] \<and> logs w = (\<lambda>_. []) \<and>
     sv_running w \<and> sv_active_connections w = 0 \<and> sv_listen_fd w = -1 \<and> sv_port w = port \<and> w_net w = net \<and>
     ad_head (sv_auth w) \<noteq> [] \<and> sv_queue w = mq_empty"
proof -
  obtain st rooms where r: "room_manager_init (ie_rooms_mutex ie) (ie_rooms_mem ie) = (st, rooms)"
    by (cases "room_manager_init (ie_rooms_mutex ie) (ie_rooms_mem ie)")
  obtain st' auth where a: "auth_init (ie_files ie) (ie_auth_mutex ie) (ie_auth_mems ie) users_db = (st', auth)"
    by (cases "auth_init (ie_files ie) (ie_auth_mutex ie) (ie_auth_mems ie) users_db")
  have ok: "st = CHAT_OK" "st' = CHAT_OK" "sv_rooms w = rooms" "sv_auth w = auth" "sv_registry w = registry_empty"
    "sv_queue w = mq_empty" "sv_running w" "sv_active_connections w = 0" "sv_listen_fd w = -1" "sv_port w = port"
    "w_net w = net"
    using assms r a
    by (auto simp: server_init_def Let_def registry_init_def mq_init_def split: if_splits)
  have users: "ad_head auth \<noteq> []"
    using a ok(2) by (auto simp: auth_init_def Let_def split: if_splits option.splits prod.splits chat_status.splits)
  have "registry_sessions registry_empty = Map.empty"
    by (simp add: registry_sessions_def registry_empty_def fun_eq_iff)
  moreover have "mq_contents mq_empty = []" by (simp add: mq_contents_def mq_empty_def)
  ultimately show ?thesis
    using ok r room_manager_init_inv [of _ _ rooms] users registry_inv_empty mq_inv_empty
    by (auto simp: world_inv_def)
qed

lemma server_init_nodes:
  "server_init ie net port users_db = Some (CHAT_OK, w) \<Longrightarrow> cr_nodes (sv_registry w) = []"
  by (auto simp: server_init_def Let_def registry_init_def mq_init_def registry_empty_def split: prod.splits if_splits)

lemma server_listen_OK:
  "server_listen fd a b c d w = (CHAT_OK, w') \<Longrightarrow> w' = w\<lparr>sv_listen_fd := fd, sv_broadcaster_tid := True\<rparr>"
  by (auto simp: server_listen_def abandon_listener_def Let_def split: if_splits)

section \<open>Every step keeps the invariant\<close>

definition system_inv :: "system \<Rightarrow> bool" where
  "system_inv s \<longleftrightarrow> (case s of (w, hs, p) \<Rightarrow> server_inv (w, hs) \<and> ph_recv p \<subseteq> dom hs)"

lemma server_inv_accept:
  assumes inv: "server_inv (w, hs)" and "hs fd = None" and "0 \<le> fd"
    and "accept_turn (Accepted fd) malloc_ok thread_ok w = (Some fd, w')"
  shows "server_inv (w', hs(fd \<mapsto> new_handler fd line))"
proof -
  have a: "sv_active_connections w < 100" "w' = conn_track_increment w"
    using accept_turn_Some [OF assms(4)] by simp_all
  show ?thesis
    using server_invD(1,3) [OF inv] a assms(2,3)
    by (intro server_inv_start [OF inv]) (simp_all add: conn_track_increment_def table_ok_def)
qed

lemma handler_turn:
  assumes inv: "server_inv (w, hs)" and h: "hs fd = Some h"
    and "handler_command e (c_str line) (h\<lparr>hd_line := line\<rparr>) w = (go, h', w')"
  shows "server_inv (w', hs(fd \<mapsto> h'))" and "hd_fd h' = fd" and "sv_running w' = sv_running w"
proof -
  have fd: "hd_fd h = fd" "handler_on w (h\<lparr>hd_line := line\<rparr>)"
    using server_invD(5) [OF inv h] by simp_all
  note w' = handler_command_on [OF server_invD(1) [OF inv] fd(2) assms(3), simplified fd(1)]
  then show "hd_fd h' = fd" "sv_running w' = sv_running w" using fd(1) by simp_all
  show "server_inv (w', hs(fd \<mapsto> h'))" by (rule server_inv_command [OF inv h]) (use w' fd(1) in simp_all)
qed

lemma server_inv_disconnect:
  assumes inv: "server_inv (w, hs)" and h: "hs fd = Some h"
  shows "server_inv (disconnect_client ev (hd_fd h) (hd_username h) (hd_authenticated h) w, hs(fd := None))"
proof -
  have fd: "hd_fd h = fd" "handler_on w h" using server_invD(5) [OF inv h] by simp_all
  note w' = disconnect_on [OF server_invD(1) [OF inv] fd(2) refl, of ev]
  show ?thesis by (rule server_inv_gone [OF inv h]) (use w' fd(1) in \<open>simp_all del: set_map\<close>)
qed

lemma server_inv_shutdown:
  assumes inv: "server_inv (w, hs)"
  shows "server_inv (server_shutdown mem_ok junk w, hs)"
proof -
  have "table_ok (server_shutdown mem_ok junk w)"
    using server_invD(1) [OF inv] server_shutdown_queue(1) by (simp add: table_ok_def frame_simps)
  then show ?thesis
    using server_inv_quiet [OF inv, of "server_shutdown mem_ok junk w"] by (simp add: frame_simps)
qed

lemma recv_gone: "A \<subseteq> dom hs \<Longrightarrow> A - {fd} \<subseteq> dom (hs(fd := None))"
  by auto

lemma server_step_inv:
  assumes "server_step lt s s'" and "system_inv s"
  shows "system_inv s'"
  using assms
proof (cases rule: server_step.cases)
  case (accept_starts p hs fd malloc_ok thread_ok w w' line)
  then have inv: "server_inv (w, hs)" "ph_recv p \<subseteq> dom hs" using assms(2) by (simp_all add: system_inv_def)
  from server_inv_accept [OF inv(1) accept_starts(4-6)] accept_starts(2) inv(2) show ?thesis
    by (simp add: system_inv_def subset_insertI2)
next
  case (accept_none p res malloc_ok thread_ok w w' hs)
  then have inv: "server_inv (w, hs)" using assms(2) by (simp add: system_inv_def)
  then have "0 \<le> sv_active_connections w" by (simp add: server_invD(3))
  from accept_turn_None [OF accept_none(4) server_invD(1) [OF inv] this] show ?thesis
    using accept_none assms(2) server_inv_quiet [OF inv] by (simp add: system_inv_def)
next
  case (command fd p hs h e line w h' w')
  then have inv: "server_inv (w, hs)" "ph_recv p \<subseteq> dom hs" using assms(2) by (simp_all add: system_inv_def)
  have "ph_recv p - {fd} \<subseteq> dom (hs(fd \<mapsto> h'))" using inv(2) by (simp add: Diff_subset_conv subset_insertI2)
  with handler_turn(1) [OF inv(1) command(4,6)] command(2) show ?thesis by (simp add: system_inv_def del: dom_fun_upd)
next
  case (command_ends fd p hs h e line w h' w' ev)
  then have inv: "server_inv (w, hs)" "ph_recv p \<subseteq> dom hs" using assms(2) by (simp_all add: system_inv_def)
  have "server_inv (w', hs(fd \<mapsto> h'))" by (rule handler_turn(1) [OF inv(1) command_ends(4,6)])
  from server_inv_disconnect [OF this, of fd h' ev] have
    "server_inv (disconnect_client ev (hd_fd h') (hd_username h') (hd_authenticated h') w', hs(fd := None))"
    by simp
  with recv_gone [OF inv(2)] command_ends(2) show ?thesis by (simp add: system_inv_def del: dom_fun_upd)
next
  case (hangup hs fd h p w ev)
  then have inv: "server_inv (w, hs)" "ph_recv p \<subseteq> dom hs" using assms(2) by (simp_all add: system_inv_def)
  from server_inv_disconnect [OF inv(1) hangup(3), of ev] recv_gone [OF inv(2)] hangup(2) show ?thesis
    by (simp add: system_inv_def del: dom_fun_upd)
next
  case (broadcast p w w' hs)
  then have inv: "server_inv (w, hs)" using assms(2) by (simp add: system_inv_def)
  from broadcaster_turn_quiet [OF server_invD(1) [OF inv], of lt w'] broadcast assms(2) show ?thesis
    using server_inv_quiet [OF inv] by (simp add: system_inv_def)
next
  case (broadcast_ends p w w' hs)
  then have inv: "server_inv (w, hs)" using assms(2) by (simp add: system_inv_def)
  from broadcaster_turn_quiet [OF server_invD(1) [OF inv], of lt w'] broadcast_ends assms(2) show ?thesis
    using server_inv_quiet [OF inv] by (simp add: system_inv_def)
next
  case (signal w hs p g)
  then have inv: "server_inv (w, hs)" using assms(2) by (simp add: system_inv_def)
  have "server_inv (signal_handler g w, hs)"
    using server_invD(1) [OF inv]
    by (auto intro!: server_inv_quiet [OF inv] simp: signal_handler_def table_ok_def)
  then show ?thesis using signal assms(2) by (simp add: system_inv_def)
next
  case (kernel w hs p script)
  then have inv: "server_inv (w, hs)" using assms(2) by (simp add: system_inv_def)
  have "server_inv (w\<lparr>w_net := (w_net w)\<lparr>nt_script := script\<rparr>\<rparr>, hs)"
    using server_invD(1) [OF inv] by (auto intro!: server_inv_quiet [OF inv] simp: table_ok_def)
  then show ?thesis using kernel assms(2) by (simp add: system_inv_def)
next
  case (shutdown p w hs mem_ok junk)
  then show ?thesis using assms(2) server_inv_shutdown by (simp add: system_inv_def)
qed (use assms(2) in \<open>auto simp: system_inv_def\<close>)

lemma reachable_inv: "reachable lt s \<Longrightarrow> system_inv s"
proof (induction rule: reachable.induct)
  case (start ie net port users_db w0 lfd w)
  have "w = w0\<lparr>sv_listen_fd := lfd, sv_broadcaster_tid := True\<rparr>"
    using server_listen_OK [OF start(2)] .
  moreover have "cr_nodes (sv_registry w0) = []" using server_init_nodes [OF start(1)] .
  ultimately show ?case using server_init_OK [OF start(1)] mq_inv_empty
    by (simp add: system_inv_def server_inv_def table_ok_def first_phases_def)
next
  case (step s s')
  then show ?case using server_step_inv by blast
qed


section \<open>Properties\<close>

text \<open>
  In every state the server can get to when its threads take turns in any order,
  whatever the names in the user database and whatever the allocator's memory held: the
  counter is the number of client threads and at most 100, no descriptor is in the table
  twice, and the descriptors in the table are exactly those of the threads that are logged
  in. So a session never outlives its connection, and a descriptor the kernel hands out again
  is nobody's.
\<close>

theorem server_reachable_consistent:
  assumes "reachable lt (w, hs, p)"
  shows "sv_active_connections w = int (card (dom hs)) \<and> card (dom hs) \<le> MAX_CLIENTS \<and>
     distinct (map cn_sockfd (cr_nodes (sv_registry w))) \<and>
     (\<forall>fd. sessions w fd \<noteq> None \<longleftrightarrow> (\<exists>h. hs fd = Some h \<and> hd_authenticated h)) \<and>
     (\<forall>fd h. hs fd = Some h \<longrightarrow> hd_fd h = fd \<and> 0 \<le> fd)"
proof -
  have inv: "server_inv (w, hs)" using reachable_inv [OF assms] by (simp add: system_inv_def)
  have "sessions w fd \<noteq> None \<longleftrightarrow> (\<exists>h. hs fd = Some h \<and> hd_authenticated h)" for fd
    unfolding sessions_online using server_invD(5,6) [OF inv] by (auto simp: handler_on_def simp del: set_map)
  moreover have "distinct (online_fds w)" using server_invD(1) [OF inv] by (simp add: table_ok_def)
  ultimately show ?thesis
    using server_invD(3,4,5) [OF inv] by simp
qed

definition sample_init :: init_env where
  "sample_init = \<lparr>ie_conn_mutex = True, ie_registry_mutex = True, ie_mq_mutex = True, ie_mq_cond = True,
     ie_rooms_mutex = True, ie_rooms_mem = True, ie_auth_mutex = True, ie_auth_mems = [],
     ie_files = (\<lambda>_. Some (''carol:0a:1'' @ [LF]))\<rparr>"

definition quiet_net :: net where
  "quiet_net = \<lparr>nt_script = (\<lambda>_. []), nt_wire = (\<lambda>_. []), nt_shutdown = [], nt_closed = []\<rparr>"

lemma sample_init_users:
  "\<exists>w. server_init sample_init quiet_net 8080 (Some ''u'') = Some (CHAT_OK, w) \<and>
     ad_head (sv_auth w) = [sample_user ''carol'' ''0a'' True]"
proof -
  let ?f = "''carol:0a:1'' @ [LF]"
  have rl: "read_lines (length ?f) 512 ?f = [?f]"
    by (simp add: fgets_line_def c_str_def)
  have u: "user_of_line ?f = Some (sample_user ''carol'' ''0a'' True)"
    using user_of_line_user_line [of "sample_user ''carol'' ''0a'' True"]
    by (simp add: user_line_def sample_user_def user_ok_def)
  have "load_users [] (read_lines (length ?f) 512 ?f) [] = (CHAT_OK, [sample_user ''carol'' ''0a'' True])"
    unfolding rl load_users_records by (simp only: List.map_filter_simps u) simp
  moreover have "auth_init (\<lambda>_. Some f) True [] (Some ''u'') = (CHAT_OK, \<lparr>ad_head = us, ad_db_path = ''u''\<rparr>)"
    if "load_users [] (read_lines (length f) 512 f) [] = (CHAT_OK, us)" "us \<noteq> []" for f us
    using that by (simp add: auth_init_def Let_def)
  ultimately have "auth_init (\<lambda>_. Some ?f) True [] (Some ''u'')
      = (CHAT_OK, \<lparr>ad_head = [sample_user ''carol'' ''0a'' True], ad_db_path = ''u''\<rparr>)"
    by blast
  then show ?thesis
    by (simp add: server_init_def sample_init_def registry_init_def mq_init_def room_manager_init_def
        room_find_or_create_def room_manager_empty_def Let_def)
qed

lemma sample_init_OK: "\<exists>w. server_init sample_init quiet_net 8080 (Some ''u'') = Some (CHAT_OK, w)"
  using sample_init_users by blast

theorem server_reachable_consistent_witness:
  "\<exists>w p. reachable (\<lambda>_. None) (w, [7 \<mapsto> new_handler 7 (replicate 2048 NUL)], p) \<and> sv_active_connections w = 1 \<and> sessions w 7 = None"
proof -
  obtain w0 where w0: "server_init sample_init quiet_net 8080 (Some ''u'') = Some (CHAT_OK, w0)"
    using sample_init_OK by blast
  let ?w = "w0\<lparr>sv_listen_fd := 3, sv_broadcaster_tid := True\<rparr>"
  let ?p = "first_phases\<lparr>ph_main := Main_Accepting\<rparr>"
  have "server_listen 3 True True True True w0 = (CHAT_OK, ?w)" by (simp add: server_listen_def)
  then have r: "reachable (\<lambda>_. None) (?w, Map.empty, first_phases)" using w0 reachable.start by blast
  have w: "sv_running ?w" "sv_active_connections ?w = 0" using server_init_OK [OF w0] by simp_all
  have "server_step (\<lambda>_. None) (?w, Map.empty, first_phases) (?w, Map.empty, ?p)"
    using w(1) by (intro server_step.main_test) (simp_all add: first_phases_def)
  then have r1: "reachable (\<lambda>_. None) (?w, Map.empty, ?p)" using r reachable.step by blast
  have "accept_turn (Accepted 7) True True ?w = (Some 7, conn_track_increment ?w)"
    using w by (simp add: accept_turn_def conn_at_capacity_def)
  then have "server_step (\<lambda>_. None) (?w, Map.empty, ?p)
      (conn_track_increment ?w, Map.empty(7 \<mapsto> new_handler 7 (replicate 2048 NUL)), ?p\<lparr>ph_main := Main_Test\<rparr>)"
    by (intro server_step.accept_starts) simp_all
  then have r': "reachable (\<lambda>_. None) (conn_track_increment ?w, [7 \<mapsto> new_handler 7 (replicate 2048 NUL)], ?p\<lparr>ph_main := Main_Test\<rparr>)"
    using r1 reachable.step by blast
  note c = server_reachable_consistent [OF r']
  have "sessions (conn_track_increment ?w) 7 = None"
    using c [THEN conjunct2, THEN conjunct2, THEN conjunct2, THEN conjunct1, rule_format, of 7] by (simp add: new_handler_def del: not_None_eq)
  moreover have "sv_active_connections (conn_track_increment ?w) = 1" using c [THEN conjunct1] by simp
  ultimately show ?thesis using r' by blast
qed

text \<open>
  What stopping means for the states that follow a state with the threads \<open>hs0\<close> in the phases
  \<open>p0\<close>: no thread passes its test again, and at most one client thread starts.
\<close>

definition draining :: "threads \<Rightarrow> phases \<Rightarrow> system \<Rightarrow> bool" where
  "draining hs0 p0 s \<longleftrightarrow> (case s of (w, hs, p) \<Rightarrow>
     \<not> sv_running w \<and> ph_recv p \<subseteq> ph_recv p0 \<and>
     (ph_main p = Main_Accepting \<longrightarrow> ph_main p0 = Main_Accepting \<and> dom hs \<subseteq> dom hs0) \<and>
     (if ph_main p0 = Main_Accepting then \<exists>x. dom hs \<subseteq> insert x (dom hs0) else dom hs \<subseteq> dom hs0) \<and>
     (\<forall>fd h. hs fd = Some h \<and> fd \<notin> dom hs0 \<longrightarrow> \<not> hd_authenticated h))"

lemma draining_quiet:
  assumes "draining hs0 p0 (w, hs, p)" and "\<not> sv_running w'" and "ph_recv p' \<subseteq> ph_recv p"
    and "ph_main p' = Main_Accepting \<longrightarrow> ph_main p = Main_Accepting"
  shows "draining hs0 p0 (w', hs, p')"
  using assms by (simp add: draining_def) blast

lemma draining_gone:
  assumes "draining hs0 p0 (w, hs, p)"
  shows "draining hs0 p0 (w, hs(fd := None), p)"
proof -
  have sub: "dom (hs(fd := None)) \<subseteq> B" if "dom hs \<subseteq> B" for B using that by auto
  have "\<exists>x. dom (hs(fd := None)) \<subseteq> insert x (dom hs0)" if "\<exists>x. dom hs \<subseteq> insert x (dom hs0)"
    using that sub by blast
  with assms sub [of "dom hs0"] show ?thesis by (simp add: draining_def del: dom_fun_upd)
qed

lemma draining_command:
  assumes "draining hs0 p0 (w, hs, p)" and "hs fd = Some h" and "fd \<in> dom hs0"
  shows "draining hs0 p0 (w, hs(fd \<mapsto> h'), p)"
proof -
  have "dom (hs(fd \<mapsto> h')) = dom hs" using assms(2) by auto
  with assms show ?thesis by (simp add: draining_def del: dom_fun_upd)
qed

lemma disconnect_running:
  "sv_running (disconnect_client ev fd u au w) = sv_running w"
  by (simp add: disconnect_client_def conn_track_decrement_def cmd_disconnect_client_def Let_def frame_simps
      split: prod.split)

lemma draining_start:
  assumes "draining hs0 p0 (w, hs, p)" and "ph_main p = Main_Accepting" and "\<not> sv_running w'"
  shows "draining hs0 p0 (w', hs(fd \<mapsto> new_handler fd line), p\<lparr>ph_main := Main_Test\<rparr>)"
proof -
  have d: "ph_recv p \<subseteq> ph_recv p0" "ph_main p0 = Main_Accepting" "dom hs \<subseteq> dom hs0"
    "\<forall>fd h. hs fd = Some h \<and> fd \<notin> dom hs0 \<longrightarrow> \<not> hd_authenticated h"
    using assms(1,2) by (simp_all add: draining_def)
  from d(3) have "dom (hs(fd \<mapsto> new_handler fd line)) \<subseteq> insert fd (dom hs0)" by auto
  moreover have "\<not> hd_authenticated (new_handler fd line)" by (simp add: new_handler_def)
  ultimately show ?thesis using d assms(3) by (simp add: draining_def del: dom_fun_upd) blast
qed

lemma draining_step:
  assumes "server_step lt s s'" and "system_inv s" and "draining hs0 p0 s" and "ph_recv p0 \<subseteq> dom hs0"
  shows "draining hs0 p0 s'"
  using assms(1)
proof (cases rule: server_step.cases)
  case (accept_starts p hs fd malloc_ok thread_ok w w' line)
  then have d: "draining hs0 p0 (w, hs, p)" using assms(3) by simp
  moreover have "sv_running w' = sv_running w"
    using accept_turn_Some [OF accept_starts(6)] by (simp add: conn_track_increment_def)
  ultimately have "\<not> sv_running w'" by (simp add: draining_def)
  from draining_start [OF d accept_starts(3) this] show ?thesis using accept_starts(2) by simp
next
  case (accept_none p res malloc_ok thread_ok w w' hs)
  then have d: "draining hs0 p0 (w, hs, p)" and inv: "server_inv (w, hs)"
    using assms(2,3) by (simp_all add: system_inv_def)
  have "0 \<le> sv_active_connections w" using server_invD(3) [OF inv] by simp
  from accept_turn_None [OF accept_none(4) server_invD(1) [OF inv] this] d have "\<not> sv_running w'"
    by (simp add: draining_def)
  from draining_quiet [OF d this, of "p\<lparr>ph_main := Main_Test\<rparr>"] show ?thesis using accept_none(2) by simp
next
  case (command fd p hs h e line w h' w')
  then have d: "draining hs0 p0 (w, hs, p)" and inv: "server_inv (w, hs)"
    using assms(2,3) by (simp_all add: system_inv_def)
  then have fd: "fd \<in> dom hs0" using command(3) assms(4) by (auto simp: draining_def)
  have "\<not> sv_running w'" using handler_turn(3) [OF inv command(4,6)] d by (simp add: draining_def)
  from draining_quiet [OF draining_command [OF d command(4) fd] this, of "p\<lparr>ph_recv := ph_recv p - {fd}\<rparr>" h']
  show ?thesis using command(2) by auto
next
  case (command_ends fd p hs h e line w h' w' ev)
  then have d: "draining hs0 p0 (w, hs, p)" and inv: "server_inv (w, hs)"
    using assms(2,3) by (simp_all add: system_inv_def)
  have "\<not> sv_running w'" using handler_turn(3) [OF inv command_ends(4,6)] d by (simp add: draining_def)
  with draining_quiet [OF draining_gone [OF d, of fd], of "disconnect_client ev (hd_fd h') (hd_username h')
    (hd_authenticated h') w'" "p\<lparr>ph_recv := ph_recv p - {fd}\<rparr>"]
  show ?thesis using command_ends(2) by (auto simp: disconnect_running)
next
  case (hangup hs fd h p w ev)
  then have d: "draining hs0 p0 (w, hs, p)" using assms(3) by simp
  then have "\<not> sv_running w" by (simp add: draining_def)
  with draining_quiet [OF draining_gone [OF d, of fd], of "disconnect_client ev (hd_fd h) (hd_username h)
    (hd_authenticated h) w" "p\<lparr>ph_recv := ph_recv p - {fd}\<rparr>"]
  show ?thesis using hangup(2) by (auto simp: disconnect_running)
next
  case (broadcast p w w' hs)
  then have d: "draining hs0 p0 (w, hs, p)" and inv: "table_ok w"
    using assms(2,3) by (simp_all add: system_inv_def server_inv_def)
  have "\<not> sv_running w'" using broadcaster_turn_quiet [OF inv, of lt w'] broadcast(4) d by (simp add: draining_def)
  from draining_quiet [OF d this] show ?thesis using broadcast(2) by simp
next
  case (broadcast_ends p w w' hs)
  then have d: "draining hs0 p0 (w, hs, p)" and inv: "table_ok w"
    using assms(2,3) by (simp_all add: system_inv_def server_inv_def)
  have "\<not> sv_running w'" using broadcaster_turn_quiet [OF inv, of lt w'] broadcast_ends(4) d by (simp add: draining_def)
  from draining_quiet [OF d this] show ?thesis using broadcast_ends(2) by simp
qed (use assms(3) in \<open>simp_all add: draining_def signal_handler_def frame_simps\<close>)

text \<open>
  Property C30. A server that has been told to stop stays stopped and only empties: whatever
  steps follow, no client thread goes back to wait for another line, so that each handles at
  most the one it is waiting for; at most one thread more starts, when \<open>accept\<close> was already
  waiting, and that one never gets a session.
\<close>

theorem stopped_server_drains:
  assumes "(server_step lt)\<^sup>*\<^sup>* (w, hs, p) (w', hs', p')" and "\<not> sv_running w" and "system_inv (w, hs, p)"
  shows "\<not> sv_running w' \<and> ph_recv p' \<subseteq> ph_recv p \<and> dom (sessions w') \<subseteq> dom hs \<and>
     (if ph_main p = Main_Accepting then \<exists>x. dom hs' \<subseteq> insert x (dom hs) else dom hs' \<subseteq> dom hs)"
proof -
  have p: "ph_recv p \<subseteq> dom hs" using assms(3) by (simp add: system_inv_def)
  have "draining hs p (w, hs, p)" using assms(2) by (auto simp: draining_def)
  with assms(1) have s': "draining hs p (w', hs', p') \<and> system_inv (w', hs', p')"
  proof (induction rule: rtranclp_induct)
    case base
    with assms(3) show ?case by simp
  next
    case (step s1 s2)
    then show ?case using draining_step [OF step(2) _ _ p] server_step_inv [OF step(2)] by blast
  qed
  then have inv: "server_inv (w', hs')" by (simp add: system_inv_def)
  have "fd \<in> dom hs" if "sessions w' fd \<noteq> None" for fd
  proof -
    have on: "fd \<in> set (online_fds w')" using \<open>sessions w' fd \<noteq> None\<close> sessions_online by blast
    then obtain h where h: "hs' fd = Some h" using server_invD(6) [OF inv] by blast
    with server_invD(5) [OF inv h] on have "hd_authenticated h" by (simp add: handler_on_def del: set_map)
    with s' h show ?thesis by (auto simp: draining_def)
  qed
  with s' show ?thesis unfolding draining_def prod.case by blast
qed

theorem stopped_server_drains_witness:
  "\<exists>w w' hs p p'. sv_running w \<and> hs \<noteq> Map.empty \<and>
     (server_step (\<lambda>_. None))\<^sup>*\<^sup>* (signal_handler True w, hs, p) (w', Map.empty, p') \<and> \<not> sv_running w'"
proof -
  let ?h = "new_handler 7 []" and ?w = "sample_world\<lparr>sv_registry := registry_empty, sv_active_connections := 1\<rparr>"
  let ?p = "first_phases\<lparr>ph_recv := {7}\<rparr>"
  have inv: "system_inv (signal_handler True ?w, [7 \<mapsto> ?h], ?p)"
    using world_invD(3) [OF sample_world_inv]
    by (simp add: system_inv_def server_inv_def table_ok_def registry_empty_def signal_handler_def new_handler_def handler_on_def)
  let ?w' = "disconnect_client sample_event (hd_fd ?h) (hd_username ?h) (hd_authenticated ?h) (signal_handler True ?w)"
  have "server_step (\<lambda>_. None) (signal_handler True ?w, [7 \<mapsto> ?h], ?p)
      (?w', [7 \<mapsto> ?h](7 := None), ?p\<lparr>ph_recv := ph_recv ?p - {7}\<rparr>)"
    by (rule server_step.hangup) simp_all
  then have s: "(server_step (\<lambda>_. None))\<^sup>*\<^sup>* (signal_handler True ?w, [7 \<mapsto> ?h], ?p)
      (?w', Map.empty, ?p\<lparr>ph_recv := ph_recv ?p - {7}\<rparr>)"
    by simp
  have "\<not> sv_running (signal_handler True ?w)" by (simp add: signal_handler_def)
  from stopped_server_drains [OF s this inv] have "\<not> sv_running ?w'" by blast
  moreover have "sv_running ?w" by (simp add: sample_world_def)
  moreover have "[7 \<mapsto> ?h] \<noteq> Map.empty" by simp
  ultimately show ?thesis using s by blast
qed

text \<open>
  Property C31. The shutdown wakes the broadcaster by closing the queue: a broadcaster that
  waits on the empty queue leaves its loop, and one that finds an event still handles it and
  leaves at its next turn. The sentinel of \<open>server_shutdown\<close> plays no part in it; it is
  pushed to a queue that is closed already and never gets in.
\<close>

theorem shutdown_stops_broadcaster:
  assumes "world_inv w" and "w' = server_shutdown mem_ok junk w"
  shows "events w' = events w \<and>
     (if events w = [] then broadcaster_turn lt w' = Bc_Exit w'
      else \<exists>w2. (broadcaster_turn lt w' = Bc_Exit w2 \<or> broadcaster_turn lt w' = Bc_Next w2) \<and>
             events w2 = tl (events w) \<and> broadcaster_iter lt w2 = Bc_Exit w2)"
proof -
  note q = server_shutdown_queue [OF world_invD(3) [OF assms(1)], of mem_ok junk, folded assms(2)]
  have run: "\<not> sv_running w'" by (simp add: assms(2) frame_simps)
  show ?thesis
  proof (cases "events w")
    case Nil
    with q mq_pop_empty [OF q(1)] show ?thesis by (simp add: broadcaster_turn_def)
  next
    case (Cons m ms)
    with q(2) mq_pop_Cons [OF q(1), of m ms] obtain q2
      where "mq_pop (sv_queue w') = Pop_Returns CHAT_OK (Some m) q2" "mq_contents q2 = ms"
      by (auto simp: mq_abs_def)
    with Cons q(2) run show ?thesis
      by (simp add: broadcaster_turn_def broadcaster_iter_def Let_def frame_simps)
  qed
qed

theorem shutdown_stops_broadcaster_witness:
  "broadcaster_turn (\<lambda>_. None) sample_world = Bc_Wait \<and>
   broadcaster_turn (\<lambda>_. None) (server_shutdown True zero_stack sample_world)
     = Bc_Exit (server_shutdown True zero_stack sample_world)"
proof -
  have "events sample_world = []" by (simp add: sample_world_def mq_empty_def mq_contents_def)
  then show ?thesis
    using shutdown_stops_broadcaster [OF sample_world_inv refl, of True zero_stack "\<lambda>_. None"]
    by (simp add: broadcaster_turn_def sample_world_simps) (simp add: mq_pop_def mq_empty_def)
qed

text \<open>
  Starting up is all or nothing: \<open>server_init\<close> returns, and it either has a
  running server with an empty table, an empty queue, empty histories and at least one user,
  or it fails and everything it had allocated is free again.
\<close>

theorem server_init_all_or_nothing:
  "case server_init ie net port users_db of
     None \<Rightarrow> False
   | Some (st, w) \<Rightarrow>
       if st = CHAT_OK then world_inv w \<and> sv_running w \<and> sv_active_connections w = 0 \<and> sv_listen_fd w = -1 \<and>
         sv_port w = port \<and> sessions w = Map.empty \<and> events w = [] \<and> logs w = (\<lambda>_. []) \<and> ad_head (sv_auth w) \<noteq> []
       else st = CHAT_ERR \<and> cr_nodes (sv_registry w) = [] \<and> mq_heap (sv_queue w) = Map.empty \<and>
         rm_rooms (sv_rooms w) = [] \<and> ad_head (sv_auth w) = [] \<and> w_net w = net"
proof -
  have d: "mq_destroy mq_empty = Some mq_empty" "mq_heap mq_empty = Map.empty"
    by (simp_all add: mq_destroy_def mq_empty_def)
  have rooms: "rm_rooms r = []" if "room_manager_init a b = (st, r)" "st \<noteq> CHAT_OK" for a b st r
    using that by (auto simp: room_manager_init_def room_find_or_create_def room_manager_empty_def split: if_splits)
  have auth: "ad_head r = []" if "auth_init f a ms p = (st, r)" "st \<noteq> CHAT_OK" for f a ms p st r
    using that by (auto simp: auth_init_def Let_def split: if_splits option.splits prod.splits chat_status.splits)
  show ?thesis
  proof (cases "\<exists>w. server_init ie net port users_db = Some (CHAT_OK, w)")
    case True
    then show ?thesis using server_init_OK by fastforce
  next
    case False
    then show ?thesis
      by (auto simp: server_init_def Let_def registry_init_def mq_init_def d registry_destroy_def registry_empty_def
          room_manager_destroy_def room_manager_empty_def rooms auth
          split: prod.split dest: rooms auth)
  qed
qed

text \<open>
  The life of the server as \<open>main\<close> runs it: whatever part of \<open>server_run\<close>'s
  preparation fails, after \<open>server_shutdown\<close> and \<open>server_destroy\<close> the listening socket has
  been closed exactly once, nothing else has been closed, and no node of the queue, no
  session, no room and no user record is left.
\<close>

theorem server_life_cycle:
  assumes "server_init ie net port users_db = Some (CHAT_OK, w)" and "0 \<le> fd"
  shows "\<exists>w'. server_destroy (server_shutdown mem_ok junk (snd (server_listen fd a b c d w))) = Some w' \<and>
     nt_closed (w_net w') = fd # nt_closed net \<and> sv_listen_fd w' = -1 \<and> \<not> sv_running w' \<and>
     mq_heap (sv_queue w') = Map.empty \<and> cr_nodes (sv_registry w') = [] \<and>
     rm_rooms (sv_rooms w') = [] \<and> ad_head (sv_auth w') = []"
proof -
  note init = server_init_OK [OF assms(1)]
  let ?w1 = "snd (server_listen fd a b c d w)"
  let ?w2 = "server_shutdown mem_ok junk ?w1"
  have l: "sv_queue ?w1 = mq_empty" "nt_closed (w_net ?w2) = fd # nt_closed net" "sv_listen_fd ?w2 = -1"
    using init assms(2)
    by (auto simp: server_listen_def abandon_listener_def Let_def frame_simps server_shutdown_def)
  have "mq_inv (sv_queue ?w2)" using server_shutdown_queue(1) [of ?w1] l(1) mq_inv_empty by simp
  then obtain q where q: "mq_destroy (sv_queue ?w2) = Some q" "mq_heap q = Map.empty"
    using mq_destroy_spec by blast
  then show ?thesis
    using l by (simp add: server_destroy_def Let_def frame_simps registry_destroy_def room_manager_destroy_def auth_destroy_def)
qed

theorem server_life_cycle_witness:
  "\<exists>w w'. server_init sample_init quiet_net 8080 (Some ''u'') = Some (CHAT_OK, w) \<and>
     server_destroy (server_shutdown True zero_stack (snd (server_listen 3 True False True True w))) = Some w' \<and>
     nt_closed (w_net w') = [3]"
proof -
  obtain w where w: "server_init sample_init quiet_net 8080 (Some ''u'') = Some (CHAT_OK, w)"
    using sample_init_OK by blast
  show ?thesis
    using w server_life_cycle [OF w, of 3 True zero_stack True False True True] by (auto simp: quiet_net_def)
qed

end
