(* ===== verification/Interleaving.thy ===== *)
theory Interleaving
  imports Thread_Safety Server_System
begin

text \<open>
  The server with its threads interleaved at the grain of single actions: a client thread
  runs its programs one action at a time, the accept loop and the shutdown of \<open>main\<close> go one
  call at a time, and the broadcaster walks the registry's list with the lock released
  around every send. Threads have identifiers of their own, since a descriptor that has been
  closed can be given out again while its former thread still has to count itself off.
\<close>

section \<open>Client threads\<close>

text \<open>Where a client thread is: before its test, in \<open>recv\<close>, in a command, leaving, or past \<open>close\<close>.\<close>

datatype control =
    Ctl_Test handler
  | Ctl_Recv handler
  | Ctl_Run int "(bool \<times> handler) prog"
  | Ctl_Leave int "unit prog"
  | Ctl_Count

fun ctl_fd :: "control \<Rightarrow> int option" where
  "ctl_fd (Ctl_Test h) = Some (hd_fd h)"
| "ctl_fd (Ctl_Recv h) = Some (hd_fd h)"
| "ctl_fd (Ctl_Run fd p) = Some fd"
| "ctl_fd (Ctl_Leave fd p) = Some fd"
| "ctl_fd Ctl_Count = None"

definition leaving :: "event_env \<Rightarrow> handler \<Rightarrow> control" where
  "leaving ev h = Ctl_Leave (hd_fd h) (leave_prog ev (hd_fd h) (hd_username h) (hd_authenticated h))"

definition after_leave :: "int \<Rightarrow> unit prog \<Rightarrow> control" where
  "after_leave fd p = (case p of Ret _ \<Rightarrow> Ctl_Count | Act _ \<Rightarrow> Ctl_Leave fd p)"

inductive thread_step :: "world \<Rightarrow> control \<Rightarrow> world \<Rightarrow> control option \<Rightarrow> bool" where
  t_recv: "thread_step w (Ctl_Test h) w (Some (Ctl_Recv h))" if "sv_running w"
| t_stop: "thread_step w (Ctl_Test h) w (Some (leaving ev h))" if "\<not> sv_running w"
| t_line: "thread_step w (Ctl_Recv h) w (Some (Ctl_Run (hd_fd h) (handler_prog e (c_str line) (h\<lparr>hd_line := line\<rparr>))))"
    if "length line = MAX_LINE_LEN" and "node_sized (ce_node e)"
| t_fail: "thread_step w (Ctl_Recv h) w (Some (leaving ev h))"
| t_act: "thread_step w (Ctl_Run fd (Act f)) w' (Some (Ctl_Run fd p))" if "f w = (p, w')"
| t_next: "thread_step w (Ctl_Run fd (Ret (True, h))) w (Some (Ctl_Test h))"
| t_done: "thread_step w (Ctl_Run fd (Ret (False, h))) w (Some (leaving ev h))"
| t_leave: "thread_step w (Ctl_Leave fd (Act f)) w' (Some (after_leave fd p))" if "f w = (p, w')"
| t_count: "thread_step w Ctl_Count (conn_track_decrement w) None"

section \<open>The broadcaster\<close>

text \<open>
  Where the broadcaster is: before its test, in \<open>mq_pop\<close>, before the walk over the list, before
  the call for a node it has copied, before it goes on from a node; gone, or run into a node
  that was freed. The flag of \<open>B_Node\<close> and \<open>B_Next\<close> says whether the node the walk stands on
  is still allocated.
\<close>

datatype bcast_control =
    B_Test
  | B_Pop
  | B_Head string string
  | B_Node string string client_node bool
  | B_Next string string int bool
  | B_Left
  | B_Fault

definition registry_fds :: "world \<Rightarrow> int set" where
  "registry_fds w = cn_sockfd ` set (cr_nodes (sv_registry w))"

fun unlink :: "world \<Rightarrow> bcast_control \<Rightarrow> bcast_control" where
  "unlink w (B_Node room line n live) = B_Node room line n (live \<and> cn_sockfd n \<in> registry_fds w)"
| "unlink w (B_Next room line fd live) = B_Next room line fd (live \<and> fd \<in> registry_fds w)"
| "unlink w b = b"

fun next_node :: "int \<Rightarrow> client_node list \<Rightarrow> client_node option" where
  "next_node fd [] = None"
| "next_node fd (n # ns) =
     (if cn_sockfd n = fd then (case ns of [] \<Rightarrow> None | m # _ \<Rightarrow> Some m) else next_node fd ns)"

text \<open>
  One action of the broadcaster; \<^term>\<open>None\<close> when it waits or is gone. A walk takes the lock,
  copies the first node or goes on to the next one, and releases the lock for the call.
\<close>

fun bcast_act :: "(int \<Rightarrow> tm option) \<Rightarrow> bcast_control \<Rightarrow> world \<Rightarrow> (bcast_control \<times> world) option" where
  "bcast_act lt B_Test w = Some (if sv_running w then B_Pop else B_Left, w)"
| "bcast_act lt B_Pop w =
     (case mq_pop (sv_queue w) of
        Pop_Blocked \<Rightarrow> None
      | Pop_Fault \<Rightarrow> Some (B_Fault, w)
      | Pop_Returns st None q \<Rightarrow> Some (B_Left, w\<lparr>sv_queue := q\<rparr>)
      | Pop_Returns st (Some msg) q \<Rightarrow>
          Some (if st \<noteq> CHAT_OK then B_Left
                else if mm_type msg = MQ_SHUTDOWN then B_Left
                else if fst (event_line lt msg) = CHAT_OK
                then B_Head (c_str (mm_room msg)) (snd (event_line lt msg)) else B_Test,
                w\<lparr>sv_queue := q\<rparr>))"
| "bcast_act lt (B_Head room line) w =
     Some (case cr_nodes (sv_registry w) of [] \<Rightarrow> B_Test | n # _ \<Rightarrow> B_Node room line n True, w)"
| "bcast_act lt (B_Node room line n live) w =
     (case send_to_client line room n w of
        (st, w') \<Rightarrow> Some (if st \<noteq> CHAT_OK then B_Test else B_Next room line (cn_sockfd n) live, w'))"
| "bcast_act lt (B_Next room line fd live) w =
     Some (if \<not> live then B_Fault
           else case next_node fd (cr_nodes (sv_registry w)) of
                  None \<Rightarrow> B_Test | Some m \<Rightarrow> B_Node room line m True, w)"
| "bcast_act lt B_Left w = None"
| "bcast_act lt B_Fault w = None"

section \<open>The main thread\<close>

datatype main_control =
    M_Test
  | M_Accept
  | M_Admit int
  | M_Counted int
  | M_Uncount
  | M_Down "(world \<Rightarrow> world) list"
  | M_Join
  | M_Exit

fun main_fd :: "main_control \<Rightarrow> int option" where
  "main_fd (M_Admit fd) = Some fd"
| "main_fd (M_Counted fd) = Some fd"
| "main_fd _ = None"

text \<open>The calls of \<open>server_shutdown\<close>.\<close>

definition shutdown_actions :: "bool \<Rightarrow> mq_message \<Rightarrow> (world \<Rightarrow> world) list" where
  "shutdown_actions mem_ok junk =
     [\<lambda>w. w\<lparr>sv_running := False\<rparr>,
      \<lambda>w. if sv_listen_fd w \<ge> 0 then (sys_close (sv_listen_fd w) w)\<lparr>sv_listen_fd := -1\<rparr> else w,
      \<lambda>w. w\<lparr>sv_queue := mq_signal_shutdown (sv_queue w)\<rparr>,
      \<lambda>w. w\<lparr>sv_queue := snd (mq_push mem_ok (junk\<lparr>mm_type := MQ_SHUTDOWN\<rparr>) (sv_queue w))\<rparr>]"

lemma shutdown_actions_run: "fold (\<lambda>f w. f w) (shutdown_actions mem_ok junk) w = server_shutdown mem_ok junk w"
  by (simp add: shutdown_actions_def server_shutdown_def Let_def)

section \<open>The whole server\<close>

record server_sys =
  ss_world :: world
  ss_threads :: "nat \<Rightarrow> control option"
  ss_main :: main_control
  ss_bcast :: bcast_control

text \<open>A descriptor that no thread holds, as \<open>accept\<close> returns it.\<close>

definition fd_free :: "int \<Rightarrow> server_sys \<Rightarrow> bool" where
  "fd_free fd s \<longleftrightarrow> 0 \<le> fd \<and> (\<forall>t c. ss_threads s t = Some c \<longrightarrow> ctl_fd c \<noteq> Some fd)"

inductive sys_step :: "(int \<Rightarrow> tm option) \<Rightarrow> server_sys \<Rightarrow> server_sys \<Rightarrow> bool"
  for lt :: "int \<Rightarrow> tm option" where
  sys_thread: "sys_step lt s (s\<lparr>ss_world := w', ss_threads := (ss_threads s)(t := c'), ss_bcast := unlink w' (ss_bcast s)\<rparr>)"
    if "ss_threads s t = Some c" and "thread_step (ss_world s) c w' c'"
| sys_bcast: "sys_step lt s (s\<lparr>ss_world := w', ss_bcast := b'\<rparr>)"
    if "bcast_act lt (ss_bcast s) (ss_world s) = Some (b', w')"
| sys_main_test: "sys_step lt s (s\<lparr>ss_main := M_Accept\<rparr>)"
    if "ss_main s = M_Test" and "sv_running (ss_world s)"
| sys_accept_fails: "sys_step lt s (s\<lparr>ss_main := M_Test\<rparr>)"
    if "ss_main s = M_Accept"
| sys_accept_full: "sys_step lt s (s\<lparr>ss_world := sys_close fd (snd (refuse fd ''server full (max 100 clients)'' (ss_world s))),
      ss_main := M_Test\<rparr>)"
    if "ss_main s = M_Accept" and "fd_free fd s" and "conn_at_capacity (ss_world s)"
| sys_accept: "sys_step lt s (s\<lparr>ss_main := M_Admit fd\<rparr>)"
    if "ss_main s = M_Accept" and "fd_free fd s" and "\<not> conn_at_capacity (ss_world s)"
| sys_count: "sys_step lt s (s\<lparr>ss_world := conn_track_increment (ss_world s), ss_main := M_Counted fd\<rparr>)"
    if "ss_main s = M_Admit fd"
| sys_spawn: "sys_step lt s (s\<lparr>ss_threads := (ss_threads s)(t \<mapsto> Ctl_Test (new_handler fd line)), ss_main := M_Test\<rparr>)"
    if "ss_main s = M_Counted fd" and "ss_threads s t = None" and "length line = MAX_LINE_LEN"
| sys_spawn_fails: "sys_step lt s (s\<lparr>ss_world := sys_close fd (ss_world s), ss_main := M_Uncount\<rparr>)"
    if "ss_main s = M_Counted fd"
| sys_uncount: "sys_step lt s (s\<lparr>ss_world := conn_track_decrement (ss_world s), ss_main := M_Test\<rparr>)"
    if "ss_main s = M_Uncount"
| sys_down: "sys_step lt s (s\<lparr>ss_main := M_Down (shutdown_actions mem_ok junk)\<rparr>)"
    if "ss_main s = M_Test" and "\<not> sv_running (ss_world s)"
| sys_down_act: "sys_step lt s (s\<lparr>ss_world := f (ss_world s), ss_main := (if fs = [] then M_Join else M_Down fs)\<rparr>)"
    if "ss_main s = M_Down (f # fs)"
| sys_destroy: "sys_step lt s (s\<lparr>ss_world := w', ss_main := M_Exit\<rparr>)"
    if "ss_main s = M_Join" and "ss_bcast s = B_Left" and "server_destroy (ss_world s) = Some w'"
| sys_signal: "sys_step lt s (s\<lparr>ss_world := signal_handler True (ss_world s)\<rparr>)"
| sys_kernel: "sys_step lt s (s\<lparr>ss_world := (ss_world s)\<lparr>w_net := (w_net (ss_world s))\<lparr>nt_script := script\<rparr>\<rparr>\<rparr>)"

definition sys_start :: "world \<Rightarrow> server_sys" where
  "sys_start w = \<lparr>ss_world = w, ss_threads = Map.empty, ss_main = M_Test, ss_bcast = B_Test\<rparr>"

inductive sys_reachable :: "(int \<Rightarrow> tm option) \<Rightarrow> server_sys \<Rightarrow> bool"
  for lt :: "int \<Rightarrow> tm option" where
  sys_init: "sys_reachable lt (sys_start w)"
    if "server_init ie net port users_db = Some (CHAT_OK, w0)"
      and "server_listen lfd True True True True w0 = (CHAT_OK, w)"
| sys_next: "sys_reachable lt s'" if "sys_reachable lt s" and "sys_step lt s s'"

lemma sys_reachable_steps: "(sys_step lt)\<^sup>*\<^sup>* s s' \<Longrightarrow> sys_reachable lt s \<Longrightarrow> sys_reachable lt s'"
  by (induction rule: rtranclp_induct) (auto intro: sys_next)

end
