(* ===== verification/Interleaving_Properties.thy ===== *)
theory Interleaving_Properties
  imports Interleaving
begin

text \<open>
  What holds of the server in every state of every interleaving of its threads, proved once
  for every view of \<open>Thread_Safety\<close>.
\<close>

section \<open>Threads keep to their own session\<close>

fun ctl_ok :: "'o view \<Rightarrow> world \<Rightarrow> control \<Rightarrow> bool" where
  "ctl_ok V w (Ctl_Test h) \<longleftrightarrow> 0 \<le> hd_fd h \<and> view_sync V h (vw_obs V w (hd_fd h))"
| "ctl_ok V w (Ctl_Recv h) \<longleftrightarrow> 0 \<le> hd_fd h \<and> view_sync V h (vw_obs V w (hd_fd h))"
| "ctl_ok V w (Ctl_Run fd p) \<longleftrightarrow> 0 \<le> fd \<and>
     safe_prog V fd (\<lambda>(go, h) s. hd_fd h = fd \<and> view_sync V h s) (vw_obs V w fd) p"
| "ctl_ok V w (Ctl_Leave fd p) \<longleftrightarrow> 0 \<le> fd \<and> safe_prog V fd (\<lambda>_ s. s = vw_gone V) (vw_obs V w fd) p"
| "ctl_ok V w Ctl_Count \<longleftrightarrow> True"

lemma ctl_ok_other:
  assumes "\<forall>x. ctl_fd c = Some x \<longrightarrow> vw_obs V w' x = vw_obs V w x"
  shows "ctl_ok V w' c = ctl_ok V w c"
proof (cases "ctl_fd c")
  case None
  then show ?thesis by (cases c) simp_all
next
  case (Some fd)
  with assms have "vw_obs V w' fd = vw_obs V w fd" by simp
  with Some show ?thesis by (cases c) (simp_all del: split_paired_All)
qed

context session_view
begin

lemma leaving_ok:
  assumes "0 \<le> hd_fd h" and "view_sync V h (vw_obs V w (hd_fd h))"
  shows "ctl_ok V w (leaving ev h)" and "ctl_fd (leaving ev h) = Some (hd_fd h)"
proof -
  from safe_leave [OF assms(2)] assms(1) show "ctl_ok V w (leaving ev h)" "ctl_fd (leaving ev h) = Some (hd_fd h)"
    by (simp_all add: leaving_def)
qed

lemma own_step_refl: "vw_inv V w \<Longrightarrow> own_step V fd w w"
  by (simp add: own_step_def)

text \<open>A step of a thread that has a descriptor: it keeps it, or has closed it and has no session.\<close>

lemma thread_step_own:
  assumes "thread_step w c w' c'" and "ctl_ok V w c" and "vw_inv V w" and "ctl_fd c = Some fd"
  shows "own_step V fd w w' \<and> (\<exists>d. c' = Some d \<and> ctl_ok V w' d \<and>
     (ctl_fd d = Some fd \<or> ctl_fd d = None \<and> vw_obs V w' fd = vw_gone V))"
  using assms
proof (cases rule: thread_step.cases)
  case (t_recv h)
  with assms show ?thesis by (auto simp: own_step_refl)
next
  case (t_stop h ev)
  with assms leaving_ok [of h w ev] show ?thesis by (auto simp: own_step_refl)
next
  case (t_line line e h)
  have "view_sync V (h\<lparr>hd_line := line\<rparr>) (vw_obs V w (hd_fd h))"
    using t_line(1) assms(2) by (simp add: view_sync_def)
  from safe_handler [OF this is_c_string_c_str t_line(5)] t_line assms show ?thesis
    by (simp add: own_step_refl)
next
  case (t_fail h ev)
  with assms leaving_ok [of h w ev] show ?thesis by (auto simp: own_step_refl)
next
  case (t_act f p fd')
  with assms have f: "fd' = fd" "0 \<le> fd" "own_step V fd w w'"
    "safe_prog V fd (\<lambda>(go, h) s. hd_fd h = fd \<and> view_sync V h s) (vw_obs V w' fd) p"
    by (auto simp: safe_Act_iff)
  with t_act show ?thesis by auto
next
  case (t_next fd' h)
  with assms show ?thesis by (auto simp: own_step_refl)
next
  case (t_done fd' h ev)
  with assms leaving_ok [of h w ev] show ?thesis by (auto simp: own_step_refl)
next
  case (t_leave f p fd')
  with assms have f: "fd' = fd" "0 \<le> fd" "own_step V fd w w'" "safe_prog V fd (\<lambda>_ s. s = vw_gone V) (vw_obs V w' fd) p"
    by (auto simp: safe_Act_iff)
  with t_leave show ?thesis by (cases p) (auto simp: after_leave_def)
next
  case t_count
  with assms show ?thesis by simp
qed

end

section \<open>The invariant\<close>

definition owed :: "main_control \<Rightarrow> int" where
  "owed m = (case m of M_Counted _ \<Rightarrow> 1 | M_Uncount \<Rightarrow> 1 | _ \<Rightarrow> 0)"

definition planned :: "main_control \<Rightarrow> int" where
  "planned m = (case m of M_Admit _ \<Rightarrow> 1 | _ \<Rightarrow> 0)"

text \<open>What the calls of the shutdown leave alone.\<close>

definition same_tables :: "world \<Rightarrow> world \<Rightarrow> bool" where
  "same_tables w w' \<longleftrightarrow> sv_registry w' = sv_registry w \<and> sv_rooms w' = sv_rooms w \<and> sv_auth w' = sv_auth w \<and>
     (mq_inv (sv_queue w) \<longrightarrow> mq_inv (sv_queue w'))"

definition main_action_ok :: "(world \<Rightarrow> world) \<Rightarrow> bool" where
  "main_action_ok f \<longleftrightarrow> (\<forall>w. same_tables w (f w) \<and> sv_active_connections (f w) = sv_active_connections w)"

definition threads_inv :: "'o view \<Rightarrow> world \<Rightarrow> (nat \<Rightarrow> control option) \<Rightarrow> bool" where
  "threads_inv V w ths \<longleftrightarrow> finite (dom ths) \<and> (\<forall>t c. ths t = Some c \<longrightarrow> ctl_ok V w c) \<and>
     (\<forall>t t' c c' fd. ths t = Some c \<and> ths t' = Some c' \<and> ctl_fd c = Some fd \<and> ctl_fd c' = Some fd \<longrightarrow> t = t') \<and>
     (\<forall>fd. vw_obs V w fd \<noteq> vw_gone V \<longrightarrow> (\<exists>t c. ths t = Some c \<and> ctl_fd c = Some fd))"

definition sys_inv :: "'o view \<Rightarrow> server_sys \<Rightarrow> bool" where
  "sys_inv V s \<longleftrightarrow> ss_main s = M_Exit \<or>
     (vw_inv V (ss_world s) \<and> threads_inv V (ss_world s) (ss_threads s) \<and>
      sv_active_connections (ss_world s) = int (card (dom (ss_threads s))) + owed (ss_main s) \<and>
      sv_active_connections (ss_world s) + planned (ss_main s) \<le> 100 \<and>
      (\<forall>fd. main_fd (ss_main s) = Some fd \<longrightarrow> fd_free fd s) \<and>
      (\<forall>fs. ss_main s = M_Down fs \<longrightarrow> list_all main_action_ok fs))"

lemma sys_invD:
  assumes "sys_inv V s" and "ss_main s \<noteq> M_Exit"
  shows "vw_inv V (ss_world s)" "threads_inv V (ss_world s) (ss_threads s)"
    "sv_active_connections (ss_world s) = int (card (dom (ss_threads s))) + owed (ss_main s)"
    "sv_active_connections (ss_world s) + planned (ss_main s) \<le> 100"
    "main_fd (ss_main s) = Some fd \<Longrightarrow> fd_free fd s"
    "ss_main s = M_Down fs \<Longrightarrow> list_all main_action_ok fs"
  using assms by (simp_all add: sys_inv_def)

lemma threads_invI:
  assumes "finite (dom ths)" and "\<And>t c. ths t = Some c \<Longrightarrow> ctl_ok V w c"
    and "\<And>t t' c c' fd. ths t = Some c \<Longrightarrow> ths t' = Some c' \<Longrightarrow> ctl_fd c = Some fd \<Longrightarrow> ctl_fd c' = Some fd \<Longrightarrow> t = t'"
    and "\<And>fd. vw_obs V w fd \<noteq> vw_gone V \<Longrightarrow> \<exists>t c. ths t = Some c \<and> ctl_fd c = Some fd"
  shows "threads_inv V w ths"
  using assms unfolding threads_inv_def by blast

lemma threads_invD:
  assumes "threads_inv V w ths"
  shows "finite (dom ths)" and "ths t = Some c \<Longrightarrow> ctl_ok V w c"
    and "ths t = Some c \<Longrightarrow> ths t' = Some c' \<Longrightarrow> ctl_fd c = Some fd \<Longrightarrow> ctl_fd c' = Some fd \<Longrightarrow> t = t'"
  using assms unfolding threads_inv_def by blast+

lemma threads_inv_holder:
  assumes "threads_inv V w ths" and "vw_obs V w fd \<noteq> vw_gone V"
  obtains t c where "ths t = Some c" "ctl_fd c = Some fd"
  using assms unfolding threads_inv_def by blast

lemma threads_inv_sessions:
  "vw_obs V w' = vw_obs V w \<Longrightarrow> threads_inv V w' ths = threads_inv V w ths"
  using ctl_ok_other [of _ V w' w] by (simp add: threads_inv_def)

lemma threads_inv_own:
  assumes inv: "threads_inv V w ths" and "ths t = Some c" and fd: "ctl_fd c = Some fd"
    and own: "own_step V fd w w'" and d: "ctl_ok V w' d"
    and k: "ctl_fd d = Some fd \<or> ctl_fd d = None \<and> vw_obs V w' fd = vw_gone V"
  shows "threads_inv V w' (ths(t \<mapsto> d))"
proof -
  have same: "vw_obs V w' x = vw_obs V w x" if "x \<noteq> fd" for x using own that by (simp add: own_step_def)
  have uniq: "t' = t" if "ths t' = Some c'" "ctl_fd c' = Some fd" for t' c'
    using inv assms(2) fd that unfolding threads_inv_def by blast
  have ok: "ctl_ok V w' c'" if "ths t' = Some c'" "t' \<noteq> t" for t' c'
  proof -
    have "ctl_fd c' \<noteq> Some fd" using uniq that by blast
    then have "ctl_ok V w' c' = ctl_ok V w c'" using same by (intro ctl_ok_other) auto
    with inv that(1) show ?thesis by (auto simp: threads_inv_def)
  qed
  have hold: "\<exists>t' c'. (ths(t \<mapsto> d)) t' = Some c' \<and> ctl_fd c' = Some x" if "vw_obs V w' x \<noteq> vw_gone V" for x
  proof (cases "x = fd")
    case True
    with k that have "ctl_fd d = Some x" by auto
    then show ?thesis by (intro exI [of _ t] exI [of _ d]) simp
  next
    case False
    with that same have "vw_obs V w x \<noteq> vw_gone V" by simp
    then obtain t' c' where t': "ths t' = Some c'" "ctl_fd c' = Some x" by (rule threads_inv_holder [OF inv])
    with False fd assms(2) have "t' \<noteq> t" by auto
    with t' show ?thesis by (intro exI [of _ t'] exI [of _ c']) simp
  qed
  have dist: "t1 = t2" if "(ths(t \<mapsto> d)) t1 = Some c1" "(ths(t \<mapsto> d)) t2 = Some c2"
      "ctl_fd c1 = Some x" "ctl_fd c2 = Some x" for t1 t2 c1 c2 x
  proof -
    have "ctl_fd d = Some x \<Longrightarrow> x = fd" using k by auto
    with that uniq threads_invD(3) [OF inv] show ?thesis by (auto split: if_splits)
  qed
  show ?thesis
  proof (rule threads_invI)
    show "finite (dom (ths(t \<mapsto> d)))" using threads_invD(1) [OF inv] by simp
    show "ctl_ok V w' c'" if "(ths(t \<mapsto> d)) t' = Some c'" for t' c'
      using that ok d by (cases "t' = t") simp_all
  qed (use hold dist in blast)+
qed

lemma threads_inv_gone:
  assumes inv: "threads_inv V w ths" and "ths t = Some c" and "ctl_fd c = None"
  shows "threads_inv V w (ths(t := None))"
proof -
  have "\<exists>t' c'. (ths(t := None)) t' = Some c' \<and> ctl_fd c' = Some x" if "vw_obs V w x \<noteq> vw_gone V" for x
  proof -
    obtain t' c' where t': "ths t' = Some c'" "ctl_fd c' = Some x" using threads_inv_holder [OF inv \<open>vw_obs V w x \<noteq> vw_gone V\<close>] .
    with assms(2,3) have "t' \<noteq> t" by auto
    with t' show ?thesis by (intro exI [of _ t'] exI [of _ c']) simp
  qed
  note hold = this
  show ?thesis
  proof (rule threads_invI)
    show "finite (dom (ths(t := None)))" using threads_invD(1) [OF inv] by simp
    show "ctl_ok V w c'" if "(ths(t := None)) t' = Some c'" for t' c'
      using that threads_invD(2) [OF inv] by (simp split: if_splits)
    show "t1 = t2" if "(ths(t := None)) t1 = Some c1" "(ths(t := None)) t2 = Some c2"
      "ctl_fd c1 = Some x" "ctl_fd c2 = Some x" for t1 t2 c1 c2 x
      using that threads_invD(3) [OF inv] by (simp split: if_splits)
  qed (use hold in blast)
qed

lemma threads_inv_new:
  assumes inv: "threads_inv V w ths" and "ths t = None" and "0 \<le> fd"
    and free: "\<forall>t c. ths t = Some c \<longrightarrow> ctl_fd c \<noteq> Some fd"
  shows "threads_inv V w (ths(t \<mapsto> Ctl_Test (new_handler fd line)))"
proof -
  have none: "vw_obs V w fd = vw_gone V"
  proof (rule ccontr)
    assume "vw_obs V w fd \<noteq> vw_gone V"
    with inv free show False unfolding threads_inv_def by blast
  qed
  have h: "ctl_fd (Ctl_Test (new_handler fd line)) = Some fd" "ctl_ok V w (Ctl_Test (new_handler fd line))"
    using none assms(3) by (simp_all add: new_handler_def view_sync_def)
  have "\<exists>t' c'. (ths(t \<mapsto> Ctl_Test (new_handler fd line))) t' = Some c' \<and> ctl_fd c' = Some x"
    if "vw_obs V w x \<noteq> vw_gone V" for x
  proof -
    obtain t' c' where t': "ths t' = Some c'" "ctl_fd c' = Some x" using threads_inv_holder [OF inv \<open>vw_obs V w x \<noteq> vw_gone V\<close>] .
    with assms(2) have "t' \<noteq> t" by auto
    with t' show ?thesis by (intro exI [of _ t'] exI [of _ c']) simp
  qed
  note hold = this
  show ?thesis
  proof (rule threads_invI)
    show "finite (dom (ths(t \<mapsto> Ctl_Test (new_handler fd line))))" using threads_invD(1) [OF inv] by simp
    show "ctl_ok V w c'" if "(ths(t \<mapsto> Ctl_Test (new_handler fd line))) t' = Some c'" for t' c'
      using that h(2) threads_invD(2) [OF inv] by (auto split: if_splits)
    show "t1 = t2" if "(ths(t \<mapsto> Ctl_Test (new_handler fd line))) t1 = Some c1"
      "(ths(t \<mapsto> Ctl_Test (new_handler fd line))) t2 = Some c2" "ctl_fd c1 = Some x" "ctl_fd c2 = Some x"
      for t1 t2 c1 c2 x
      using that h(1) free threads_invD(3) [OF inv] by (auto split: if_splits)
  qed (use hold in blast)
qed

section \<open>Every step keeps the invariant\<close>

lemma shutdown_actions_ok: "list_all main_action_ok (shutdown_actions mem_ok junk)"
  using mq_push_spec(1) mq_signal_shutdown_inv
  by (auto simp: shutdown_actions_def main_action_ok_def same_tables_def frame_simps)

lemma bcast_act_quiet:
  assumes "bcast_act lt b w = Some (b', w')"
  shows "same_tables w w' \<and> sv_active_connections w' = sv_active_connections w"
proof (cases b)
  case B_Pop
  show ?thesis
  proof (cases "mq_pop (sv_queue w)")
    case (Pop_Returns st m q)
    have "mq_inv (sv_queue w) \<longrightarrow> mq_inv q" using mq_pop_inv [OF _ Pop_Returns] by blast
    with assms B_Pop Pop_Returns show ?thesis by (cases m) (auto simp: same_tables_def)
  qed (use assms B_Pop in \<open>auto simp: same_tables_def\<close>)
next
  case (B_Node room line n live)
  with assms have "w' = snd (send_to_client line room n w)" by (auto split: prod.splits)
  then show ?thesis by (simp add: frame_simps same_tables_def)
qed (use assms in \<open>auto simp: same_tables_def\<close>)

context session_view
begin

lemma same_tables_view:
  assumes "same_tables w w'"
  shows "vw_inv V w \<Longrightarrow> vw_inv V w'" and "vw_obs V w' = vw_obs V w" and "threads_inv V w' ths = threads_inv V w ths"
  using assms frame [of w w'] obs_frame [of w' w] threads_inv_sessions [of V w' w ths] by (auto simp: same_tables_def)

text \<open>A step that leaves the tables, the counter and the main thread's plans alone.\<close>

lemma sys_inv_world:
  assumes "sys_inv V s" and "same_tables (ss_world s) w'" and "sv_active_connections w' = sv_active_connections (ss_world s)"
  shows "sys_inv V (s\<lparr>ss_world := w', ss_bcast := b\<rparr>)"
  using assms(1,3) same_tables_view [OF assms(2)] by (auto simp: sys_inv_def fd_free_def)

lemma sys_inv_thread:
  assumes inv: "sys_inv V s" and t: "ss_threads s t = Some c" and st: "thread_step (ss_world s) c w' c'"
  shows "sys_inv V (s\<lparr>ss_world := w', ss_threads := (ss_threads s)(t := c'), ss_bcast := b\<rparr>)"
proof (cases "ss_main s = M_Exit")
  case True
  then show ?thesis by (simp add: sys_inv_def)
next
  case False
  note i = sys_invD [OF inv False]
  have fin: "finite (dom (ss_threads s))" and ok: "ctl_ok V (ss_world s) c"
    using threads_invD(1,2) [OF i(2)] t by simp_all
  have dom: "t \<in> dom (ss_threads s)" using t by auto
  show ?thesis
  proof (cases "ctl_fd c")
    case None
    then have c: "c = Ctl_Count" by (cases c) simp_all
    with st have w': "w' = conn_track_decrement (ss_world s)" "c' = None"
      by (auto elim: thread_step.cases)
    have card: "card (dom (ss_threads s)) = Suc (card (dom (ss_threads s) - {t}))"
      using dom fin by (metis card.remove)
    have pos: "0 < sv_active_connections (ss_world s)"
      using i(3) card by (simp add: owed_def split: main_control.split)
    have same: "same_tables (ss_world s) w'" by (simp add: w' conn_track_decrement_def same_tables_def)
    then have "threads_inv V w' ((ss_threads s)(t := None))"
      using threads_inv_gone [OF i(2) t None] same_tables_view(3) by blast
    with same_tables_view(1) [OF same i(1)] show ?thesis
      using i(3-6) pos card False by (auto simp: sys_inv_def w' conn_track_decrement_def fd_free_def)
  next
    case (Some fd)
    from thread_step_own [OF st ok i(1) Some] obtain d where d: "own_step V fd (ss_world s) w'" "c' = Some d"
      "ctl_ok V w' d" "ctl_fd d = Some fd \<or> ctl_fd d = None \<and> vw_obs V w' fd = vw_gone V"
      by blast
    have w': "vw_inv V w'" "sv_active_connections w' = sv_active_connections (ss_world s)"
      using d(1) by (simp_all add: own_step_def)
    have "dom ((ss_threads s)(t \<mapsto> d)) = dom (ss_threads s)" using dom by auto
    moreover have "fd_free x (s\<lparr>ss_world := w', ss_threads := (ss_threads s)(t \<mapsto> d), ss_bcast := b\<rparr>)"
      if "fd_free x s" for x
      using that t Some d(4) by (auto simp: fd_free_def)
    ultimately show ?thesis
      using i(3-6) w' threads_inv_own [OF i(2) t Some d(1,3,4)] d(2) False by (simp add: sys_inv_def)
  qed
qed

lemma sys_step_inv:
  assumes "sys_step lt s s'" and "sys_inv V s"
  shows "sys_inv V s'"
  using assms
proof (cases rule: sys_step.cases)
  case (sys_thread t c w' c')
  then show ?thesis using sys_inv_thread [OF assms(2)] by simp
next
  case (sys_bcast b' w')
  with bcast_act_quiet [OF sys_bcast(2)] show ?thesis using sys_inv_world [OF assms(2)] by simp
next
  case (sys_accept_full fd)
  let ?w = "sys_close fd (snd (refuse fd ''server full (max 100 clients)'' (ss_world s)))"
  have "same_tables (ss_world s) ?w" "sv_active_connections ?w = sv_active_connections (ss_world s)"
    by (simp_all add: frame_simps refuse_send_err same_tables_def)
  with sys_accept_full sys_inv_world [OF assms(2), of ?w "ss_bcast s"] show ?thesis
    by (auto simp: sys_inv_def owed_def planned_def fd_free_def)
next
  case (sys_spawn fd t line)
  then have m: "ss_main s \<noteq> M_Exit" by simp
  note i = sys_invD [OF assms(2) m]
  have f: "0 \<le> fd" "\<forall>t c. ss_threads s t = Some c \<longrightarrow> ctl_fd c \<noteq> Some fd"
    using i(5) [of fd] sys_spawn(2) by (simp_all add: fd_free_def)
  have "t \<notin> dom (ss_threads s)" using sys_spawn(3) by auto
  then have "card (dom ((ss_threads s)(t \<mapsto> Ctl_Test (new_handler fd line)))) = Suc (card (dom (ss_threads s)))"
    using threads_invD(1) [OF i(2)] by simp
  then show ?thesis
    using i(1,3,4) threads_inv_new [OF i(2) sys_spawn(3) f, of line] sys_spawn(1,2)
    by (simp add: sys_inv_def owed_def planned_def del: dom_fun_upd)
next
  case (sys_down_act f fs)
  then have m: "ss_main s \<noteq> M_Exit" by simp
  note i = sys_invD [OF assms(2) m]
  have f: "main_action_ok f" "list_all main_action_ok fs" using i(6) sys_down_act(2) by force+
  then have w: "same_tables (ss_world s) (f (ss_world s))" "sv_active_connections (f (ss_world s)) = sv_active_connections (ss_world s)"
    by (simp_all add: main_action_ok_def)
  with i(1-4) f(2) sys_down_act same_tables_view [OF w(1)] show ?thesis
    by (auto simp: sys_inv_def owed_def planned_def)
next
  case sys_signal
  then show ?thesis
    using sys_inv_world [OF assms(2), of "signal_handler True (ss_world s)" "ss_bcast s"]
    by (simp add: signal_handler_def same_tables_def)
next
  case (sys_kernel script)
  then show ?thesis
    using sys_inv_world [OF assms(2), of "(ss_world s)\<lparr>w_net := (w_net (ss_world s))\<lparr>nt_script := script\<rparr>\<rparr>" "ss_bcast s"]
    by (simp add: same_tables_def)
next
  case (sys_accept fd)
  then show ?thesis using sys_invD [OF assms(2)]
    by (simp add: sys_inv_def owed_def planned_def conn_at_capacity_def fd_free_def)
next
  case (sys_count fd)
  then have i: "vw_inv V (ss_world s)" "threads_inv V (ss_world s) (ss_threads s)" "fd_free fd s"
    "sv_active_connections (ss_world s) = int (card (dom (ss_threads s)))" "sv_active_connections (ss_world s) + 1 \<le> 100"
    using sys_invD [OF assms(2)] by (simp_all add: owed_def planned_def)
  have "same_tables (ss_world s) (conn_track_increment (ss_world s))" by (simp add: conn_track_increment_def same_tables_def)
  from same_tables_view [OF this] i sys_count(1) show ?thesis
    by (simp add: sys_inv_def owed_def planned_def conn_track_increment_def fd_free_def)
next
  case (sys_spawn_fails fd)
  have "same_tables (ss_world s) (sys_close fd (ss_world s))" by (simp add: frame_simps same_tables_def)
  from same_tables_view [OF this] sys_spawn_fails sys_invD [OF assms(2)] show ?thesis
    by (simp add: sys_inv_def owed_def planned_def frame_simps)
next
  case sys_uncount
  have "same_tables (ss_world s) (conn_track_decrement (ss_world s))" by (simp add: conn_track_decrement_def same_tables_def)
  from same_tables_view [OF this] sys_uncount sys_invD [OF assms(2)] show ?thesis
    by (simp add: sys_inv_def owed_def planned_def conn_track_decrement_def)
next
  case (sys_down mem_ok junk)
  then show ?thesis using sys_invD [OF assms(2)] shutdown_actions_ok
    by (simp add: sys_inv_def owed_def planned_def)
next
  case (sys_destroy w')
  then show ?thesis by (simp add: sys_inv_def)
next
  case sys_main_test
  then show ?thesis using sys_invD [OF assms(2)] by (simp add: sys_inv_def owed_def planned_def)
next
  case sys_accept_fails
  then show ?thesis using sys_invD [OF assms(2)] by (simp add: sys_inv_def owed_def planned_def)
qed

end

lemma sys_start_inv:
  assumes "vw_inv V w" and "\<And>x. vw_obs V w x = vw_gone V" and "sv_active_connections w = 0"
  shows "sys_inv V (sys_start w)"
  using assms by (simp add: sys_inv_def sys_start_def threads_inv_def owed_def planned_def)

text \<open>
  From a start on: the table whatever the names, the names when the database has short ones
  only, and the database the same throughout.
\<close>

lemma sys_reachable_inv:
  assumes "sys_reachable lt s"
  shows "sys_inv table_view s"
    and "ss_main s \<noteq> M_Exit \<Longrightarrow> names_short (sv_auth (ss_world s)) \<Longrightarrow> sys_inv name_view s"
proof -
  from assms have "sys_inv table_view s \<and> (\<exists>db. sys_inv (auth_view db) s \<and> (names_short db \<longrightarrow> sys_inv name_view s))"
  proof (induction rule: sys_reachable.induct)
    case (sys_init ie net port users_db w0 lfd w)
    have w: "w = w0\<lparr>sv_listen_fd := lfd, sv_broadcaster_tid := True\<rparr>" using server_listen_OK [OF sys_init(2)] .
    note init = server_init_OK [OF sys_init(1)] and nodes = server_init_nodes [OF sys_init(1)]
    have "sys_inv table_view (sys_start w)"
      by (rule sys_start_inv) (use init nodes mq_inv_empty in \<open>simp_all add: w table_ok_def\<close>)
    moreover have "sys_inv (auth_view (sv_auth w)) (sys_start w)"
      by (rule sys_start_inv) (use init in \<open>simp_all add: w\<close>)
    moreover have "sys_inv name_view (sys_start w)" if "names_short (sv_auth w)"
      by (rule sys_start_inv) (use init that mq_inv_empty in \<open>simp_all add: w world_inv_def\<close>)
    ultimately show ?case by blast
  next
    case (sys_next s s')
    then show ?case using table.sys_step_inv names.sys_step_inv auth.sys_step_inv by blast
  qed
  then obtain db where inv: "sys_inv table_view s" "sys_inv (auth_view db) s" "names_short db \<longrightarrow> sys_inv name_view s"
    by blast
  show "sys_inv table_view s" by fact
  show "sys_inv name_view s" if "ss_main s \<noteq> M_Exit" "names_short (sv_auth (ss_world s))"
    using inv(3) sys_invD(1) [OF inv(2) that(1)] that(2) by simp
qed

end
