(* ===== verification/Interleaving_Runs.thy ===== *)
theory Interleaving_Runs
  imports Interleaving_Properties
begin

text \<open>
  Runs of the interleaved server: a thread that is not interrupted does what \<open>Commands\<close> says,
  a login carried out action by action, and the runs in which the server uses memory that
  another thread has freed, or a descriptor that has passed to another client.
\<close>

section \<open>A thread that is not interrupted\<close>

text \<open>The walk stays where it is while threads act; only its node may go.\<close>

fun same_place :: "bcast_control \<Rightarrow> bcast_control \<Rightarrow> bool" where
  "same_place (B_Node room line n v) b \<longleftrightarrow> (\<exists>v'. b = B_Node room line n v')"
| "same_place (B_Next room line fd v) b \<longleftrightarrow> (\<exists>v'. b = B_Next room line fd v')"
| "same_place a b \<longleftrightarrow> b = a"

lemma same_place_refl [simp]: "same_place b b"
  by (cases b) simp_all

lemma same_place_unlink: "same_place (unlink w b) c \<Longrightarrow> same_place b c"
  by (cases b) auto

definition after_run :: "server_sys \<Rightarrow> nat \<Rightarrow> world \<Rightarrow> control option \<Rightarrow> server_sys \<Rightarrow> bool" where
  "after_run s t w c s' \<longleftrightarrow>
     (\<exists>b. same_place (ss_bcast s) b \<and> s' = s\<lparr>ss_world := w, ss_threads := (ss_threads s)(t := c), ss_bcast := b\<rparr>)"

lemma thread_sys_step:
  assumes "ss_threads s t = Some c" and "thread_step (ss_world s) c w' c'"
  shows "sys_step lt s (s\<lparr>ss_world := w', ss_threads := (ss_threads s)(t := c'), ss_bcast := unlink w' (ss_bcast s)\<rparr>)"
  using assms by (rule sys_step.sys_thread)

lemma run_uninterrupted:
  "ss_threads s t = Some (Ctl_Run fd p) \<Longrightarrow>
   \<exists>s'. (sys_step lt)\<^sup>*\<^sup>* s s' \<and> after_run s t (snd (run p (ss_world s))) (Some (Ctl_Run fd (Ret (fst (run p (ss_world s)))))) s'"
proof (induction p arbitrary: s)
  case (Ret a)
  then have "after_run s t (ss_world s) (Some (Ctl_Run fd (Ret a))) s"
    unfolding after_run_def by (intro exI [of _ "ss_bcast s"]) (simp add: fun_upd_idem)
  then show ?case by auto
next
  case (Act f)
  obtain p' w' where f: "f (ss_world s) = (p', w')" by (cases "f (ss_world s)")
  let ?s1 = "s\<lparr>ss_world := w', ss_threads := (ss_threads s)(t := Some (Ctl_Run fd p')), ss_bcast := unlink w' (ss_bcast s)\<rparr>"
  have st: "sys_step lt s ?s1" by (rule thread_sys_step [OF Act.prems]) (rule t_act, rule f)
  have "f (ss_world s) \<in> range f" by (rule rangeI)
  moreover have "p' \<in> Basic_BNFs.fsts (f (ss_world s))" using f by (simp add: prod_set_simps)
  ultimately have mem: "f (ss_world s) \<in> range f" "p' \<in> Basic_BNFs.fsts (f (ss_world s))" by blast+
  from Act.IH [OF mem, of ?s1] obtain s' where s': "(sys_step lt)\<^sup>*\<^sup>* ?s1 s'"
    "after_run ?s1 t (snd (run p' w')) (Some (Ctl_Run fd (Ret (fst (run p' w'))))) s'"
    by auto
  have "after_run s t (snd (run p' w')) (Some (Ctl_Run fd (Ret (fst (run p' w'))))) s'"
    using s'(2) by (auto simp: after_run_def dest: same_place_unlink)
  with converse_rtranclp_into_rtranclp [where r = "sys_step lt", OF st s'(1)] f show ?case
    by (auto simp: map_prod_def)
qed

text \<open>A thread that leaves: in the end it has closed its descriptor, and a walk that stood on its node is cut off.\<close>

lemma leave_uninterrupted:
  "ss_threads s t = Some (Ctl_Leave fd (Act f)) \<Longrightarrow>
   \<exists>s' b. (sys_step lt)\<^sup>*\<^sup>* s s' \<and> same_place (ss_bcast s) b \<and>
     s' = s\<lparr>ss_world := snd (run (Act f) (ss_world s)), ss_threads := (ss_threads s)(t := Some Ctl_Count),
            ss_bcast := unlink (snd (run (Act f) (ss_world s))) b\<rparr>"
proof (induction "Act f" arbitrary: f s)
  case (Act f)
  obtain p' w' where f: "f (ss_world s) = (p', w')" by (cases "f (ss_world s)")
  let ?s1 = "s\<lparr>ss_world := w', ss_threads := (ss_threads s)(t := Some (after_leave fd p')), ss_bcast := unlink w' (ss_bcast s)\<rparr>"
  have st: "sys_step lt s ?s1" by (rule thread_sys_step [OF Act.prems]) (rule t_leave, rule f)
  show ?case
  proof (cases p')
    case (Ret u)
    with st f show ?thesis
      by (intro exI [of _ ?s1] exI [of _ "ss_bcast s"]) (simp add: after_leave_def map_prod_def)
  next
    case p': (Act g)
    have "f (ss_world s) \<in> range f" by (rule rangeI)
    moreover have "Act g \<in> Basic_BNFs.fsts (f (ss_world s))" using f p' by (simp add: prod_set_simps)
    ultimately have mem: "f (ss_world s) \<in> range f" "Act g \<in> Basic_BNFs.fsts (f (ss_world s))" by blast+
    from Act.hyps [OF mem, of ?s1] p' obtain s' b where s': "(sys_step lt)\<^sup>*\<^sup>* ?s1 s'" "same_place (unlink w' (ss_bcast s)) b"
      "s' = ?s1\<lparr>ss_world := snd (run (Act g) w'), ss_threads := (ss_threads ?s1)(t := Some Ctl_Count),
            ss_bcast := unlink (snd (run (Act g) w')) b\<rparr>"
      by (auto simp: after_leave_def)
    have "snd (run (Act f) (ss_world s)) = snd (run (Act g) w')" using f p' by (simp add: map_prod_def)
    with s' converse_rtranclp_into_rtranclp [where r = "sys_step lt", OF st s'(1)] show ?thesis
      by (intro exI [of _ s'] exI [of _ b]) (auto dest: same_place_unlink)
  qed
qed

text \<open>The shutdown, and a thread on which no walk stands.\<close>

lemma thread_quiet_step:
  assumes "ss_threads s t = Some c" and "thread_step (ss_world s) c w' c'" and "unlink w' (ss_bcast s) = ss_bcast s"
  shows "sys_step lt s (s\<lparr>ss_world := w', ss_threads := (ss_threads s)(t := c')\<rparr>)"
proof -
  have "s\<lparr>ss_world := w', ss_threads := (ss_threads s)(t := c'), ss_bcast := ss_bcast s\<rparr>
      = s\<lparr>ss_world := w', ss_threads := (ss_threads s)(t := c')\<rparr>" by (cases s) simp
  with thread_sys_step [OF assms(1,2), of lt] assms(3) show ?thesis by simp
qed

lemma down_uninterrupted:
  "ss_main s = M_Down fs \<Longrightarrow> fs \<noteq> [] \<Longrightarrow>
   (sys_step lt)\<^sup>*\<^sup>* s (s\<lparr>ss_world := fold (\<lambda>f w. f w) fs (ss_world s), ss_main := M_Join\<rparr>)"
proof (induction fs arbitrary: s)
  case (Cons f fs)
  let ?s1 = "s\<lparr>ss_world := f (ss_world s), ss_main := (if fs = [] then M_Join else M_Down fs)\<rparr>"
  have 1: "sys_step lt s ?s1" using Cons.prems(1) by (rule sys_down_act)
  show ?case
  proof (cases "fs = []")
    case True
    with 1 show ?thesis by (simp add: r_into_rtranclp)
  next
    case False
    then have "(sys_step lt)\<^sup>*\<^sup>* ?s1 (?s1\<lparr>ss_world := fold (\<lambda>f w. f w) fs (f (ss_world s)), ss_main := M_Join\<rparr>)"
      using Cons.IH [of ?s1] by simp
    with converse_rtranclp_into_rtranclp [where r = "sys_step lt", OF 1] show ?thesis by simp
  qed
qed simp

lemma shutdown_uninterrupted:
  assumes "ss_main s = M_Test" and "\<not> sv_running (ss_world s)"
  shows "(sys_step lt)\<^sup>*\<^sup>* s (s\<lparr>ss_world := server_shutdown mem_ok junk (ss_world s), ss_main := M_Join\<rparr>)"
proof -
  let ?s1 = "s\<lparr>ss_main := M_Down (shutdown_actions mem_ok junk)\<rparr>"
  have 1: "sys_step lt s ?s1" using assms by (rule sys_down)
  have "shutdown_actions mem_ok junk \<noteq> []" by (simp add: shutdown_actions_def)
  then have "(sys_step lt)\<^sup>*\<^sup>* ?s1 (?s1\<lparr>ss_world := server_shutdown mem_ok junk (ss_world s), ss_main := M_Join\<rparr>)"
    using down_uninterrupted [of ?s1 "shutdown_actions mem_ok junk" lt] by (simp add: shutdown_actions_run)
  with converse_rtranclp_into_rtranclp [where r = "sys_step lt", OF 1] show ?thesis by simp
qed

section \<open>A login, action by action\<close>

text \<open>
  The server after the login of a first client: the walk of the broadcaster over the list for
  the event of the login stands on the new client's node, about to send to it, and the
  client's thread waits for its next line.
\<close>

definition login_line :: cbuf where
  "login_line = ''AUTH carol x'' @ NUL # replicate 2035 NUL"

definition login_env :: call_env where
  "login_env = sample_env\<lparr>ce_evp := (\<lambda>_. Evp_Digest [10])\<rparr>"

definition first_client :: "world \<Rightarrow> server_sys" where
  "first_client w = (sys_start (conn_track_increment w))\<lparr>ss_threads := [0 \<mapsto> Ctl_Test (new_handler 7 login_line)]\<rparr>"

lemma first_client_steps:
  assumes "sv_running w" and "sv_active_connections w = 0"
  shows "(sys_step lt)\<^sup>*\<^sup>* (sys_start w) (first_client w)"
proof -
  have len: "length login_line = MAX_LINE_LEN" by (simp add: login_line_def)
  let ?a = "(sys_start w)\<lparr>ss_main := M_Accept\<rparr>" and ?b = "(sys_start w)\<lparr>ss_main := M_Admit 7\<rparr>"
  let ?c = "(sys_start (conn_track_increment w))\<lparr>ss_main := M_Counted 7\<rparr>"
  have 1: "sys_step lt (sys_start w) ?a"
    using sys_main_test [of "sys_start w" lt] assms(1) by (simp add: sys_start_def)
  have 2: "sys_step lt ?a ?b"
    using sys_accept [of ?a 7 lt] assms(2) by (simp add: sys_start_def fd_free_def conn_at_capacity_def)
  have 3: "sys_step lt ?b ?c"
    using sys_count [of ?b 7 lt] by (simp add: sys_start_def)
  have 4: "sys_step lt ?c (first_client w)"
    using sys_spawn [of ?c 7 0 login_line lt] len by (simp add: sys_start_def first_client_def)
  show ?thesis
    by (rule converse_rtranclp_into_rtranclp, rule 1, rule converse_rtranclp_into_rtranclp, rule 2,
        rule converse_rtranclp_into_rtranclp, rule 3, rule r_into_rtranclp, rule 4)
qed

lemma login_line_text: "c_str login_line = ''AUTH carol x''"
  unfolding login_line_def by (rule c_str_append_nul) (simp add: is_c_string_def)

lemma login_parse:
  "protocol_parse_client_line ''AUTH carol x'' = (CHAT_OK, \<lparr>pc_cmd = CMD_AUTH, pc_arg1 = ''carol'', pc_arg2 = ''x''\<rparr>)"
  by (simp add: protocol_parse_client_line_def split_first_token_def parse_two_tokens_def empty_cmd_def Let_def)

lemma login_mem: "node_sized (ce_node login_env)"
  by (simp add: node_sized_def node_typed_def login_env_def sample_env_def zero_node_def)

lemma login_result:
  assumes inv: "world_inv w" and s: "sessions w = Map.empty" and op: "open_fd w 7"
    and db: "ad_head (sv_auth w) = [sample_user ''carol'' ''0a'' True]"
  shows "fst (cmd_handle_auth login_env 7 ''carol'' ''x'' w) = CHAT_OK"
proof (rule login_open [THEN conjunct1, OF inv _ op])
  show "auth_verify (ce_evp login_env) (sv_auth w) ''carol'' ''x'' = CHAT_OK"
    using db by (simp add: auth_verify_def auth_hash_password_def login_env_def sample_user_def hex2_def digit_def)
  show "''carol'' \<notin> reg.online (sv_registry w)" using s by (simp add: reg.online_def)
  show "registry_count (sv_registry w) < MAX_CLIENTS"
    using registry_count_sessions [OF world_invD(1) [OF inv]] s by simp
qed (use s in \<open>simp_all add: login_env_def sample_env_def\<close>)

text \<open>The state after the login: everything the runs below need of it.\<close>

definition logged_in :: "server_sys \<Rightarrow> handler \<Rightarrow> bool" where
  "logged_in s h \<longleftrightarrow> ss_threads s = [0 \<mapsto> Ctl_Test h] \<and> ss_main s = M_Test \<and> ss_bcast s = B_Test \<and>
     hd_fd h = 7 \<and> hd_authenticated h \<and> hd_username h = ''carol'' \<and> world_inv (ss_world s) \<and>
     sv_running (ss_world s) \<and> sessions (ss_world s) = [7 \<mapsto> (''carol'', ''lobby'', True)] \<and>
     events (ss_world s) = [room_event sample_event MQ_JOIN ''carol'' ''lobby''] \<and>
     nt_script (w_net (ss_world s)) = (\<lambda>_. [])"

lemma login_run: "\<exists>s h. sys_reachable lt s \<and> logged_in s h"
proof -
  obtain w0 where w0: "server_init sample_init quiet_net 8080 (Some ''u'') = Some (CHAT_OK, w0)"
    and db: "ad_head (sv_auth w0) = [sample_user ''carol'' ''0a'' True]"
    using sample_init_users by blast
  let ?w = "w0\<lparr>sv_listen_fd := 3, sv_broadcaster_tid := True\<rparr>"
  note init = server_init_OK [OF w0]
  have "server_listen 3 True True True True w0 = (CHAT_OK, ?w)" by (simp add: server_listen_def)
  then have r: "sys_reachable lt (sys_start ?w)" using w0 sys_init by blast
  let ?f = "first_client ?w" and ?wf = "conn_track_increment ?w" and ?h0 = "new_handler 7 login_line"
  have rf: "sys_reachable lt ?f"
    by (rule sys_reachable_steps [OF first_client_steps r]) (use init in simp_all)
  have mq0: "mq_contents mq_empty = []" "\<not> mq_shutdown mq_empty" by (simp_all add: mq_empty_def mq_contents_def)
  have wf: "world_inv ?wf" "sessions ?wf = Map.empty" "sv_running ?wf" "events ?wf = []" "nt_script (w_net ?wf) = (\<lambda>_. [])"
    "ad_head (sv_auth ?wf) = [sample_user ''carol'' ''0a'' True]" "\<not> mq_shutdown (sv_queue ?wf)"
    using init db mq_inv_empty mq0
    by (simp_all add: conn_track_increment_def world_inv_def quiet_net_def)
  let ?s1 = "?f\<lparr>ss_threads := [0 \<mapsto> Ctl_Recv ?h0]\<rparr>"
  let ?p = "handler_prog login_env (c_str login_line) (?h0\<lparr>hd_line := login_line\<rparr>)"
  let ?s2 = "?f\<lparr>ss_threads := [0 \<mapsto> Ctl_Run 7 ?p]\<rparr>"
  have 1: "sys_step lt ?f ?s1"
    using thread_sys_step [of ?f 0 "Ctl_Test ?h0" ?wf "Some (Ctl_Recv ?h0)" lt] t_recv [of ?wf ?h0] wf(3)
    by (simp add: first_client_def sys_start_def)
  have 2: "sys_step lt ?s1 ?s2"
    using thread_sys_step [of ?s1 0 "Ctl_Recv ?h0" ?wf "Some (Ctl_Run 7 ?p)" lt]
      t_line [of login_line login_env ?wf ?h0] login_mem
    by (simp add: first_client_def sys_start_def new_handler_def login_line_def)
  let ?h1 = "\<lparr>hd_fd = 7, hd_line = login_line, hd_username = ''carol'', hd_authenticated = True\<rparr>"
  have ok: "fst (cmd_handle_auth login_env 7 ''carol'' ''x'' ?wf) = CHAT_OK"
    using login_result [OF wf(1,2) _ wf(6)] wf(5) by (simp add: open_fd_def)
  then obtain w1 where auth: "cmd_handle_auth login_env 7 ''carol'' ''x'' ?wf = (CHAT_OK, w1)" by (metis prod.collapse)
  have "handler_command login_env (c_str login_line) (?h0\<lparr>hd_line := login_line\<rparr>) ?wf = (True, ?h1, w1)"
    using auth by (simp add: handler_command_def login_line_text login_parse new_handler_def)
  then have run: "run ?p ?wf = ((True, ?h1), w1)" by (simp add: run_handler)
  from run_uninterrupted [of ?s2 0 7 ?p lt] run obtain s3 where s3: "(sys_step lt)\<^sup>*\<^sup>* ?s2 s3"
    "after_run ?s2 0 w1 (Some (Ctl_Run 7 (Ret (True, ?h1)))) s3"
    by (auto simp: first_client_def sys_start_def)
  then have s3': "s3 = ?s2\<lparr>ss_world := w1, ss_threads := [0 \<mapsto> Ctl_Run 7 (Ret (True, ?h1))]\<rparr>"
    by (auto simp: after_run_def first_client_def sys_start_def)
  let ?s4 = "s3\<lparr>ss_threads := [0 \<mapsto> Ctl_Test ?h1]\<rparr>"
  have 4: "sys_step lt s3 ?s4"
    using thread_sys_step [of s3 0 "Ctl_Run 7 (Ret (True, ?h1))" w1 "Some (Ctl_Test ?h1)" lt] t_next [of w1 7 ?h1]
    by (simp add: s3' first_client_def sys_start_def)
  have "(sys_step lt)\<^sup>*\<^sup>* ?f ?s4"
    by (rule converse_rtranclp_into_rtranclp, rule 1, rule converse_rtranclp_into_rtranclp, rule 2,
        rule rtranclp.rtrancl_into_rtrancl, rule s3(1), rule 4)
  then have r4: "sys_reachable lt ?s4" using sys_reachable_steps rf by blast
  have mem: "node_mem_ok (ce_node login_env) ''carol'' DEFAULT_ROOM" using sample_mem by (simp add: login_env_def)
  from cmd_handle_auth_OK [OF wf(1) mem _ auth] wf
  have "world_inv w1" "sessions w1 = [7 \<mapsto> (''carol'', DEFAULT_ROOM, auth_is_admin (sv_auth ?wf) ''carol'')]"
    "events w1 = queued sample_event (room_event sample_event MQ_JOIN ''carol'' DEFAULT_ROOM) ?wf"
    by (simp_all add: login_env_def sample_env_simps)
  moreover have "auth_is_admin (sv_auth ?wf) ''carol''" using wf(6) by (simp add: auth_is_admin_def sample_user_def)
  ultimately have "logged_in ?s4 ?h1"
    using wf auth_script [OF wf(5), of login_env 7 "''carol''" "''x''"]
      auth_running(1) [of login_env 7 "''carol''" "''x''" ?wf] auth
    by (simp add: logged_in_def s3' first_client_def sys_start_def frame_simps queued_def sample_env_simps DEFAULT_ROOM_def)
  with r4 show ?thesis by blast
qed

section \<open>What holds in every interleaving\<close>

text \<open>
  Property C2. In every state of every interleaving, until the tables are freed, whatever the
  names in the database and whatever the allocator's memory held (a name left without a
  terminator is read as the 32 bytes of its array): the counter is the number
  of client threads, and one more while the accept loop is between counting a connection and
  starting its thread, and at most 100; no descriptor is in the table twice; every session
  belongs to exactly one thread, which has not closed its descriptor; and a thread that waits
  for a line is logged in exactly when its descriptor is in the table. If no name of the
  database has 31 characters (C36 is about those), then also: the shared structures are well
  formed, no two connections are logged in under the same name, and the session of a thread
  that waits for a line has the name the thread has.
\<close>

theorem interleaved_consistent:
  assumes "sys_reachable lt s" and "ss_main s \<noteq> M_Exit"
  shows "sv_active_connections (ss_world s) = int (card (dom (ss_threads s))) +
       (case ss_main s of M_Counted _ \<Rightarrow> 1 | M_Uncount \<Rightarrow> 1 | _ \<Rightarrow> 0) \<and>
     sv_active_connections (ss_world s) \<le> int MAX_CLIENTS \<and>
     distinct (map cn_sockfd (cr_nodes (sv_registry (ss_world s)))) \<and>
     (\<forall>fd. sessions (ss_world s) fd \<noteq> None \<longrightarrow> (\<exists>!t. \<exists>c. ss_threads s t = Some c \<and> ctl_fd c = Some fd)) \<and>
     (\<forall>t h. ss_threads s t = Some (Ctl_Recv h) \<longrightarrow> (hd_authenticated h \<longleftrightarrow> sessions (ss_world s) (hd_fd h) \<noteq> None)) \<and>
     (names_short (sv_auth (ss_world s)) \<longrightarrow> world_inv (ss_world s) \<and>
        (\<forall>fd fd' u rm a rm' a'. sessions (ss_world s) fd = Some (u, rm, a) \<and>
           sessions (ss_world s) fd' = Some (u, rm', a') \<longrightarrow> fd = fd') \<and>
        (\<forall>t h. ss_threads s t = Some (Ctl_Recv h) \<and> hd_authenticated h \<longrightarrow>
           (\<exists>rm a. sessions (ss_world s) (hd_fd h) = Some (hd_username h, rm, a))))"
proof -
  note inv = sys_invD [OF sys_reachable_inv(1) [OF assms(1)] assms(2)]
  have one: "\<exists>!t. \<exists>c. ss_threads s t = Some c \<and> ctl_fd c = Some fd" if "sessions (ss_world s) fd \<noteq> None" for fd
  proof -
    have "vw_obs table_view (ss_world s) fd \<noteq> vw_gone table_view" using that sessions_online by simp
    from threads_inv_holder [OF inv(2) this] threads_invD(3) [OF inv(2)] show ?thesis by metis
  qed
  have recv: "hd_authenticated h \<longleftrightarrow> sessions (ss_world s) (hd_fd h) \<noteq> None" if "ss_threads s t = Some (Ctl_Recv h)" for t h
    using threads_invD(2) [OF inv(2) that] unfolding sessions_online by (simp add: view_sync_def del: set_map split: if_splits)
  have count: "sv_active_connections (ss_world s) = int (card (dom (ss_threads s))) +
       (case ss_main s of M_Counted _ \<Rightarrow> 1 | M_Uncount \<Rightarrow> 1 | _ \<Rightarrow> 0)" "sv_active_connections (ss_world s) \<le> int MAX_CLIENTS"
    using inv(3,4) by (simp_all add: owed_def planned_def split: main_control.splits)
  have fds: "distinct (online_fds (ss_world s))" using inv(1) by (simp add: table_ok_def)
  have named: "world_inv (ss_world s) \<and> (\<forall>fd fd' u rm a rm' a'. sessions (ss_world s) fd = Some (u, rm, a) \<and>
           sessions (ss_world s) fd' = Some (u, rm', a') \<longrightarrow> fd = fd') \<and>
        (\<forall>t h. ss_threads s t = Some (Ctl_Recv h) \<and> hd_authenticated h \<longrightarrow>
           (\<exists>rm a. sessions (ss_world s) (hd_fd h) = Some (hd_username h, rm, a)))"
    if "names_short (sv_auth (ss_world s))"
  proof -
    note n = sys_invD [OF sys_reachable_inv(2) [OF assms that] assms(2)]
    have w: "world_inv (ss_world s)" using n(1) by simp
    have "fd = fd'" if "sessions (ss_world s) fd = Some (u, rm, a)" "sessions (ss_world s) fd' = Some (u, rm', a')"
      for fd fd' u rm a rm' a'
      using reg.one_owner [OF world_invD(1) [OF w] that] .
    moreover have "\<exists>rm a. sessions (ss_world s) (hd_fd h) = Some (hd_username h, rm, a)"
      if "ss_threads s t = Some (Ctl_Recv h)" "hd_authenticated h" for t h
      using threads_invD(2) [OF n(2) that(1)] that(2) by (simp add: view_sync_def)
    ultimately show ?thesis using w by blast
  qed
  show ?thesis
  proof (intro conjI)
    show "\<forall>fd. sessions (ss_world s) fd \<noteq> None \<longrightarrow> (\<exists>!t. \<exists>c. ss_threads s t = Some c \<and> ctl_fd c = Some fd)"
      using one by blast
    show "\<forall>t h. ss_threads s t = Some (Ctl_Recv h) \<longrightarrow> (hd_authenticated h \<longleftrightarrow> sessions (ss_world s) (hd_fd h) \<noteq> None)"
      using recv by blast
  qed (fact count fds | rule impI, rule named, assumption)+
qed

theorem interleaved_consistent_witness:
  "\<exists>s h. sys_reachable (\<lambda>_. None) s \<and> ss_threads s = [0 \<mapsto> Ctl_Test h] \<and> hd_authenticated h \<and>
     sv_active_connections (ss_world s) = 1 \<and> sessions (ss_world s) = [7 \<mapsto> (''carol'', ''lobby'', True)]"
proof -
  obtain s h where s: "sys_reachable (\<lambda>_. None) s" "logged_in s h" using login_run by blast
  note d = s(2) [unfolded logged_in_def]
  have "ss_main s \<noteq> M_Exit" using d by simp
  from interleaved_consistent [OF s(1) this, THEN conjunct1]
  have "sv_active_connections (ss_world s) = 1" using d by simp
  with s(1) d show ?thesis by blast
qed

section \<open>A walk on a node that is freed\<close>

text \<open>The broadcaster takes the event of the login and comes to stand on the new client's node.\<close>

lemma pop_event:
  assumes w: "world_inv w" and e: "events w = [room_event sample_event MQ_JOIN ''carol'' ''lobby'']"
  shows "\<exists>line q. bcast_act lt B_Pop w = Some (B_Head ''lobby'' line, w\<lparr>sv_queue := q\<rparr>)"
proof -
  let ?m = "room_event sample_event MQ_JOIN ''carol'' ''lobby''"
  have "event_mem_ok sample_event ''carol'' ''lobby''" by (rule sample_event_mem) (simp_all add: is_c_string_def)
  from room_event_view [OF this, of MQ_JOIN]
  have m: "mm_type ?m = MQ_JOIN" "c_str (mm_username ?m) = ''carol''" "c_str (mm_room ?m) = ''lobby''"
    by (simp_all add: event_view_def)
  have "fst (event_line lt ?m) = CHAT_OK"
    by (simp add: event_line_def m protocol_build_server_user_join_def snprintf_line_def Let_def)
  moreover obtain q where "mq_pop (sv_queue w) = Pop_Returns CHAT_OK (Some ?m) q"
    using mq_pop_Cons [OF world_invD(3) [OF w] e] by blast
  ultimately show ?thesis using m by auto
qed

lemma walk_starts:
  assumes l: "logged_in s h"
  shows "\<exists>line w'. sessions w' = sessions (ss_world s) \<and> (sys_step lt)\<^sup>*\<^sup>* s
     (s\<lparr>ss_threads := [0 \<mapsto> Ctl_Recv h], ss_world := w', ss_bcast := B_Next ''lobby'' line 7 True\<rparr>)"
proof -
  note d = l [unfolded logged_in_def]
  let ?w = "ss_world s"
  obtain line q where pop: "bcast_act lt B_Pop ?w = Some (B_Head ''lobby'' line, ?w\<lparr>sv_queue := q\<rparr>)"
    using pop_event d by blast
  have "\<exists>n \<in> set (cr_nodes (sv_registry ?w)). cn_sockfd n = 7"
    using d registry_sessions_node [of "sv_registry ?w" 7] by (simp add: world_inv_def) blast
  then obtain n ns where ns: "cr_nodes (sv_registry ?w) = n # ns"
    by (cases "cr_nodes (sv_registry ?w)") auto
  then have "sessions ?w (cn_sockfd n) = Some (node_view n)"
    using d registry_sessions_node [of "sv_registry ?w" "cn_sockfd n" "node_view n"] by (simp add: world_inv_def)
  then have n: "cn_sockfd n = 7" using d by (simp split: if_splits)
  let ?wq = "?w\<lparr>sv_queue := q\<rparr>"
  have "fst (send_to_client line ''lobby'' n ?wq) = CHAT_OK"
    using net_send_all_open(1) [of ?wq 7 line] d n by (simp add: send_to_client_def open_fd_def split_beta)
  then obtain w' where call: "send_to_client line ''lobby'' n ?wq = (CHAT_OK, w')" by (metis prod.collapse)
  let ?s1 = "s\<lparr>ss_threads := [0 \<mapsto> Ctl_Recv h], ss_bcast := B_Test\<rparr>"
  let ?s2 = "?s1\<lparr>ss_bcast := B_Pop\<rparr>"
  let ?s3 = "?s1\<lparr>ss_world := ?wq, ss_bcast := B_Head ''lobby'' line\<rparr>"
  let ?s4 = "?s1\<lparr>ss_world := ?wq, ss_bcast := B_Node ''lobby'' line n True\<rparr>"
  let ?s5 = "?s1\<lparr>ss_world := w', ss_bcast := B_Next ''lobby'' line 7 True\<rparr>"
  have 1: "sys_step lt s ?s1"
    using thread_sys_step [of s 0 "Ctl_Test h" ?w "Some (Ctl_Recv h)" lt] t_recv [of ?w h] d by simp
  have 2: "sys_step lt ?s1 ?s2" using sys_bcast [of lt ?s1 B_Pop ?w] d by simp
  have 3: "sys_step lt ?s2 ?s3" using sys_bcast [of lt ?s2 "B_Head ''lobby'' line" ?wq] pop by simp
  have 4: "sys_step lt ?s3 ?s4"
    using sys_bcast [of lt ?s3 "B_Node ''lobby'' line n True" ?wq] ns by simp
  have 5: "sys_step lt ?s4 ?s5"
    using sys_bcast [of lt ?s4 "B_Next ''lobby'' line 7 True" w'] n call by simp
  have steps: "(sys_step lt)\<^sup>*\<^sup>* s ?s5"
    by (rule converse_rtranclp_into_rtranclp, rule 1, rule converse_rtranclp_into_rtranclp, rule 2,
        rule converse_rtranclp_into_rtranclp, rule 3, rule converse_rtranclp_into_rtranclp, rule 4,
        rule r_into_rtranclp, rule 5)
  have "sv_registry (snd (send_to_client line ''lobby'' n ?wq)) = sv_registry ?w"
    by (simp add: send_to_client_def frame_simps split_beta)
  with steps call show ?thesis by (intro exI [of _ line] exI [of _ w']) simp
qed

text \<open>
  Property C18. The walk over the clients can run into memory that has been freed: whenever the
  broadcaster has sent to a client, the lock released for it, and that client's connection ends
  before the walk takes the lock again, its thread takes the node out of the list and frees
  it, and the broadcaster then reads the freed node's \<open>next\<close>.
\<close>

theorem broadcast_use_after_free:
  assumes "sys_inv table_view s" and "ss_main s \<noteq> M_Exit" and "ss_bcast s = B_Next room line (hd_fd h) True"
    and "ss_threads s t = Some (Ctl_Recv h)" and "hd_authenticated h"
  shows "\<exists>s'. (sys_step lt)\<^sup>*\<^sup>* s s' \<and> ss_bcast s' = B_Fault"
proof -
  let ?w = "ss_world s" and ?fd = "hd_fd h" and ?u = "hd_username h"
  note w = sys_invD(1) [OF assms(1,2)]
  have "ctl_ok table_view ?w (Ctl_Recv h)" using threads_invD(2) [OF sys_invD(2) [OF assms(1,2)] assms(4)] .
  then have sync: "?u \<noteq> []" using assms(5) by (auto simp: view_sync_def)
  let ?p = "leave_prog sample_event ?fd ?u True"
  let ?s1 = "s\<lparr>ss_threads := (ss_threads s)(t \<mapsto> Ctl_Leave ?fd ?p), ss_bcast := unlink ?w (ss_bcast s)\<rparr>"
  have 1: "sys_step lt s ?s1"
    using thread_sys_step [OF assms(4) t_fail [of ?w h sample_event], of lt] assms(5) by (simp add: leaving_def)
  obtain f where f: "?p = Act f" using sync by (simp add: leave_prog_def Let_def look_def act_def)
  let ?w2 = "cmd_disconnect_client sample_event ?fd ?u True ?w"
  have run: "snd (run (Act f) (ss_world ?s1)) = ?w2" using run_leave [of sample_event ?fd ?u True ?w] f by simp
  from leave_uninterrupted [of ?s1 t ?fd f lt] f run obtain s2 b where s2: "(sys_step lt)\<^sup>*\<^sup>* ?s1 s2"
    "same_place (unlink ?w (ss_bcast s)) b"
    "s2 = ?s1\<lparr>ss_world := ?w2, ss_threads := (ss_threads ?s1)(t := Some Ctl_Count), ss_bcast := unlink ?w2 b\<rparr>"
    by auto
  then obtain v where b: "b = B_Next room line ?fd v" using assms(3) by auto
  have "?fd \<notin> set (online_fds ?w2)"
    using w sync by (simp add: cmd_disconnect_fds table_ok_def set_remove1_eq del: set_map)
  then have "?fd \<notin> registry_fds ?w2" by (simp add: registry_fds_def)
  then have b2: "ss_bcast s2 = B_Next room line ?fd False" using s2(3) b by simp
  have 3: "sys_step lt s2 (s2\<lparr>ss_bcast := B_Fault\<rparr>)"
    using sys_bcast [of lt s2 B_Fault "ss_world s2"] b2 by simp
  have "(sys_step lt)\<^sup>*\<^sup>* s (s2\<lparr>ss_bcast := B_Fault\<rparr>)"
    by (rule converse_rtranclp_into_rtranclp, rule 1, rule rtranclp.rtrancl_into_rtrancl, rule s2(1), rule 3)
  then show ?thesis by (intro exI conjI) (assumption, simp)
qed

theorem broadcast_use_after_free_witness: "\<exists>s. sys_reachable (\<lambda>_. None) s \<and> ss_bcast s = B_Fault"
proof -
  obtain s h where s: "sys_reachable (\<lambda>_. None) s" "logged_in s h" using login_run by blast
  from walk_starts [OF s(2), of "\<lambda>_. None"] obtain line w'
    where st: "(sys_step (\<lambda>_. None))\<^sup>*\<^sup>* s (s\<lparr>ss_threads := [0 \<mapsto> Ctl_Recv h], ss_world := w',
      ss_bcast := B_Next ''lobby'' line 7 True\<rparr>)"
    by blast
  let ?s = "s\<lparr>ss_threads := [0 \<mapsto> Ctl_Recv h], ss_world := w', ss_bcast := B_Next ''lobby'' line 7 True\<rparr>"
  have r: "sys_reachable (\<lambda>_. None) ?s" using sys_reachable_steps [OF st s(1)] .
  have d: "ss_main ?s \<noteq> M_Exit" "ss_bcast ?s = B_Next ''lobby'' line (hd_fd h) True" "hd_authenticated h"
    using s(2) by (simp_all add: logged_in_def)
  from broadcast_use_after_free [OF sys_reachable_inv(1) [OF r] d(1,2) _ d(3), of 0 "\<lambda>_. None"]
  obtain s' where "(sys_step (\<lambda>_. None))\<^sup>*\<^sup>* ?s s'" "ss_bcast s' = B_Fault" by auto
  with sys_reachable_steps r show ?thesis by blast
qed

section \<open>Tables freed under the clients\<close>

definition list_line :: cbuf where
  "list_line = ''LIST'' @ NUL # replicate 2043 NUL"

lemma list_line_facts:
  "length list_line = MAX_LINE_LEN" "c_str list_line = ''LIST''"
  "protocol_parse_client_line ''LIST'' = (CHAT_OK, \<lparr>pc_cmd = CMD_LIST, pc_arg1 = [], pc_arg2 = []\<rparr>)"
proof -
  show "length list_line = MAX_LINE_LEN" by (simp add: list_line_def)
  show "c_str list_line = ''LIST''" unfolding list_line_def by (rule c_str_append_nul) (simp add: is_c_string_def)
  show p: "protocol_parse_client_line ''LIST'' = (CHAT_OK, \<lparr>pc_cmd = CMD_LIST, pc_arg1 = [], pc_arg2 = []\<rparr>)"
    by (simp add: protocol_parse_client_line_def split_first_token_def empty_cmd_def Let_def)
qed

text \<open>
  Property C20. The tables are freed under the clients: once the main thread has joined the
  broadcaster, \<open>server_destroy\<close> goes ahead whatever the client threads are doing, and a thread
  that was waiting for a line can get one afterwards and start a command on the registry, whose
  nodes have all been freed.
\<close>

theorem destroy_under_clients:
  assumes "sys_reachable lt s" and "ss_main s = M_Join" and "ss_bcast s = B_Left"
    and "ss_threads s t = Some (Ctl_Recv h)" and "hd_authenticated h"
  shows "\<exists>s' h'. (sys_step lt)\<^sup>*\<^sup>* s s' \<and> ss_main s' = M_Exit \<and>
     ss_threads s' t = Some (Ctl_Run (hd_fd h) (dispatch (list_prog (hd_fd h)) h')) \<and>
     sessions (ss_world s) (hd_fd h) \<noteq> None \<and> cr_nodes (sv_registry (ss_world s')) = [] \<and>
     mq_heap (sv_queue (ss_world s')) = Map.empty \<and> rm_rooms (sv_rooms (ss_world s')) = []"
proof -
  note inv = sys_invD(1,2) [OF sys_reachable_inv(1) [OF assms(1)]]
  have w: "mq_inv (sv_queue (ss_world s))" and "ctl_ok table_view (ss_world s) (Ctl_Recv h)"
    using inv assms(2) threads_invD(2) [of table_view "ss_world s" "ss_threads s" t "Ctl_Recv h"] assms(4)
    by (simp_all add: table_ok_def)
  then have on: "sessions (ss_world s) (hd_fd h) \<noteq> None"
    using assms(5) unfolding sessions_online by (simp add: view_sync_def del: set_map)
  obtain w' where w': "server_destroy (ss_world s) = Some w'" "cr_nodes (sv_registry w') = []"
      "mq_heap (sv_queue w') = Map.empty" "rm_rooms (sv_rooms w') = []"
  proof -
    obtain q where "mq_destroy (sv_queue (ss_world s)) = Some q" "mq_heap q = Map.empty"
      using mq_destroy_spec [OF w] by blast
    with that show thesis
      by (simp add: server_destroy_def Let_def registry_destroy_def room_manager_destroy_def frame_simps split: if_splits)
  qed
  let ?s1 = "s\<lparr>ss_world := w', ss_main := M_Exit\<rparr>" and ?h' = "h\<lparr>hd_line := list_line\<rparr>"
  have 1: "sys_step lt s ?s1" using assms(2,3) w'(1) by (rule sys_destroy)
  have "thread_step w' (Ctl_Recv h) w' (Some (Ctl_Run (hd_fd h) (handler_prog sample_env (c_str list_line) ?h')))"
    by (rule t_line) (simp_all add: list_line_facts node_sized_def node_typed_def sample_env_def zero_node_def)
  moreover have "handler_prog sample_env (c_str list_line) ?h' = dispatch (list_prog (hd_fd h)) ?h'"
    using assms(5) by (simp add: handler_prog_def list_line_facts)
  ultimately have "thread_step w' (Ctl_Recv h) w' (Some (Ctl_Run (hd_fd h) (dispatch (list_prog (hd_fd h)) ?h')))"
    by simp
  then have 2: "sys_step lt ?s1 (s\<lparr>ss_main := M_Exit, ss_world := w',
      ss_threads := (ss_threads s)(t \<mapsto> Ctl_Run (hd_fd h) (dispatch (list_prog (hd_fd h)) ?h'))\<rparr>)"
    using thread_quiet_step [of ?s1 t "Ctl_Recv h" w' _ lt] assms(3,4) by simp
  show ?thesis
    by (intro exI conjI, rule converse_rtranclp_into_rtranclp, rule 1, rule r_into_rtranclp, rule 2)
      (use on w' in simp_all)
qed

theorem destroy_under_clients_witness:
  "\<exists>s f. sys_reachable (\<lambda>_. None) s \<and> ss_main s = M_Exit \<and> ss_threads s 0 = Some (Ctl_Run 7 (Act f))"
proof -
  let ?lt = "\<lambda>_. None"
  obtain s h where s: "sys_reachable ?lt s" "logged_in s h" using login_run by blast
  note d = s(2) [unfolded logged_in_def]
  let ?w = "ss_world s"
  let ?w1 = "signal_handler True ?w"
  let ?s1 = "s\<lparr>ss_threads := [0 \<mapsto> Ctl_Recv h], ss_bcast := B_Test\<rparr>"
  let ?s2 = "?s1\<lparr>ss_world := ?w1\<rparr>"
  let ?s3 = "?s2\<lparr>ss_bcast := B_Left\<rparr>"
  let ?s4 = "?s3\<lparr>ss_world := server_shutdown True zero_stack ?w1, ss_main := M_Join\<rparr>"
  have 1: "sys_step ?lt s ?s1"
    using thread_sys_step [of s 0 "Ctl_Test h" ?w "Some (Ctl_Recv h)" ?lt] t_recv [of ?w h] d by simp
  have 2: "sys_step ?lt ?s1 ?s2" using sys_signal [of ?lt ?s1] by simp
  have 3: "sys_step ?lt ?s2 ?s3" using sys_bcast [of ?lt ?s2 B_Left ?w1] by (simp add: signal_handler_def)
  have 4: "(sys_step ?lt)\<^sup>*\<^sup>* ?s3 ?s4"
    using shutdown_uninterrupted [of ?s3 ?lt True zero_stack] d by (simp add: signal_handler_def)
  have "(sys_step ?lt)\<^sup>*\<^sup>* s ?s4"
    by (rule converse_rtranclp_into_rtranclp, rule 1, rule converse_rtranclp_into_rtranclp, rule 2,
        rule converse_rtranclp_into_rtranclp, rule 3, rule 4)
  then have r: "sys_reachable ?lt ?s4" using sys_reachable_steps s(1) by blast
  have "ss_threads ?s4 0 = Some (Ctl_Recv h)" "hd_authenticated h" "hd_fd h = 7" using d by simp_all
  with destroy_under_clients [OF r, of 0 h] obtain s' h' where s': "(sys_step ?lt)\<^sup>*\<^sup>* ?s4 s'" "ss_main s' = M_Exit"
      "ss_threads s' 0 = Some (Ctl_Run 7 (dispatch (list_prog 7) h'))"
    by auto
  moreover have "\<exists>f. dispatch (list_prog 7) h' = Act f" by (simp add: dispatch_def list_prog_def look_def act_def)
  ultimately show ?thesis using sys_reachable_steps [OF s'(1) r] by metis
qed

end
