(* ===== verification/Interleaving_Refinement.thy ===== *)
theory Interleaving_Refinement
  imports Interleaving_Runs
begin

text \<open>
  The two views of the server agree: every step of \<open>Server_System\<close>, in which a thread takes a
  whole turn of its loop at a time, is a run of the finer relation of \<open>Interleaving\<close> in which
  no other thread acts, so that the finer relation reaches every state of the coarser one.
\<close>

section \<open>Turns of one thread in the finer relation\<close>

abbreviation sys_at :: "world \<Rightarrow> (nat \<Rightarrow> control option) \<Rightarrow> main_control \<Rightarrow> bcast_control \<Rightarrow> server_sys" where
  "sys_at w ths m b \<equiv> \<lparr>ss_world = w, ss_threads = ths, ss_main = m, ss_bcast = b\<rparr>"

text \<open>Between its turns the broadcaster stands on no node.\<close>

definition no_walk :: "bcast_control \<Rightarrow> bool" where
  "no_walk b \<longleftrightarrow> b = B_Test \<or> b = B_Pop \<or> b = B_Left"

lemma no_walk_simps:
  "no_walk b \<Longrightarrow> unlink w b = b" "no_walk b \<Longrightarrow> same_place b c \<longleftrightarrow> c = b"
  by (auto simp: no_walk_def)

lemma thread_at:
  assumes "ths t = Some c" and "thread_step w c w' c'" and "no_walk b"
  shows "sys_step lt (sys_at w ths m b) (sys_at w' (ths(t := c')) m b)"
  using thread_sys_step [of "sys_at w ths m b" t c w' c' lt] assms by (simp add: no_walk_simps)

lemma run_at:
  assumes "ths t = Some (Ctl_Run fd p)" and "run p w = (a, w')" and "no_walk b"
  shows "(sys_step lt)\<^sup>*\<^sup>* (sys_at w ths m b) (sys_at w' (ths(t \<mapsto> Ctl_Run fd (Ret a))) m b)"
  using run_uninterrupted [of "sys_at w ths m b" t fd p lt] assms by (auto simp: after_run_def no_walk_simps)

lemma leave_at:
  assumes "ths t = Some c" and "thread_step w c w (Some (leaving ev h))" and "no_walk b"
  shows "(sys_step lt)\<^sup>*\<^sup>* (sys_at w ths m b)
     (sys_at (disconnect_client ev (hd_fd h) (hd_username h) (hd_authenticated h) w) (ths(t := None)) m b)"
proof -
  let ?u = "hd_username h" and ?au = "hd_authenticated h" and ?fd = "hd_fd h"
  let ?w2 = "cmd_disconnect_client ev ?fd ?u ?au w"
  have 1: "sys_step lt (sys_at w ths m b) (sys_at w (ths(t \<mapsto> leaving ev h)) m b)"
    by (rule thread_at, rule assms(1), rule assms(2), rule assms(3))
  obtain f where f: "leave_prog ev ?fd ?u ?au = Act f"
    by (cases "?au \<and> ?u \<noteq> []") (auto simp: leave_prog_def Let_def look_def act_def)
  have "snd (run (Act f) w) = ?w2" using run_leave [of ev ?fd ?u ?au w] f by simp
  then have 2: "(sys_step lt)\<^sup>*\<^sup>* (sys_at w (ths(t \<mapsto> leaving ev h)) m b) (sys_at ?w2 (ths(t \<mapsto> Ctl_Count)) m b)"
    using leave_uninterrupted [of "sys_at w (ths(t \<mapsto> leaving ev h)) m b" t ?fd f lt] f assms(3)
    by (auto simp: leaving_def no_walk_simps)
  have 3: "sys_step lt (sys_at ?w2 (ths(t \<mapsto> Ctl_Count)) m b)
      (sys_at (conn_track_decrement ?w2) (ths(t := None)) m b)"
    using thread_at [of "ths(t \<mapsto> Ctl_Count)" t Ctl_Count ?w2 _ None b lt m] t_count assms(3) by simp
  show ?thesis unfolding disconnect_client_def
    by (rule converse_rtranclp_into_rtranclp, rule 1, rule rtranclp.rtrancl_into_rtrancl, rule 2, rule 3)
qed

lemma command_at:
  assumes "ths t = Some (Ctl_Recv h)" and "length line = MAX_LINE_LEN" and "node_sized (ce_node e)"
    and "handler_command e (c_str line) (h\<lparr>hd_line := line\<rparr>) w = (go, h', w')" and "no_walk b"
  shows "(sys_step lt)\<^sup>*\<^sup>* (sys_at w ths m b) (sys_at w' (ths(t \<mapsto> Ctl_Run (hd_fd h) (Ret (go, h')))) m b)"
proof -
  let ?p = "handler_prog e (c_str line) (h\<lparr>hd_line := line\<rparr>)"
  have 1: "sys_step lt (sys_at w ths m b) (sys_at w (ths(t \<mapsto> Ctl_Run (hd_fd h) ?p)) m b)"
    by (rule thread_at, rule assms(1), rule t_line, rule assms(2), rule assms(3), rule assms(5))
  have "run ?p w = ((go, h'), w')" using assms(4) by (simp add: run_handler)
  from run_at [of "ths(t \<mapsto> Ctl_Run (hd_fd h) ?p)" t "hd_fd h" ?p, OF _ this assms(5)]
  have "(sys_step lt)\<^sup>*\<^sup>* (sys_at w (ths(t \<mapsto> Ctl_Run (hd_fd h) ?p)) m b)
     (sys_at w' (ths(t \<mapsto> Ctl_Run (hd_fd h) (Ret (go, h')))) m b)"
    by simp
  with 1 show ?thesis by (rule converse_rtranclp_into_rtranclp)
qed

text \<open>The walk over the list, while nobody changes it, is \<open>registry_foreach\<close>.\<close>

lemma next_node_suffix:
  "distinct (map cn_sockfd (ys @ n # ns)) \<Longrightarrow>
   next_node (cn_sockfd n) (ys @ n # ns) = (case ns of [] \<Rightarrow> None | m # _ \<Rightarrow> Some m)"
  by (induction ys) auto

lemma walk_at:
  assumes "distinct (map cn_sockfd (ys @ n # ns))" and "cr_nodes (sv_registry w) = ys @ n # ns"
  shows "(sys_step lt)\<^sup>*\<^sup>* (sys_at w ths m (B_Node room line n True))
     (sys_at (snd (foreach_loop (send_to_client line room) (n # ns) w)) ths m B_Test)"
  using assms
proof (induction ns arbitrary: n ys w)
  case Nil
  obtain st w1 where call: "send_to_client line room n w = (st, w1)" by (cases "send_to_client line room n w")
  have reg: "cr_nodes (sv_registry w1) = ys @ [n]"
    using send_to_client_frame(3) [of line room n w] call Nil.prems(2) by simp
  let ?b = "if st \<noteq> CHAT_OK then B_Test else B_Next room line (cn_sockfd n) True"
  have 1: "sys_step lt (sys_at w ths m (B_Node room line n True)) (sys_at w1 ths m ?b)"
    using sys_bcast [of lt "sys_at w ths m (B_Node room line n True)" ?b w1] call by simp
  have 2: "sys_step lt (sys_at w1 ths m (B_Next room line (cn_sockfd n) True)) (sys_at w1 ths m B_Test)"
    using sys_bcast [of lt "sys_at w1 ths m (B_Next room line (cn_sockfd n) True)" B_Test w1]
      next_node_suffix [OF Nil.prems(1)] reg by simp
  from 1 2 call show ?case
    by (auto intro: converse_rtranclp_into_rtranclp)
next
  case (Cons n2 ns)
  obtain st w1 where call: "send_to_client line room n w = (st, w1)" by (cases "send_to_client line room n w")
  have reg: "cr_nodes (sv_registry w1) = ys @ n # n2 # ns"
    using send_to_client_frame(3) [of line room n w] call Cons.prems(2) by simp
  let ?b = "if st \<noteq> CHAT_OK then B_Test else B_Next room line (cn_sockfd n) True"
  have 1: "sys_step lt (sys_at w ths m (B_Node room line n True)) (sys_at w1 ths m ?b)"
    using sys_bcast [of lt "sys_at w ths m (B_Node room line n True)" ?b w1] call by simp
  have 2: "sys_step lt (sys_at w1 ths m (B_Next room line (cn_sockfd n) True)) (sys_at w1 ths m (B_Node room line n2 True))"
    using sys_bcast [of lt "sys_at w1 ths m (B_Next room line (cn_sockfd n) True)" "B_Node room line n2 True" w1]
      next_node_suffix [OF Cons.prems(1)] reg by simp
  have 3: "(sys_step lt)\<^sup>*\<^sup>* (sys_at w1 ths m (B_Node room line n2 True))
     (sys_at (snd (foreach_loop (send_to_client line room) (n2 # ns) w1)) ths m B_Test)"
    by (rule Cons.IH [of "ys @ [n]"]) (use Cons.prems(1) reg in simp_all)
  show ?case
  proof (cases "st = CHAT_OK")
    case False
    with 1 call show ?thesis by (auto intro: r_into_rtranclp)
  next
    case True
    then have "sys_step lt (sys_at w ths m (B_Node room line n True)) (sys_at w1 ths m (B_Next room line (cn_sockfd n) True))"
      using 1 by simp
    from converse_rtranclp_into_rtranclp [OF this converse_rtranclp_into_rtranclp [where r = "sys_step lt", OF 2 3]]
    show ?thesis using call True by simp
  qed
qed

lemma broadcast_at:
  assumes "distinct (online_fds w)"
  shows "(sys_step lt)\<^sup>*\<^sup>* (sys_at w ths m (B_Head room line)) (sys_at (broadcast_line_to_room room line w) ths m B_Test)"
proof (cases "cr_nodes (sv_registry w)")
  case Nil
  then have "sys_step lt (sys_at w ths m (B_Head room line)) (sys_at w ths m B_Test)"
    using sys_bcast [of lt "sys_at w ths m (B_Head room line)" B_Test w] by simp
  with Nil show ?thesis by (auto simp: broadcast_line_to_room_def registry_foreach_def)
next
  case (Cons n ns)
  then have 1: "sys_step lt (sys_at w ths m (B_Head room line)) (sys_at w ths m (B_Node room line n True))"
    using sys_bcast [of lt "sys_at w ths m (B_Head room line)" "B_Node room line n True" w] by simp
  have "(sys_step lt)\<^sup>*\<^sup>* (sys_at w ths m (B_Node room line n True)) (sys_at (broadcast_line_to_room room line w) ths m B_Test)"
    unfolding broadcast_line_to_room_def registry_foreach_def Cons
    by (rule walk_at [of "[]"]) (use assms Cons in \<open>simp_all\<close>)
  with 1 show ?thesis by (rule converse_rtranclp_into_rtranclp)
qed

lemma broadcaster_turn_at:
  assumes "table_ok w" and "broadcaster_turn lt w = r"
  shows "r = Bc_Next w' \<Longrightarrow> (sys_step lt)\<^sup>*\<^sup>* (sys_at w ths m B_Pop) (sys_at w' ths m B_Test)"
    and "r = Bc_Exit w' \<Longrightarrow> (sys_step lt)\<^sup>*\<^sup>* (sys_at w ths m B_Pop) (sys_at w' ths m B_Left)"
proof -
  note bc = sys_bcast [of lt "sys_at w ths m B_Pop"]
  show "(sys_step lt)\<^sup>*\<^sup>* (sys_at w ths m B_Pop) (sys_at w' ths m B_Left)" if "r = Bc_Exit w'"
  proof (rule r_into_rtranclp)
    show "sys_step lt (sys_at w ths m B_Pop) (sys_at w' ths m B_Left)"
      using bc [of B_Left w'] assms(2) that
      by (auto simp: broadcaster_turn_def Let_def split: pop_result.splits option.splits if_splits)
  qed
  assume r: "r = Bc_Next w'"
  then obtain msg q where pop: "mq_pop (sv_queue w) = Pop_Returns CHAT_OK (Some msg) q" "mm_type msg \<noteq> MQ_SHUTDOWN"
      "w' = broadcast_event lt msg (w\<lparr>sv_queue := q\<rparr>)"
    using assms(2) by (auto simp: broadcaster_turn_def Let_def split: pop_result.splits option.splits if_splits)
  let ?w1 = "w\<lparr>sv_queue := q\<rparr>"
  let ?b = "if fst (event_line lt msg) = CHAT_OK then B_Head (c_str (mm_room msg)) (snd (event_line lt msg)) else B_Test"
  have 1: "sys_step lt (sys_at w ths m B_Pop) (sys_at ?w1 ths m ?b)" using bc [of ?b ?w1] pop(1,2) by simp
  have "(sys_step lt)\<^sup>*\<^sup>* (sys_at ?w1 ths m ?b) (sys_at w' ths m B_Test)"
    using broadcast_at [of ?w1] assms(1) pop(3)
    by (auto simp: broadcast_event_def split_beta table_ok_def)
  with 1 show "(sys_step lt)\<^sup>*\<^sup>* (sys_at w ths m B_Pop) (sys_at w' ths m B_Test)"
    by (rule converse_rtranclp_into_rtranclp)
qed

section \<open>Turns of the accept loop\<close>

lemma accept_none_at:
  assumes "accept_turn res malloc_ok thread_ok w = (None, w')"
    and "case res of Accepted fd \<Rightarrow> fd_free fd (sys_at w ths M_Accept b) | _ \<Rightarrow> True"
  shows "(sys_step lt)\<^sup>*\<^sup>* (sys_at w ths M_Accept b) (sys_at w' ths M_Test b)"
proof (cases res)
  case (Accepted fd)
  with assms(2) have free: "fd_free fd (sys_at w ths M_Accept b)" by simp
  show ?thesis
  proof (cases "conn_at_capacity w")
    case True
    with sys_accept_full [of "sys_at w ths M_Accept b" fd lt] free assms(1) Accepted show ?thesis
      by (auto simp: accept_turn_def)
  next
    case False
    let ?w1 = "conn_track_increment w"
    have w': "w' = conn_track_decrement (sys_close fd ?w1)"
      using assms(1) Accepted False by (auto simp: accept_turn_def Let_def split: if_splits)
    have 1: "sys_step lt (sys_at w ths M_Accept b) (sys_at w ths (M_Admit fd) b)"
      using sys_accept [of "sys_at w ths M_Accept b" fd lt] free False by simp
    have 2: "sys_step lt (sys_at w ths (M_Admit fd) b) (sys_at ?w1 ths (M_Counted fd) b)"
      using sys_count [of "sys_at w ths (M_Admit fd) b" fd lt] by simp
    have 3: "sys_step lt (sys_at ?w1 ths (M_Counted fd) b) (sys_at (sys_close fd ?w1) ths M_Uncount b)"
      using sys_spawn_fails [of "sys_at ?w1 ths (M_Counted fd) b" fd lt] by simp
    have 4: "sys_step lt (sys_at (sys_close fd ?w1) ths M_Uncount b) (sys_at w' ths M_Test b)"
      using sys_uncount [of "sys_at (sys_close fd ?w1) ths M_Uncount b" lt] w' by simp
    show ?thesis
      by (rule converse_rtranclp_into_rtranclp, rule 1, rule converse_rtranclp_into_rtranclp, rule 2,
          rule converse_rtranclp_into_rtranclp, rule 3, rule r_into_rtranclp, rule 4)
  qed
qed (use sys_accept_fails [of "sys_at w ths M_Accept b" lt] assms(1) in \<open>auto simp: accept_turn_def\<close>)

lemma accept_starts_at:
  assumes "accept_turn (Accepted fd) malloc_ok thread_ok w = (Some fd, w')"
    and "fd_free fd (sys_at w ths M_Accept b)" and "ths t = None" and "length line = MAX_LINE_LEN"
  shows "(sys_step lt)\<^sup>*\<^sup>* (sys_at w ths M_Accept b) (sys_at w' (ths(t \<mapsto> Ctl_Test (new_handler fd line))) M_Test b)"
proof -
  have w': "w' = conn_track_increment w" "\<not> conn_at_capacity w"
    using accept_turn_Some [OF assms(1)] by (simp_all add: conn_at_capacity_def)
  have 1: "sys_step lt (sys_at w ths M_Accept b) (sys_at w ths (M_Admit fd) b)"
    using sys_accept [of "sys_at w ths M_Accept b" fd lt] assms(2) w'(2) by simp
  have 2: "sys_step lt (sys_at w ths (M_Admit fd) b) (sys_at w' ths (M_Counted fd) b)"
    using sys_count [of "sys_at w ths (M_Admit fd) b" fd lt] w'(1) by simp
  have 3: "sys_step lt (sys_at w' ths (M_Counted fd) b) (sys_at w' (ths(t \<mapsto> Ctl_Test (new_handler fd line))) M_Test b)"
    using sys_spawn [of "sys_at w' ths (M_Counted fd) b" fd t line lt] assms(3,4) by simp
  show ?thesis
    by (rule converse_rtranclp_into_rtranclp, rule 1, rule converse_rtranclp_into_rtranclp, rule 2,
        rule r_into_rtranclp, rule 3)
qed

section \<open>Turns as runs\<close>

text \<open>A state of the coarser relation as one of the finer: thread \<open>t\<close> serves descriptor \<open>t\<close>.\<close>

definition threads_of :: "int set \<Rightarrow> threads \<Rightarrow> nat \<Rightarrow> control option" where
  "threads_of P hs t = map_option (\<lambda>h. if int t \<in> P then Ctl_Recv h else Ctl_Test h) (hs (int t))"

fun main_of :: "main_phase \<Rightarrow> main_control" where
  "main_of Main_Test = M_Test"
| "main_of Main_Accepting = M_Accept"
| "main_of Main_Joining = M_Join"

fun bcast_of :: "bcast_phase \<Rightarrow> bcast_control" where
  "bcast_of Bcast_Test = B_Test"
| "bcast_of Bcast_Popping = B_Pop"
| "bcast_of Bcast_Left = B_Left"

definition fine :: "system \<Rightarrow> server_sys" where
  "fine s = (case s of (w, hs, p) \<Rightarrow>
     sys_at w (threads_of (ph_recv p) hs) (main_of (ph_main p)) (bcast_of (ph_bcast p)))"

lemma no_walk_bcast_of [simp]: "no_walk (bcast_of b)"
  by (cases b) (simp_all add: no_walk_def)

lemma threads_of_simps:
  assumes "0 \<le> fd"
  shows "threads_of P hs (nat fd) = map_option (\<lambda>h. if fd \<in> P then Ctl_Recv h else Ctl_Test h) (hs fd)"
    and "threads_of (P - {fd}) (hs(fd := x)) = (threads_of P hs)(nat fd := map_option Ctl_Test x)"
    and "hs fd = Some h \<Longrightarrow> threads_of (insert fd P) hs = (threads_of P hs)(nat fd \<mapsto> Ctl_Recv h)"
proof -
  have "int t = fd \<longleftrightarrow> t = nat fd" for t using assms by auto
  with assms show "threads_of P hs (nat fd) = map_option (\<lambda>h. if fd \<in> P then Ctl_Recv h else Ctl_Test h) (hs fd)"
    "threads_of (P - {fd}) (hs(fd := x)) = (threads_of P hs)(nat fd := map_option Ctl_Test x)"
    "hs fd = Some h \<Longrightarrow> threads_of (insert fd P) hs = (threads_of P hs)(nat fd \<mapsto> Ctl_Recv h)"
    by (simp_all add: threads_of_def fun_eq_iff)
qed

lemma threads_of_free:
  assumes "server_inv (w', hs)" and "hs fd = None" and "0 \<le> fd"
  shows "fd_free fd (sys_at w (threads_of P hs) m b)"
proof -
  have "hd_fd h \<noteq> fd" if "hs x = Some h" for x h
    using server_invD(5) [OF assms(1) that] that assms(2) by auto
  with assms(3) show ?thesis by (auto simp: fd_free_def threads_of_def)
qed

lemma server_step_fine:
  assumes "server_step lt s s'" and "system_inv s"
  shows "(sys_step lt)\<^sup>*\<^sup>* (fine s) (fine s')"
  using assms(1)
proof (cases rule: server_step.cases)
  case (accept_starts p hs fd malloc_ok thread_ok w w' line)
  then have inv: "server_inv (w, hs)" "ph_recv p \<subseteq> dom hs" using assms(2) by (simp_all add: system_inv_def)
  then have "ph_recv p - {fd} = ph_recv p" using accept_starts(4) by auto
  then have ths: "threads_of (ph_recv p) (hs(fd \<mapsto> new_handler fd line))
      = (threads_of (ph_recv p) hs)(nat fd \<mapsto> Ctl_Test (new_handler fd line))"
    using threads_of_simps(2) [OF accept_starts(5), of "ph_recv p" hs "Some (new_handler fd line)"] by simp
  from accept_starts_at [OF accept_starts(6) threads_of_free [OF inv(1) accept_starts(4,5)] _ accept_starts(7)]
  show ?thesis using accept_starts(1-5) by (simp add: fine_def ths threads_of_simps)
next
  case (accept_none p res malloc_ok thread_ok w w' hs)
  then have inv: "server_inv (w, hs)" using assms(2) by (simp add: system_inv_def)
  have "case res of Accepted fd \<Rightarrow> fd_free fd (sys_at w (threads_of (ph_recv p) hs) M_Accept (bcast_of (ph_bcast p))) | _ \<Rightarrow> True"
    using accept_none(5) threads_of_free [OF inv] by (simp split: accept_res.splits)
  from accept_none_at [OF accept_none(4) this] show ?thesis using accept_none(1-3) by (simp add: fine_def)
next
  case (shutdown p w hs mem_ok junk)
  then show ?thesis
    using shutdown_uninterrupted [of "fine s" lt mem_ok junk] by (simp add: fine_def)
next
  case (recv_test hs fd h w p)
  then have fd: "0 \<le> fd" using assms(2) server_invD(5) by (fastforce simp: system_inv_def)
  show ?thesis
  proof (cases "fd \<in> ph_recv p")
    case True
    then show ?thesis using recv_test(1,2) by (simp add: fine_def insert_absorb)
  next
    case False
    then have t: "threads_of (ph_recv p) hs (nat fd) = Some (Ctl_Test h)"
      using recv_test(3) fd by (simp add: threads_of_simps)
    have "sys_step lt (fine s) (fine s')"
      unfolding recv_test(1,2) fine_def prod.case
      using thread_at [of "threads_of (ph_recv p) hs" "nat fd" "Ctl_Test h" w w "Some (Ctl_Recv h)" "bcast_of (ph_bcast p)"]
        t t_recv [OF recv_test(4)]
      by (simp add: threads_of_simps fd recv_test(3))
    then show ?thesis by (rule r_into_rtranclp)
  qed
next
  case (command fd p hs h e line w h' w')
  then have inv: "server_inv (w, hs)" using assms(2) by (simp add: system_inv_def)
  have fd: "0 \<le> fd" "hd_fd h = fd" using server_invD(5) [OF inv command(4)] by simp_all
  let ?ths = "threads_of (ph_recv p) hs" and ?b = "bcast_of (ph_bcast p)" and ?m = "main_of (ph_main p)"
  have t: "?ths (nat fd) = Some (Ctl_Recv h)" using command(3,4) fd by (simp add: threads_of_simps)
  note 1 = command_at [of ?ths "nat fd" h line e w _ h' w' ?b lt ?m, OF t command(7,5,6) no_walk_bcast_of]
  have 2: "sys_step lt (sys_at w' (?ths(nat fd \<mapsto> Ctl_Run (hd_fd h) (Ret (True, h')))) ?m ?b)
      (sys_at w' (?ths(nat fd \<mapsto> Ctl_Test h')) ?m ?b)"
    using thread_at [of "?ths(nat fd \<mapsto> Ctl_Run (hd_fd h) (Ret (True, h')))" "nat fd" _ w' w' _ ?b lt ?m] t_next by simp
  show ?thesis
    using rtranclp.rtrancl_into_rtrancl [OF 1 2] command(1,2) fd(1) by (simp add: fine_def threads_of_simps)
next
  case (command_ends fd p hs h e line w h' w' ev)
  then have inv: "server_inv (w, hs)" using assms(2) by (simp add: system_inv_def)
  have fd: "0 \<le> fd" "hd_fd h = fd" using server_invD(5) [OF inv command_ends(4)] by simp_all
  let ?ths = "threads_of (ph_recv p) hs" and ?b = "bcast_of (ph_bcast p)" and ?m = "main_of (ph_main p)"
  have t: "?ths (nat fd) = Some (Ctl_Recv h)" using command_ends(3,4) fd by (simp add: threads_of_simps)
  note 1 = command_at [of ?ths "nat fd" h line e w _ h' w' ?b lt ?m, OF t command_ends(7,5,6) no_walk_bcast_of]
  have 2: "(sys_step lt)\<^sup>*\<^sup>* (sys_at w' (?ths(nat fd \<mapsto> Ctl_Run (hd_fd h) (Ret (False, h')))) ?m ?b)
      (sys_at (disconnect_client ev (hd_fd h') (hd_username h') (hd_authenticated h') w') (?ths(nat fd := None)) ?m ?b)"
    using leave_at [of "?ths(nat fd \<mapsto> Ctl_Run (hd_fd h) (Ret (False, h')))" "nat fd" _ w' ev h' ?b lt ?m] t_done by simp
  show ?thesis
    using rtranclp_trans [OF 1 2] command_ends(1,2) fd(1) by (simp add: fine_def threads_of_simps)
next
  case (hangup hs fd h p w ev)
  then have inv: "server_inv (w, hs)" using assms(2) by (simp add: system_inv_def)
  have fd: "0 \<le> fd" using server_invD(5) [OF inv hangup(3)] by simp
  let ?ths = "threads_of (ph_recv p) hs" and ?c = "if fd \<in> ph_recv p then Ctl_Recv h else Ctl_Test h"
  have t: "?ths (nat fd) = Some ?c" using hangup(3) fd by (simp add: threads_of_simps)
  have "thread_step w ?c w (Some (leaving ev h))" using t_stop [of w h ev] t_fail [of w h ev] hangup(4) by auto
  from leave_at [of ?ths "nat fd" ?c w ev h, OF t this no_walk_bcast_of] show ?thesis using hangup(1,2) fd by (simp add: fine_def threads_of_simps)
next
  case (broadcast p w w' hs)
  then have "table_ok w" using assms(2) by (auto simp: system_inv_def dest: server_invD(1))
  from broadcaster_turn_at(1) [OF this broadcast(4)] show ?thesis using broadcast(1-3) by (simp add: fine_def)
next
  case (broadcast_ends p w w' hs)
  then have "table_ok w" using assms(2) by (auto simp: system_inv_def dest: server_invD(1))
  from broadcaster_turn_at(2) [OF this broadcast_ends(4)] show ?thesis using broadcast_ends(1-3) by (simp add: fine_def)
next
  case (signal w hs p g)
  show ?thesis
  proof (cases g)
    case True
    with sys_signal [of lt "fine s"] signal show ?thesis by (auto simp: fine_def)
  next
    case False
    with signal show ?thesis by (simp add: signal_handler_def)
  qed
next
  case (main_test p w hs)
  with sys_main_test [of "fine s" lt] show ?thesis by (auto simp: fine_def)
next
  case (bcast_test p w hs)
  with sys_bcast [of lt "fine s" B_Pop w] show ?thesis by (auto simp: fine_def)
next
  case (bcast_leaves p w hs)
  with sys_bcast [of lt "fine s" B_Left w] show ?thesis by (auto simp: fine_def)
next
  case (kernel w hs p script)
  with sys_kernel [of lt "fine s" script] show ?thesis by (auto simp: fine_def)
qed

lemma fine_first: "fine (w, Map.empty, first_phases) = sys_start w"
  by (simp add: fine_def first_phases_def sys_start_def threads_of_def fun_eq_iff)

text \<open>
  The coarse view is a special case of the fine one: every step of the coarser
  relation, a whole turn of a thread's loop at a time, is a run of steps of the finer relation,
  one locked call or one send at a time, between the corresponding states; so every state the
  server reaches when turns are not interrupted it also reaches in the finer relation.
\<close>

theorem turns_are_interleavings:
  "server_step lt s s' \<Longrightarrow> reachable lt s \<Longrightarrow> (sys_step lt)\<^sup>*\<^sup>* (fine s) (fine s') \<and> sys_reachable lt (fine s')"
proof -
  assume s: "server_step lt s s'" "reachable lt s"
  have "sys_reachable lt (fine x)" if "reachable lt x" for x
    using that
  proof (induction rule: reachable.induct)
    case (start ie net port users_db w0 lfd w)
    then show ?case unfolding fine_first by (rule sys_init)
  next
    case (step x y)
    then show ?case using sys_reachable_steps [OF server_step_fine [OF step(2) reachable_inv [OF step(1)]]] by blast
  qed
  with reachable.step [OF s(2,1)] server_step_fine [OF s(1) reachable_inv [OF s(2)]] show ?thesis by blast
qed

theorem turns_are_interleavings_witness:
  "\<exists>w. (sys_step (\<lambda>_. None))\<^sup>*\<^sup>* (fine (w, Map.empty, first_phases))
     (fine (server_shutdown True zero_stack w, Map.empty, first_phases\<lparr>ph_main := Main_Joining\<rparr>)) \<and>
     ss_main (fine (server_shutdown True zero_stack w, Map.empty, first_phases\<lparr>ph_main := Main_Joining\<rparr>)) = M_Join"
proof -
  obtain w0 where w0: "server_init sample_init quiet_net 8080 (Some ''u'') = Some (CHAT_OK, w0)"
    using sample_init_OK by blast
  let ?w = "w0\<lparr>sv_listen_fd := 3, sv_broadcaster_tid := True\<rparr>"
  let ?s = "(signal_handler True ?w, Map.empty, first_phases)"
  have "server_listen 3 True True True True w0 = (CHAT_OK, ?w)" by (simp add: server_listen_def)
  then have "reachable (\<lambda>_. None) (?w, Map.empty, first_phases)" using w0 reachable.start by blast
  then have r: "reachable (\<lambda>_. None) ?s" using reachable.step server_step.signal by blast
  have "server_step (\<lambda>_. None) ?s
      (server_shutdown True zero_stack (signal_handler True ?w), Map.empty, first_phases\<lparr>ph_main := Main_Joining\<rparr>)"
    by (rule server_step.shutdown) (simp_all add: first_phases_def signal_handler_def)
  from turns_are_interleavings [OF this r] show ?thesis
    by (intro exI [of _ "signal_handler True ?w"]) (simp add: fine_def)
qed

end
