(* ===== verification/Client.thy ===== *)
theory Client
  imports Wire_Codec Auth_DB
begin

text \<open>
  \<open>src/client/client.c\<close>, \<open>colors.c\<close> and \<open>main.c\<close>: the socket loops of the client, the display
  of the server's lines, the commands the user types, connecting and leaving. The client's
  arrays hold terminated strings throughout (\<open>memset\<close> clears them, every copy is
  terminated), so that a field is a string. Standard input is the text that is still to be
  read, the terminal the text written so far; each of the two threads' loops is given the
  results of its own system calls.
\<close>

section \<open>Data\<close>

record chat_client =
  cl_sockfd :: int
  cl_username :: string
  cl_password :: string
  cl_current_room :: string
  cl_running :: bool
  cl_authenticated :: bool
  cl_joined :: bool
  cl_receiver_started :: bool

text \<open>The client with its surroundings: the socket, the terminal and \<open>g_colors_enabled\<close>.\<close>

record client_world = chat_client +
  cw_script :: "send_res list"
  cw_wire :: string
  cw_shutdown :: "int list"
  cw_closed :: "int list"
  cw_out :: string
  cw_colors :: bool

section \<open>Colors\<close>

definition colors_init :: "bool \<Rightarrow> client_world \<Rightarrow> client_world" where
  "colors_init tty w = w\<lparr>cw_colors := tty\<rparr>"

definition esc :: "bool \<Rightarrow> string \<Rightarrow> string" where
  "esc colors code = (if colors then CHR 0x1B # CHR ''['' # code @ ''m'' else [])"

definition C_RESET :: "bool \<Rightarrow> string" where "C_RESET colors = esc colors ''0''"
definition C_BOLD :: "bool \<Rightarrow> string" where "C_BOLD colors = esc colors ''1''"
definition C_GREEN :: "bool \<Rightarrow> string" where "C_GREEN colors = esc colors ''32''"
definition C_CYAN :: "bool \<Rightarrow> string" where "C_CYAN colors = esc colors ''36''"
definition C_YELLOW :: "bool \<Rightarrow> string" where "C_YELLOW colors = esc colors ''33''"
definition C_RED :: "bool \<Rightarrow> string" where "C_RED colors = esc colors ''31''"
definition C_MAGENTA :: "bool \<Rightarrow> string" where "C_MAGENTA colors = esc colors ''35''"

section \<open>Socket and terminal\<close>

definition client_set_running :: "bool \<Rightarrow> client_world \<Rightarrow> client_world" where
  "client_set_running value w = w\<lparr>cl_running := value\<rparr>"

definition client_is_running :: "client_world \<Rightarrow> bool" where
  "client_is_running w = cl_running w"

definition client_get_sockfd :: "client_world \<Rightarrow> int" where
  "client_get_sockfd w = cl_sockfd w"

declare client_is_running_def [simp] client_get_sockfd_def [simp]

definition client_print :: "string \<Rightarrow> client_world \<Rightarrow> client_world" where
  "client_print s w = w\<lparr>cw_out := cw_out w @ s\<rparr>"

fun client_send_all :: "send_res list \<Rightarrow> string \<Rightarrow> nat \<Rightarrow> nat \<Rightarrow> chat_status \<times> string \<times> send_res list" where
  "client_send_all [] buf len sent = (CHAT_OK, take (len - sent) (drop sent buf), [])"
| "client_send_all (k # ks) buf len sent =
     (if sent < len then
        (case k of
           Send_EINTR \<Rightarrow> client_send_all ks buf len sent
         | Send_Err \<Rightarrow> (CHAT_ERR_IO, [], ks)
         | Send_Zero \<Rightarrow> (CHAT_ERR_IO, [], ks)
         | Sent n \<Rightarrow>
             (let m = min (Suc n) (len - sent);
                  (st, out, ks') = client_send_all ks buf len (sent + m)
              in (st, take m (drop sent buf) @ out, ks')))
      else (CHAT_OK, [], k # ks))"

definition client_send_line :: "string \<Rightarrow> client_world \<Rightarrow> chat_status \<times> client_world" where
  "client_send_line line w =
     (if cl_sockfd w < 0 \<or> \<not> cl_running w then (CHAT_ERR_IO, w)
      else
        let (st, out, ks) = client_send_all (cw_script w) line (length line) 0
        in (st, w\<lparr>cw_script := ks, cw_wire := cw_wire w @ out\<rparr>))"

text \<open>\<open>client_recv_line\<close> gives up at the end of the stream, also in the middle of a line.\<close>

fun client_recv_loop ::
  "recv_res list \<Rightarrow> cbuf \<Rightarrow> nat \<Rightarrow> nat \<Rightarrow> (chat_status \<times> cbuf \<times> recv_res list) option" where
  "client_recv_loop [] buf buflen pos =
     (if pos < buflen - 1 then None else Some (CHAT_OK, finish_line buf pos, []))"
| "client_recv_loop (r # rs) buf buflen pos =
     (if pos < buflen - 1 then
        (case r of
           Recv_EINTR \<Rightarrow> client_recv_loop rs buf buflen pos
         | Recv_Err \<Rightarrow> Some (CHAT_ERR_IO, buf, rs)
         | Recv_EOF \<Rightarrow> Some (CHAT_ERR_IO, buf, rs)
         | Byte c \<Rightarrow>
             if c = LF then Some (CHAT_OK, finish_line (buf[pos := c]) (pos + 1), rs)
             else client_recv_loop rs (buf[pos := c]) buflen (pos + 1))
      else Some (CHAT_OK, finish_line buf pos, r # rs))"

definition client_recv_line ::
  "int \<Rightarrow> recv_res list \<Rightarrow> cbuf \<Rightarrow> nat \<Rightarrow> (chat_status \<times> cbuf \<times> recv_res list) option" where
  "client_recv_line fd rs buf buflen =
     (if fd < 0 then Some (CHAT_ERR_IO, buf, rs) else client_recv_loop rs buf buflen 0)"

section \<open>Showing what the server says\<close>

text \<open>
  \<open>strtok_r\<close>: the separators are single characters. The next token and the text behind the
  separator that ended it; \<^term>\<open>None\<close> when only separators are left.
\<close>

definition strtok :: "string \<Rightarrow> string \<Rightarrow> (string \<times> string) option" where
  "strtok delims s =
     (let r = dropWhile (\<lambda>c. c \<in> set delims) s;
          t = takeWhile (\<lambda>c. c \<notin> set delims) r
      in if r = [] then None else Some (t, drop (length t + 1) r))"

lemma strtok_shorter: "strtok delims s = Some (t, r) \<Longrightarrow> length r < length s"
proof -
  assume s: "strtok delims s = Some (t, r)"
  let ?d = "dropWhile (\<lambda>c. c \<in> set delims) s"
  have d: "?d \<noteq> []" "r = drop (length t + 1) ?d"
    using s by (auto simp: strtok_def Let_def split: if_splits)
  then have "length r < length ?d" by (simp add: diff_less)
  also have "\<dots> \<le> length s" by (rule length_dropWhile_le)
  finally show ?thesis .
qed

text \<open>The loop of \<open>print_history_payload\<close>: what it prints for the entries.\<close>

function history_entries :: "bool \<Rightarrow> string \<Rightarrow> string" where
  "history_entries colors rest =
     (case strtok ''||'' rest of
        None \<Rightarrow> []
      | Some (entry, rest') \<Rightarrow>
          (case strtok ''|'' entry of
             None \<Rightarrow> history_entries colors rest'
           | Some (user, r1) \<Rightarrow>
               (case strtok ''|'' r1 of
                  None \<Rightarrow> history_entries colors rest'
                | Some (ts, r2) \<Rightarrow>
                    (case strtok ''|'' r2 of
                       None \<Rightarrow> []
                     | Some (msg, _) \<Rightarrow>
                         C_CYAN colors @ ''[history '' @ take (TIMESTAMP_LEN - 1) ts @ ''] '' @ C_BOLD colors @
                         take (MAX_USERNAME_LEN - 1) user @ C_RESET colors @ '': '' @ msg @ [LF]) @
                    history_entries colors rest')))"
  by pat_completeness auto
termination
  by (relation "measure (\<lambda>(colors, rest). length rest)") (auto dest: strtok_shorter)

declare history_entries.simps [simp del]

definition print_history_payload :: "string \<Rightarrow> client_world \<Rightarrow> client_world" where
  "print_history_payload payload w =
     (let c = cw_colors w
      in if payload = [] then client_print (C_YELLOW c @ ''(no history)'' @ C_RESET c @ LF # ''> '') w
         else client_print ''> '' (client_print (history_entries c (take (MAX_LINE_LEN - 1) payload)) w))"

definition display_server_message :: "parsed_resp \<Rightarrow> client_world \<Rightarrow> client_world" where
  "display_server_message resp w =
     (let c = cw_colors w; prompt = LF # ''> ''
      in case pr_type resp of
           RESP_WELCOME \<Rightarrow>
             client_print (LF # C_GREEN c @ ''*** Welcome, '' @ pr_username resp @ ''! ***'' @ C_RESET c @ prompt)
               (w\<lparr>cl_authenticated := True, cl_username := take (MAX_USERNAME_LEN - 1) (pr_username resp)\<rparr>)
         | RESP_ROOM_JOINED \<Rightarrow>
             client_print (LF # C_CYAN c @ ''*** Joined room: '' @ pr_room resp @ '' ***'' @ C_RESET c @ prompt)
               (w\<lparr>cl_current_room := take (MAX_ROOM_NAME_LEN - 1) (pr_room resp), cl_joined := True\<rparr>)
         | RESP_BROADCAST \<Rightarrow>
             client_print (LF # C_GREEN c @ ''['' @ pr_timestamp resp @ ''] ['' @ pr_room resp @ ''] '' @
               C_BOLD c @ pr_username resp @ C_RESET c @ '': '' @ pr_message resp @ C_RESET c @ prompt) w
         | RESP_PM \<Rightarrow>
             client_print (LF # C_MAGENTA c @ ''[PM '' @ pr_timestamp resp @ ''] '' @
               C_BOLD c @ pr_from_user resp @ C_RESET c @ '': '' @ pr_message resp @ C_RESET c @ prompt) w
         | RESP_USER_JOIN \<Rightarrow>
             client_print (LF # C_YELLOW c @ ''*** '' @ pr_username resp @ '' joined '' @ pr_room resp @
               '' ***'' @ C_RESET c @ prompt) w
         | RESP_USER_LEFT \<Rightarrow>
             client_print (LF # C_YELLOW c @ ''*** '' @ pr_username resp @ '' left '' @ pr_room resp @
               '' ***'' @ C_RESET c @ prompt) w
         | RESP_LIST \<Rightarrow>
             client_print (LF # C_CYAN c @ ''*** Online: '' @
               (if pr_user_list resp \<noteq> [] then pr_user_list resp else ''(none)'') @ '' ***'' @ C_RESET c @ prompt) w
         | RESP_HISTORY \<Rightarrow>
             print_history_payload (pr_history_payload resp)
               (client_print (LF # C_CYAN c @ ''--- Room history ---'' @ C_RESET c @ [LF]) w)
         | RESP_KICKED \<Rightarrow>
             client_set_running False
               (client_print (LF # C_RED c @ ''*** KICKED: '' @ pr_message resp @ '' ***'' @ C_RESET c @ [LF]) w)
         | RESP_OK \<Rightarrow> w
         | RESP_ERR \<Rightarrow>
             client_print (LF # C_RED c @ ''[error] '' @ pr_message resp @ C_RESET c @ prompt) w
         | RESP_UNKNOWN \<Rightarrow> client_print (LF # ''[server] (unknown response)'' @ prompt) w)"

lemma client_recv_loop_consumes:
  "client_recv_loop rs buf buflen pos = Some (st, b, rs') \<Longrightarrow> pos < buflen - 1 \<Longrightarrow> length rs' < length rs"
proof (induction rs buf buflen pos rule: client_recv_loop.induct)
  case (1 buf buflen pos)
  then show ?case by simp
next
  case (2 r rs buf buflen pos)
  show ?case
  proof (cases r)
    case (Byte c)
    show ?thesis
    proof (cases "c = LF \<or> Suc pos < buflen - 1")
      case True
      with "2" Byte show ?thesis by (auto split: if_splits simp: less_Suc_eq)
    next
      case False
      with "2.prems" Byte show ?thesis by (cases rs) auto
    qed
  next
    case Recv_EINTR
    with "2" show ?thesis by (auto simp: less_Suc_eq)
  qed (use "2.prems" in auto)
qed

lemma client_recv_line_consumes:
  "client_recv_line fd rs buf MAX_LINE_LEN = Some (CHAT_OK, b, rs') \<Longrightarrow> length rs' < length rs"
  by (auto simp: client_recv_line_def dest: client_recv_loop_consumes split: if_splits)

text \<open>
  \<open>receiver_thread\<close>, given what \<open>recv\<close> is going to give; \<^term>\<open>None\<close> when it is blocked.
  What the other thread does to the client in the meantime is not part of the run.
\<close>

function receiver_thread :: "recv_res list \<Rightarrow> cbuf \<Rightarrow> client_world \<Rightarrow> client_world option" where
  "receiver_thread rs line w =
     (if \<not> client_is_running w then Some w
      else case client_recv_line (client_get_sockfd w) rs line MAX_LINE_LEN of
             None \<Rightarrow> None
           | Some (st, line', rs') \<Rightarrow>
               if st \<noteq> CHAT_OK
               then Some (client_set_running False
                 (client_print (LF # C_RED (cw_colors w) @ ''*** Server disconnected ***'' @ C_RESET (cw_colors w) @ [LF]) w))
               else
                 (let (pst, resp) = protocol_parse_server_line (c_str line')
                  in if pst \<noteq> CHAT_OK
                     then receiver_thread rs' line' (client_print (LF # ''[server] '' @ c_str line' @ LF # ''> '') w)
                     else receiver_thread rs' line' (display_server_message resp w)))"
  by pat_completeness auto
termination
  by (relation "measure (\<lambda>(rs, line, w). length rs)")
    (auto dest!: client_recv_line_consumes [unfolded MAX_LINE_LEN_def])

declare receiver_thread.simps [simp del]


section \<open>Logging in\<close>

text \<open>
  One field of \<open>resolve_credentials\<close>: the argument, or a line of standard input. The result
  has the field and the rest of standard input; \<^term>\<open>None\<close> at its end.
\<close>

definition resolve_field :: "string option \<Rightarrow> nat \<Rightarrow> string \<Rightarrow> (string \<times> string) option" where
  "resolve_field over n stdin =
     (case over of
        Some s \<Rightarrow>
          if s \<noteq> [] then Some (take (n - 1) s, stdin)
          else map_option (\<lambda>(l, rest). (trim_newline (c_str l), rest)) (fgets_line n stdin)
      | None \<Rightarrow> map_option (\<lambda>(l, rest). (trim_newline (c_str l), rest)) (fgets_line n stdin))"

definition ask :: "string option \<Rightarrow> string \<Rightarrow> client_world \<Rightarrow> client_world" where
  "ask over prompt w = (if over \<noteq> None \<and> over \<noteq> Some [] then w else client_print prompt w)"

definition resolve_credentials ::
  "string option \<Rightarrow> string option \<Rightarrow> string \<Rightarrow> client_world \<Rightarrow> chat_status \<times> client_world \<times> string" where
  "resolve_credentials user_override pass_override stdin w =
     (let w1 = ask user_override ''Username: '' w
      in case resolve_field user_override MAX_USERNAME_LEN stdin of
           None \<Rightarrow> (CHAT_ERR, w1, [])
         | Some (username, rest) \<Rightarrow>
      let w2 = ask pass_override ''Password: '' (w1\<lparr>cl_username := username\<rparr>)
      in case resolve_field pass_override MAX_PASSWORD_LEN rest of
           None \<Rightarrow> (CHAT_ERR, w2, [])
         | Some (password, rest') \<Rightarrow>
      let w3 = w2\<lparr>cl_password := password\<rparr>
      in if username = [] \<or> password = [] then (CHAT_ERR, w3, rest') else (CHAT_OK, w3, rest'))"

section \<open>What the user types\<close>

definition parse_at_pm :: "string \<Rightarrow> nat \<Rightarrow> nat \<Rightarrow> (string \<times> string) option" where
  "parse_at_pm input tlen mlen =
     (if input = [] \<or> hd input \<noteq> CHR ''@'' then None
      else case strchr (tl input) SP of
             None \<Rightarrow> None
           | Some ulen \<Rightarrow>
               if ulen = 0 \<or> tlen \<le> ulen then None
               else
                 let body = drop (ulen + 1) (tl input)
                 in if body = [] \<or> mlen \<le> length body then None
                    else Some (take ulen (tl input), take (mlen - 1) body))"

text \<open>\<open>strncmp(input, prefix, n) == 0\<close> for a prefix of \<open>n\<close> characters.\<close>

definition has_prefix :: "string \<Rightarrow> string \<Rightarrow> bool" where
  "has_prefix p input \<longleftrightarrow> take (length p) input = p"

text \<open>
  One turn of the loop of \<open>client_run\<close> for the line \<open>input\<close>, after \<open>trim_newline\<close>: whether
  the loop goes on. Where the code ignores the status of a builder, the buffer is sent as
  it is.
\<close>

definition send_built :: "chat_status \<times> string \<Rightarrow> client_world \<Rightarrow> client_world" where
  "send_built built w = snd (client_send_line (snd built) w)"

definition client_input :: "string \<Rightarrow> client_world \<Rightarrow> bool \<times> client_world" where
  "client_input input w =
     (if input = ''/quit'' \<or> input = ''/exit''
      then (False, client_set_running False (send_built (protocol_build_client_quit MAX_LINE_LEN) w))
      else if input = ''/users'' \<or> input = ''/list''
      then (True, send_built (protocol_build_client_list MAX_LINE_LEN) w)
      else if has_prefix ''/join '' input
      then (True, send_built (protocol_build_client_join_room MAX_LINE_LEN (drop 6 input)) w)
      else if input = ''/history''
      then (True, send_built (protocol_build_client_history MAX_LINE_LEN) w)
      else if has_prefix ''/kick '' input
      then (True, send_built (protocol_build_client_kick MAX_LINE_LEN (drop 6 input)) w)
      else if input = [] then (True, client_print ''> '' w)
      else if hd input = CHR ''@'' then
        (case parse_at_pm input MAX_USERNAME_LEN MAX_MSG_LEN of
           Some (target, msg) \<Rightarrow> (True, send_built (protocol_build_client_pm MAX_LINE_LEN target msg) w)
         | None \<Rightarrow> (True, client_print (C_RED (cw_colors w) @ ''Usage: @username message'' @
                      C_RESET (cw_colors w) @ LF # ''> '') w))
      else
        let built = protocol_build_client_msg MAX_LINE_LEN input
        in if fst built \<noteq> CHAT_OK then (True, w)
           else
             let (st, w1) = client_send_line (snd built) w
             in if st \<noteq> CHAT_OK then (False, client_set_running False w1) else (True, client_print ''> '' w1))"

text \<open>The loop, until the user quits or standard input ends.\<close>

lemma fgets_line_shorter: "fgets_line 2048 file = Some (l, rest) \<Longrightarrow> length rest < length file"
  by (auto simp: fgets_line_def Let_def split: if_splits intro!: diff_less)

function client_loop :: "string \<Rightarrow> client_world \<Rightarrow> client_world" where
  "client_loop stdin w =
     (if \<not> client_is_running w then w
      else case fgets_line 2048 stdin of
             None \<Rightarrow> w
           | Some (l, rest) \<Rightarrow>
               (let (go, w') = client_input (trim_newline (c_str l)) w
                in if go then client_loop rest w' else w'))"
  by pat_completeness auto
termination
  by (relation "measure (\<lambda>(stdin, w). length stdin)") (auto dest: fgets_line_shorter)

declare client_loop.simps [simp del]

section \<open>Life of the client\<close>

definition client_init :: "bool \<Rightarrow> bool \<Rightarrow> bool \<Rightarrow> client_world \<Rightarrow> chat_status \<times> client_world" where
  "client_init tty lock_ok io_lock_ok w =
     (let w1 = w\<lparr>cl_sockfd := -1, cl_username := [], cl_password := [], cl_current_room := [],
               cl_running := True, cl_authenticated := False, cl_joined := False, cl_receiver_started := False\<rparr>;
          w2 = colors_init tty w1
      in if \<not> lock_ok then (CHAT_ERR, w2) else if \<not> io_lock_ok then (CHAT_ERR, w2) else (CHAT_OK, w2))"

text \<open>
  The loop of \<open>client_connect\<close> over the addresses: for each the descriptor of \<open>socket\<close> and
  whether \<open>connect\<close> succeeds. The result is the descriptor, -1 for none, and the descriptors
  that were closed, latest first.
\<close>

fun connect_loop :: "(int \<times> bool) list \<Rightarrow> int list \<Rightarrow> int \<times> int list" where
  "connect_loop [] closed = (-1, closed)"
| "connect_loop ((fd, ok) # rs) closed =
     (if fd < 0 then connect_loop rs closed
      else if ok then (fd, closed)
      else connect_loop rs (fd # closed))"

definition client_connect :: "(int \<times> bool) list option \<Rightarrow> client_world \<Rightarrow> chat_status \<times> client_world" where
  "client_connect addrinfo w =
     (case addrinfo of
        None \<Rightarrow> (CHAT_ERR, w)
      | Some rs \<Rightarrow>
          let (fd, closed) = connect_loop rs (cw_closed w); w1 = w\<lparr>cw_closed := closed\<rparr>
          in if fd < 0 then (CHAT_ERR, w1) else (CHAT_OK, w1\<lparr>cl_sockfd := fd\<rparr>))"

definition client_greeting :: "bool \<Rightarrow> string" where
  "client_greeting c = C_BOLD c @ ''Connected. Commands: message, @user PM, /users, /join room, '' @
     ''/history, /kick user (admin), /quit'' @ C_RESET c @ LF # ''> ''"

text \<open>
  \<open>client_run\<close> up to \<open>pthread_create\<close>: the name and the password, the \<open>AUTH\<close> line, the second
  thread. The result has what is left of standard input for the loop. From then on two
  threads run; \<open>Client_System\<close> has the whole of \<open>client_run\<close>.
\<close>

definition client_run_start ::
  "bool \<Rightarrow> string option \<Rightarrow> string option \<Rightarrow> string \<Rightarrow> client_world \<Rightarrow> chat_status \<times> client_world \<times> string" where
  "client_run_start thread_ok username_override password_override stdin w =
     (if cl_sockfd w < 0 then (CHAT_ERR, w, stdin)
      else
        let (st, w1, rest) = resolve_credentials username_override password_override stdin w
        in if st \<noteq> CHAT_OK then (CHAT_ERR, w1, rest)
           else
             let built = protocol_build_client_auth MAX_LINE_LEN (cl_username w1) (cl_password w1)
             in if fst built \<noteq> CHAT_OK then (CHAT_ERR_IO, w1, rest)
                else
                  let (st2, w2) = client_send_line (snd built) w1
                  in if st2 \<noteq> CHAT_OK then (CHAT_ERR_IO, w2, rest)
                     else if \<not> thread_ok then (CHAT_ERR, w2, rest)
                     else (CHAT_OK, w2\<lparr>cl_receiver_started := True\<rparr>, rest))"

definition client_disconnect :: "client_world \<Rightarrow> client_world" where
  "client_disconnect w =
     (let w1 = client_set_running False w
      in if cl_sockfd w1 \<ge> 0 then w1\<lparr>cw_closed := cl_sockfd w1 # cw_closed w1, cl_sockfd := -1\<rparr> else w1)"

definition client_destroy :: "client_world \<Rightarrow> client_world" where
  "client_destroy w = client_disconnect w"

text \<open>The arguments of \<open>main\<close>: host, port, user name and password, or none for \<open>EXIT_FAILURE\<close>.\<close>

definition client_main_args ::
  "string list \<Rightarrow> (string \<times> 16 word \<times> string option \<times> string option) option" where
  "client_main_args args =
     (if length args > 5 then None
      else
        case (if length args \<ge> 3 then parse_port (args ! 2) else (CHAT_OK, Some (word_of_nat DEFAULT_PORT))) of
          (CHAT_OK, Some port) \<Rightarrow>
            Some (if length args \<ge> 2 then args ! 1 else ''127.0.0.1'', port,
                  if length args \<ge> 4 then Some (args ! 3) else None,
                  if length args = 5 then Some (args ! 4) else None)
        | _ \<Rightarrow> None)"

section \<open>The socket loops keep their contracts\<close>

lemma client_send_all_eq: "client_send_all = send_all"
proof (intro ext)
  fix ks buf len sent
  show "client_send_all ks buf len sent = send_all ks buf len sent"
    by (induction ks buf len sent rule: client_send_all.induct)
      (auto split: send_res.split prod.split)
qed

interpretation snd_client: full_sender client_send_all
  unfolding client_send_all_eq by (rule snd_utils.full_sender_axioms)

lemma client_recv_loop_bytes:
  "length buf = n \<Longrightarrow> LF \<notin> set s \<Longrightarrow> pos + length s \<le> n - 1 \<Longrightarrow>
   client_recv_loop (map Byte s @ rs) buf n pos = client_recv_loop rs (fill buf pos s) n (pos + length s)"
proof (induction s arbitrary: buf pos)
  case Nil
  then show ?case by simp
next
  case (Cons c s)
  then show ?case by (auto simp: fill_Cons)
qed

lemma client_recv_loop_full:
  "n - 1 \<le> pos \<Longrightarrow> client_recv_loop rs buf n pos = Some (CHAT_OK, finish_line buf pos, rs)"
  by (cases rs) auto

interpretation rcv_client: line_receiver "\<lambda>rs buf n. client_recv_loop rs buf n 0"
proof unfold_locales
  fix buf :: cbuf and n s rs
  assume a: "length buf = n" "is_c_string s" "LF \<notin> set s"
  show "\<exists>b. client_recv_loop (map Byte s @ Byte LF # rs) buf n 0 = Some (CHAT_OK, b, rs) \<and>
          c_str b = trim_newline s \<and> length b = n" if "length s + 2 \<le> n"
    using a that finish_fill_LF [of s buf]
    by (simp add: client_recv_loop_bytes)
  show "\<exists>b. client_recv_loop (map Byte s @ rs) buf n 0 = Some (CHAT_OK, b, rs) \<and>
          c_str b = trim_newline s \<and> length b = n" if "length s + 1 = n" "2 \<le> n"
    using a that finish_fill_full [of s buf] client_recv_loop_bytes [of buf n s 0 rs]
    by (auto simp: client_recv_loop_full)
qed

end
