(* ===== verification/Client_Properties.thy ===== *)
theory Client_Properties
  imports Client
begin

text \<open>
  The theorems on the client: what the typed lines become on the socket, what the server's
  lines become on the screen, and what happens to the descriptors.
\<close>

section \<open>Sending\<close>

text \<open>A client that is connected, runs, and whose kernel takes everything.\<close>

definition client_open :: "client_world \<Rightarrow> bool" where
  "client_open w \<longleftrightarrow> 0 \<le> cl_sockfd w \<and> cl_running w \<and> cw_script w = []"

lemma client_send_open:
  assumes "client_open w"
  shows "client_send_line line w = (CHAT_OK, w\<lparr>cw_script := [], cw_wire := cw_wire w @ line\<rparr>)"
  using assms by (simp add: client_send_line_def client_open_def)

section \<open>Typing\<close>

text \<open>What the user types for a command.\<close>

fun typing :: "client_msg \<Rightarrow> string" where
  "typing (Auth u p) = []"
| "typing (Join_Room r) = ''/join '' @ r"
| "typing (Msg m) = m"
| "typing (Pm t m) = ''@'' @ t @ SP # m"
| "typing List_Users = ''/users''"
| "typing History = ''/history''"
| "typing (Kick u) = ''/kick '' @ u"
| "typing Quit = ''/quit''"

text \<open>Messages that begin with a slash or an at sign may be commands and are left out.\<close>

fun typable :: "client_msg \<Rightarrow> bool" where
  "typable (Auth u p) \<longleftrightarrow> False"
| "typable (Msg m) \<longleftrightarrow> hd m \<noteq> CHR ''/'' \<and> hd m \<noteq> CHR ''@''"
| "typable _ \<longleftrightarrow> True"

text \<open>
  \<open>parse_at_pm\<close> accepts exactly the texts \<open>@name text\<close> with a non-empty name without a space
  and a non-empty text that fit their buffers.
\<close>

lemma parse_at_pm_iff:
  "parse_at_pm input tlen mlen = Some (t, m) \<longleftrightarrow>
     input = CHR ''@'' # t @ SP # m \<and> t \<noteq> [] \<and> SP \<notin> set t \<and> length t < tlen \<and> m \<noteq> [] \<and> length m < mlen"
proof
  assume p: "parse_at_pm input tlen mlen = Some (t, m)"
  then obtain body where i: "input = CHR ''@'' # body"
    by (cases input) (auto simp: parse_at_pm_def split: if_splits)
  with p obtain k where k: "strchr body SP = Some k"
    by (auto simp: parse_at_pm_def split: option.splits if_splits)
  with p i have r: "k \<noteq> 0" "k < tlen" "t = take k body" "drop (Suc k) body \<noteq> []"
      "length (drop (Suc k) body) < mlen" "m = take (mlen - 1) (drop (Suc k) body)"
    by (auto simp: parse_at_pm_def Let_def not_le split: if_splits)
  then have "m = drop (Suc k) body" by simp
  with strchr_Some [OF k] r i show "input = CHR ''@'' # t @ SP # m \<and> t \<noteq> [] \<and> SP \<notin> set t \<and> length t < tlen \<and>
      m \<noteq> [] \<and> length m < mlen"
    by auto
next
  assume "input = CHR ''@'' # t @ SP # m \<and> t \<noteq> [] \<and> SP \<notin> set t \<and> length t < tlen \<and> m \<noteq> [] \<and> length m < mlen"
  then show "parse_at_pm input tlen mlen = Some (t, m)"
    by (auto simp: parse_at_pm_def strchr_append not_le)
qed

lemma client_input_typing:
  assumes "client_ok m" and "typable m" and "client_open w"
  shows "\<exists>w'. client_input (typing m) w = (m \<noteq> Quit, w') \<and> cw_wire w' = cw_wire w @ client_line m @ [LF] \<and>
           cl_running w' = (m \<noteq> Quit) \<and> cl_sockfd w' = cl_sockfd w"
proof -
  have line: "snd (build_client m 2048) = client_line m @ [LF]" "fst (build_client m 2048) = CHAT_OK"
    using client_line_text [OF assms(1)] by (simp_all add: build_client_line)
  have sent: "send_built b w = w\<lparr>cw_script := [], cw_wire := cw_wire w @ snd b\<rparr>" for b
    using client_send_open [OF assms(3)] by (simp add: send_built_def)
  have run: "cl_running w" using assms(3) by (simp add: client_open_def)
  show ?thesis
  proof (cases m)
    case (Auth u p)
    with assms(2) show ?thesis by simp
  next
    case (Msg c)
    have "c \<noteq> []" using assms(1) Msg by (simp add: text_field_def)
    then obtain x xs where c: "c = x # xs" "x \<noteq> CHR ''/''" "x \<noteq> CHR ''@''" using assms(2) Msg by (cases c) auto
    show ?thesis
      using line run c Msg client_send_open [OF assms(3)]
      by (simp add: client_input_def has_prefix_def Let_def client_print_def)
  next
    case (Pm t c)
    then have "parse_at_pm (CHR ''@'' # t @ SP # c) 32 512 = Some (t, c)"
      using assms(1) by (auto simp: parse_at_pm_iff token_def text_field_def)
    then show ?thesis
      using line run Pm sent by (simp add: client_input_def has_prefix_def)
  next
    case Quit
    then show ?thesis using line sent by (simp add: client_input_def client_set_running_def)
  qed (use line run sent in \<open>simp_all add: client_input_def has_prefix_def\<close>)
qed

section \<open>Receiving\<close>

text \<open>The effect of a line of the server, and of a sequence of them.\<close>

definition shown :: "server_msg list \<Rightarrow> client_world \<Rightarrow> client_world" where
  "shown ms w = fold (\<lambda>m. display_server_message (server_view m)) ms w"

lemma display_running:
  "pr_type resp \<noteq> RESP_KICKED \<Longrightarrow> cl_running (display_server_message resp w) = cl_running w"
  by (auto simp: display_server_message_def Let_def client_print_def print_history_payload_def
      split: server_resp.split)

lemma display_sockfd: "cl_sockfd (display_server_message resp w) = cl_sockfd w"
  by (auto simp: display_server_message_def Let_def client_print_def print_history_payload_def client_set_running_def
      split: server_resp.split)

lemma server_view_type: "pr_type (server_view m) = RESP_KICKED \<longleftrightarrow> (\<exists>s. m = S_Kicked s)"
  by (cases m) simp_all

lemma receiver_line:
  assumes "server_ok m" and "length line = 2048" and "cl_running w" and "0 \<le> cl_sockfd w"
  shows "\<exists>line'. length line' = 2048 \<and>
     receiver_thread (map Byte (server_line m @ [LF]) @ rs) line w
       = receiver_thread rs line' (display_server_message (server_view m) w)"
proof -
  have t: "line_text (server_line m)" "length (server_line m) + 2 \<le> 2048"
    using server_line_text [OF assms(1)] by simp_all
  obtain b where b: "client_recv_loop (map Byte (server_line m) @ Byte LF # rs) line 2048 0 = Some (CHAT_OK, b, rs)"
      "c_str b = server_line m" "length b = 2048"
    using rcv_client.rcv_line [OF assms(2) _ _ t(2), of rs] t(1)
    by (auto simp: line_text_c_string line_text_no_LF trim_newline_text)
  have "receiver_thread (map Byte (server_line m @ [LF]) @ rs) line w
      = receiver_thread rs b (display_server_message (server_view m) w)"
    using assms(3,4) b(1,2) parse_server_line [OF assms(1)]
    by (subst receiver_thread.simps) (simp add: client_recv_line_def)
  with b(3) show ?thesis by blast
qed

definition no_kick :: "server_msg list \<Rightarrow> bool" where
  "no_kick ms \<longleftrightarrow> (\<forall>m \<in> set ms. \<forall>s. m \<noteq> S_Kicked s)"

lemma receiver_lines:
  "list_all server_ok ms \<Longrightarrow> no_kick ms \<Longrightarrow> length line = 2048 \<Longrightarrow> cl_running w \<Longrightarrow> 0 \<le> cl_sockfd w \<Longrightarrow>
   \<exists>line'. length line' = 2048 \<and> cl_running (shown ms w) \<and> cl_sockfd (shown ms w) = cl_sockfd w \<and>
     receiver_thread (map Byte (lines_of ms) @ rs) line w = receiver_thread rs line' (shown ms w)"
proof (induction ms arbitrary: line w)
  case Nil
  then show ?case by (auto simp: shown_def)
next
  case (Cons m ms)
  have ok: "server_ok m" using Cons.prems(1) by simp
  obtain line1 where l1: "length line1 = 2048"
      "receiver_thread (map Byte (server_line m @ [LF]) @ map Byte (lines_of ms) @ rs) line w
        = receiver_thread (map Byte (lines_of ms) @ rs) line1 (display_server_message (server_view m) w)"
    using receiver_line [OF ok Cons.prems(3-5)] by blast
  have "pr_type (server_view m) \<noteq> RESP_KICKED"
    using Cons.prems(2) by (auto simp: server_view_type no_kick_def)
  then have r: "cl_running (display_server_message (server_view m) w)"
    using Cons.prems(4) by (simp add: display_running)
  have ms: "list_all server_ok ms" "no_kick ms" using Cons.prems(1,2) by (simp_all add: no_kick_def)
  from Cons.IH [OF ms l1(1) r] Cons.prems(5) l1(2) show ?case
    by (simp add: display_sockfd shown_def)
qed

section \<open>The history on the screen\<close>

lemma strtok_token: "strtok ''|'' s = Some (t, r) \<Longrightarrow> t \<noteq> [] \<and> CHR ''|'' \<notin> set t"
proof -
  assume s: "strtok ''|'' s = Some (t, r)"
  let ?d = "dropWhile (\<lambda>c. c \<in> set ''|'') s"
  have d: "?d \<noteq> []" "t = takeWhile (\<lambda>c. c \<notin> set ''|'') ?d"
    using s by (auto simp: strtok_def Let_def split: if_splits)
  from d(1) have "hd ?d \<notin> set ''|''" by (rule hd_dropWhile)
  with d show ?thesis by (cases ?d) (auto dest: set_takeWhileD)
qed

text \<open>\<open>strtok_r\<close> takes \<open>||\<close> for a set of characters, so that a token is a single field.\<close>

lemma strtok_double: "strtok ''||'' s = strtok ''|'' s"
  by (simp add: strtok_def)

lemma strtok_field:
  assumes "t \<noteq> []" and "CHR ''|'' \<notin> set t"
  shows "strtok ''|'' t = Some (t, [])"
proof -
  have d: "dropWhile (\<lambda>c. c \<in> set ''|'') t = t" using assms by (cases t) auto
  have t: "takeWhile (\<lambda>c. c \<notin> set ''|'') t = t" using assms(2) by (auto simp: takeWhile_eq_all_conv)
  show ?thesis unfolding strtok_def Let_def d t using assms(1) by simp
qed

lemma history_entries_empty: "history_entries colors s = []"
proof (induction "length s" arbitrary: s rule: less_induct)
  case less
  show ?case
  proof (cases "strtok ''||'' s")
    case None
    then show ?thesis by (subst history_entries.simps) simp
  next
    case (Some p)
    then obtain entry rest where p: "strtok ''||'' s = Some (entry, rest)" by (cases p) auto
    then have e: "strtok ''|'' entry = Some (entry, [])"
      using strtok_token strtok_field by (simp only: strtok_double) blast
    have "length rest < length s" using strtok_shorter [OF p] .
    with less p e show ?thesis
      by (subst history_entries.simps) (simp add: strtok_def [of _ "[]"])
  qed
qed


section \<open>Descriptors\<close>

text \<open>The sockets \<open>client_connect\<close> opens: one per address, up to the first that connects.\<close>

fun sockets_made :: "(int \<times> bool) list \<Rightarrow> int list" where
  "sockets_made [] = []"
| "sockets_made ((fd, ok) # rs) =
     (if fd < 0 then sockets_made rs else if ok then [fd] else fd # sockets_made rs)"

lemma connect_loop_made:
  "connect_loop rs closed = (fd, closed') \<Longrightarrow>
   rev closed @ sockets_made rs = rev closed' @ (if fd < 0 then [] else [fd])"
proof (induction rs closed rule: connect_loop.induct)
  case (1 closed)
  then show ?case by auto
next
  case (2 s ok rs closed)
  then show ?case by (cases "s < 0"; cases ok) auto
qed

section \<open>Properties\<close>

text \<open>
  Property C28. What the user types is what the server is told: for every command with
  well-formed arguments, a connected client writes exactly one line to its socket for the
  typed line, and the server's parser reads that very command from it. Only \<open>/quit\<close> ends the
  input loop.
\<close>

theorem typed_command_reaches_parser:
  assumes "client_ok m" and "typable m" and "client_open w"
  shows "\<exists>w' line. client_input (typing m) w = (m \<noteq> Quit, w') \<and> cw_wire w' = cw_wire w @ line @ [LF] \<and>
     LF \<notin> set line \<and> protocol_parse_client_line line = (CHAT_OK, client_view m) \<and> cl_running w' = (m \<noteq> Quit)"
  using client_input_typing [OF assms] parse_client_line [OF assms(1)] client_line_text [OF assms(1)] line_text_no_LF
  by blast

definition sample_client :: client_world where
  "sample_client = \<lparr>cl_sockfd = 4, cl_username = ''alice'', cl_password = ''pw'', cl_current_room = ''lobby'',
     cl_running = True, cl_authenticated = True, cl_joined = True, cl_receiver_started = True,
     cw_script = [], cw_wire = [], cw_shutdown = [], cw_closed = [], cw_out = [], cw_colors = False\<rparr>"

theorem typed_command_reaches_parser_witness:
  "cw_wire (snd (client_input ''@bob see you'' sample_client)) = ''PM bob see you'' @ [LF] \<and>
   (\<exists>w' line. client_input ''@bob see you'' sample_client = (True, w') \<and> cw_wire w' = line @ [LF] \<and>
      protocol_parse_client_line line = (CHAT_OK, \<lparr>pc_cmd = CMD_PM, pc_arg1 = ''bob'', pc_arg2 = ''see you''\<rparr>))"
proof -
  have ok: "client_ok (Pm ''bob'' ''see you'')" "typable (Pm ''bob'' ''see you'')"
    by (simp_all add: token_def text_field_def)
  have op: "client_open sample_client" by (simp add: client_open_def sample_client_def)
  have "cw_wire (snd (client_input ''@bob see you'' sample_client)) = ''PM bob see you'' @ [LF]"
    by (simp add: client_input_def has_prefix_def parse_at_pm_def send_built_def client_send_line_def
        sample_client_def protocol_build_client_pm_def snprintf_line_def)
  then show ?thesis
    using typed_command_reaches_parser [OF ok op] by (fastforce simp: sample_client_def)
qed

text \<open>
  Property C29. The receiver shows every response of the server once and in order: for a
  stream of well-formed responses without a kick that then ends, the thread returns with
  the responses displayed one after the other, the loss of the connection reported and the
  client stopped.
\<close>

theorem receiver_shows_responses:
  assumes "list_all server_ok ms" and "no_kick ms" and "length line = MAX_LINE_LEN" and "cl_running w"
    and "0 \<le> cl_sockfd w"
  shows "receiver_thread (map Byte (lines_of ms) @ Recv_EOF # rs) line w
    = Some (client_set_running False (client_print (LF # C_RED (cw_colors (shown ms w)) @
        ''*** Server disconnected ***'' @ C_RESET (cw_colors (shown ms w)) @ [LF]) (shown ms w)))"
proof -
  have l: "length line = 2048" using assms(3) by simp
  obtain line' where "cl_running (shown ms w)" "cl_sockfd (shown ms w) = cl_sockfd w"
      "receiver_thread (map Byte (lines_of ms) @ Recv_EOF # rs) line w
        = receiver_thread (Recv_EOF # rs) line' (shown ms w)"
    using receiver_lines [OF assms(1,2) l assms(4,5), of "Recv_EOF # rs"] by blast
  with assms(5) show ?thesis
    by (simp add: receiver_thread.simps [of "Recv_EOF # rs" line'] client_recv_line_def)
qed

theorem receiver_shows_responses_witness:
  "\<exists>w. receiver_thread (map Byte (lines_of [S_Welcome ''alice'', S_Room_Joined ''dev'']) @ [Recv_EOF])
          (replicate 2048 NUL) sample_client = Some w \<and>
       cl_current_room w = ''dev'' \<and> \<not> cl_running w \<and>
       cw_out w = LF # ''*** Welcome, alice! ***'' @ LF # ''> '' @ LF # ''*** Joined room: dev ***'' @ LF # ''> '' @
         LF # ''*** Server disconnected ***'' @ [LF]"
proof -
  let ?ms = "[S_Welcome ''alice'', S_Room_Joined ''dev'']"
  have ok: "list_all server_ok ?ms" "no_kick ?ms" by (simp_all add: short_text_def no_kick_def)
  have c: "cl_running sample_client" "0 \<le> cl_sockfd sample_client" by (simp_all add: sample_client_def)
  show ?thesis
    using receiver_shows_responses [OF ok _ c, of "replicate 2048 NUL" "[]"]
    by (simp add: shown_def display_server_message_def Let_def client_print_def client_set_running_def
        C_GREEN_def C_CYAN_def C_RED_def C_RESET_def esc_def sample_client_def empty_resp_def)
qed

text \<open>
  Property C40. The client never shows a history: \<open>strtok_r\<close> takes its second argument for a
  set of characters and cuts the payload at every single bar, so that each piece is one
  field without a time and a message, and is skipped. Whatever the server sends, the screen
  gets the prompt and nothing else.
\<close>

theorem history_never_shown:
  "cw_out (print_history_payload payload w) = cw_out w @
     (if payload = [] then C_YELLOW (cw_colors w) @ ''(no history)'' @ C_RESET (cw_colors w) @ LF # ''> '' else ''> '')"
  by (simp add: print_history_payload_def Let_def client_print_def history_entries_empty)

text \<open>
  No descriptor of the client is lost or closed twice: whatever the sequence of
  \<open>socket\<close> and \<open>connect\<close> results, after \<open>client_connect\<close> and \<open>client_destroy\<close> the sockets
  that were made have been closed, each once.
\<close>

theorem client_closes_its_sockets:
  assumes "cl_sockfd w = -1" and "cw_closed w = []"
  shows "rev (cw_closed (client_destroy (snd (client_connect (Some rs) w)))) = sockets_made rs \<and>
         cl_sockfd (client_destroy (snd (client_connect (Some rs) w))) = -1"
proof -
  obtain fd closed where c: "connect_loop rs [] = (fd, closed)" by (cases "connect_loop rs []")
  with connect_loop_made [OF c] assms show ?thesis
    by (auto simp: client_connect_def client_destroy_def client_disconnect_def client_set_running_def Let_def)
qed

theorem client_closes_its_sockets_witness:
  "rev (cw_closed (client_destroy (snd (client_connect (Some [(5, False), (-1, False), (6, True), (7, True)])
     (sample_client\<lparr>cl_sockfd := -1\<rparr>))))) = [5, 6]"
  using client_closes_its_sockets [of "sample_client\<lparr>cl_sockfd := -1\<rparr>" "[(5, False), (-1, False), (6, True), (7, True)]"]
  by (simp add: sample_client_def)

end
