(* ===== verification/Client_System.thy ===== *)
theory Client_System
  imports Client_Properties
begin

text \<open>
  The client with its two threads interleaved: the input loop of \<open>client_run\<close> and
  \<open>receiver_thread\<close> share the client under its lock and the terminal under another, so that one
  call that takes a lock is one step; \<open>client_run\<close> is any run of the two up to the join.
  Standard input is the text still to be typed, and a thread in \<open>fgets\<close> or \<open>recv\<close> simply has
  its next step outstanding.
\<close>

section \<open>Steps\<close>

text \<open>
  Where the main thread is: about to print the greeting, before the loop's test, in \<open>fgets\<close>,
  with a line, after sending a message or \<open>QUIT\<close>, past the loop, in \<open>pthread_join\<close>, returned.
\<close>

datatype user_control =
    U_Greet
  | U_Test
  | U_Read
  | U_Line string
  | U_Sent chat_status
  | U_Quit
  | U_Shutdown
  | U_Join
  | U_Done

text \<open>Where the receiver is: before its test, in \<open>recv\<close>, about to clear \<open>running\<close>, returned.\<close>

datatype recv_control =
    R_Test
  | R_Recv
  | R_Kicked
  | R_Lost
  | R_Left

record client_sys =
  cs_world :: client_world
  cs_stdin :: string
  cs_user :: user_control
  cs_line :: cbuf
  cs_recv :: recv_control

text \<open>The input loop's last case, a line that is a chat message.\<close>

definition is_message :: "string \<Rightarrow> bool" where
  "is_message input \<longleftrightarrow> input \<notin> {''/quit'', ''/exit'', ''/users'', ''/list'', ''/history'', []} \<and>
     \<not> has_prefix ''/join '' input \<and> \<not> has_prefix ''/kick '' input \<and> hd input \<noteq> CHR ''@''"

text \<open>What the input loop does with a line up to the next lock it takes, and where it is then.\<close>

definition user_line :: "string \<Rightarrow> client_world \<Rightarrow> user_control \<times> client_world" where
  "user_line input w =
     (if input = ''/quit'' \<or> input = ''/exit'' then (U_Quit, send_built (protocol_build_client_quit MAX_LINE_LEN) w)
      else if is_message input then
        (let built = protocol_build_client_msg MAX_LINE_LEN input
         in if fst built \<noteq> CHAT_OK then (U_Test, w)
            else case client_send_line (snd built) w of (st, w') \<Rightarrow> (U_Sent st, w'))
      else (U_Test, snd (client_input input w)))"

definition client_shutdown :: "client_world \<Rightarrow> client_world" where
  "client_shutdown w = (if cl_sockfd w \<ge> 0 then w\<lparr>cw_shutdown := cl_sockfd w # cw_shutdown w\<rparr> else w)"

text \<open>
  One step of the input loop, given what is on standard input; \<^term>\<open>None\<close> when the thread
  waits for the receiver or has returned.
\<close>

fun user_act :: "recv_control \<Rightarrow> user_control \<Rightarrow> string \<times> client_world \<Rightarrow> (user_control \<times> string \<times> client_world) option" where
  "user_act r U_Greet (stdin, w) = Some (U_Test, stdin, client_print (client_greeting (cw_colors w)) w)"
| "user_act r U_Test (stdin, w) = Some (if client_is_running w then U_Read else U_Shutdown, stdin, w)"
| "user_act r U_Read (stdin, w) =
     (case fgets_line MAX_LINE_LEN stdin of
        None \<Rightarrow> Some (U_Shutdown, stdin, w)
      | Some (l, rest) \<Rightarrow> Some (U_Line (trim_newline (c_str l)), rest, w))"
| "user_act r (U_Line input) (stdin, w) = (case user_line input w of (u, w') \<Rightarrow> Some (u, stdin, w'))"
| "user_act r (U_Sent st) (stdin, w) =
     (if st \<noteq> CHAT_OK then Some (U_Shutdown, stdin, client_set_running False w)
      else Some (U_Test, stdin, client_print ''> '' w))"
| "user_act r U_Quit (stdin, w) = Some (U_Shutdown, stdin, client_set_running False w)"
| "user_act r U_Shutdown (stdin, w) = Some (U_Join, stdin, client_shutdown w)"
| "user_act r U_Join (stdin, w) =
     (if r = R_Left then Some (U_Done, stdin, w\<lparr>cl_receiver_started := False\<rparr>) else None)"
| "user_act r U_Done (stdin, w) = None"

text \<open>
  What the receiver does with a line up to the next change of \<open>running\<close>: the notice of a kick
  is printed before \<open>running\<close> is cleared.
\<close>

definition kick_notice :: "string \<Rightarrow> client_world \<Rightarrow> client_world" where
  "kick_notice msg w = client_print (LF # C_RED (cw_colors w) @ ''*** KICKED: '' @ msg @ '' ***'' @
     C_RESET (cw_colors w) @ [LF]) w"

definition lost_notice :: "client_world \<Rightarrow> client_world" where
  "lost_notice w = client_print (LF # C_RED (cw_colors w) @ ''*** Server disconnected ***'' @
     C_RESET (cw_colors w) @ [LF]) w"

definition recv_line_act :: "cbuf \<Rightarrow> client_world \<Rightarrow> recv_control \<times> client_world" where
  "recv_line_act line w =
     (let (pst, resp) = protocol_parse_server_line (c_str line)
      in if pst \<noteq> CHAT_OK then (R_Test, client_print (LF # ''[server] '' @ c_str line @ LF # ''> '') w)
         else if pr_type resp = RESP_KICKED then (R_Kicked, kick_notice (pr_message resp) w)
         else (R_Test, display_server_message resp w))"

inductive client_step :: "client_sys \<Rightarrow> client_sys \<Rightarrow> bool" where
  c_user: "client_step s (s\<lparr>cs_world := w', cs_stdin := stdin', cs_user := u\<rparr>)"
    if "user_act (cs_recv s) (cs_user s) (cs_stdin s, cs_world s) = Some (u, stdin', w')"
| c_recv: "client_step s (s\<lparr>cs_recv := R_Recv\<rparr>)"
    if "cs_recv s = R_Test" and "client_is_running (cs_world s)"
| c_stop: "client_step s (s\<lparr>cs_recv := R_Left\<rparr>)"
    if "cs_recv s = R_Test" and "\<not> client_is_running (cs_world s)"
| c_line: "client_step s (s\<lparr>cs_world := w', cs_line := line', cs_recv := r\<rparr>)"
    if "cs_recv s = R_Recv"
      and "client_recv_line (client_get_sockfd (cs_world s)) rs (cs_line s) MAX_LINE_LEN = Some (CHAT_OK, line', rs')"
      and "recv_line_act line' (cs_world s) = (r, w')"
| c_lost: "client_step s (s\<lparr>cs_world := lost_notice (cs_world s), cs_line := line', cs_recv := R_Lost\<rparr>)"
    if "cs_recv s = R_Recv"
      and "client_recv_line (client_get_sockfd (cs_world s)) rs (cs_line s) MAX_LINE_LEN = Some (st, line', rs')"
      and "st \<noteq> CHAT_OK"
| c_clear: "client_step s (s\<lparr>cs_world := client_set_running False (cs_world s),
      cs_recv := (if cs_recv s = R_Lost then R_Left else R_Test)\<rparr>)"
    if "cs_recv s = R_Lost \<or> cs_recv s = R_Kicked"
| c_kernel: "client_step s (s\<lparr>cs_world := (cs_world s)\<lparr>cw_script := ks\<rparr>\<rparr>)"

text \<open>The client once \<open>client_run\<close> has greeted the user, the receiver being about to start.\<close>

definition client_start :: "client_world \<Rightarrow> string \<Rightarrow> cbuf \<Rightarrow> client_sys" where
  "client_start w stdin line = \<lparr>cs_world = w, cs_stdin = stdin, cs_user = U_Test, cs_line = line, cs_recv = R_Test\<rparr>"

text \<open>
  \<open>client_run\<close>: when the start fails, its status; otherwise both threads run, the receiver
  with its own \<open>line\<close>, until the main thread has joined the receiver and returns. \<open>pthread_create\<close>
  comes before the greeting, so that a response may be displayed before it.
\<close>

definition client_fork :: "client_world \<Rightarrow> string \<Rightarrow> cbuf \<Rightarrow> client_sys" where
  "client_fork w stdin line = \<lparr>cs_world = w, cs_stdin = stdin, cs_user = U_Greet, cs_line = line, cs_recv = R_Test\<rparr>"

inductive client_run ::
  "bool \<Rightarrow> string option \<Rightarrow> string option \<Rightarrow> string \<Rightarrow> client_world \<Rightarrow> chat_status \<Rightarrow> client_world \<Rightarrow> bool"
  for thread_ok username_override password_override stdin w where
  run_fails: "client_run thread_ok username_override password_override stdin w st w1"
    if "client_run_start thread_ok username_override password_override stdin w = (st, w1, rest)" and "st \<noteq> CHAT_OK"
| run_returns: "client_run thread_ok username_override password_override stdin w CHAT_OK (cs_world s)"
    if "client_run_start thread_ok username_override password_override stdin w = (CHAT_OK, w1, rest)"
      and "length line = MAX_LINE_LEN" and "client_step\<^sup>*\<^sup>* (client_fork w1 rest line) s" and "cs_user s = U_Done"

section \<open>What the calls leave alone\<close>

definition same_socket :: "client_world \<Rightarrow> client_world \<Rightarrow> bool" where
  "same_socket w w' \<longleftrightarrow> cl_sockfd w' = cl_sockfd w \<and> cw_closed w' = cw_closed w \<and>
     cw_shutdown w' = cw_shutdown w \<and> cl_receiver_started w' = cl_receiver_started w \<and> (cl_running w' \<longrightarrow> cl_running w) \<and>
     (\<not> cl_running w \<longrightarrow> cw_wire w' = cw_wire w) \<and> (\<exists>s. cw_wire w' = cw_wire w @ s)"

lemma same_socket_refl [simp]: "same_socket w w"
  by (simp add: same_socket_def)

lemma same_socket_print [simp]: "same_socket w (client_print s w') = same_socket w w'"
  by (simp add: same_socket_def client_print_def)

lemma same_socket_running [simp]: "same_socket w w' \<Longrightarrow> same_socket w (client_set_running False w')"
  by (simp add: same_socket_def client_set_running_def)

lemma same_socket_send [simp]: "same_socket w (snd (client_send_line line w))" "same_socket w (send_built built w)"
  by (simp_all add: same_socket_def send_built_def client_send_line_def split_beta)

lemma same_socket_display: "same_socket w (display_server_message resp w)"
  by (auto simp: same_socket_def display_server_message_def print_history_payload_def client_print_def
      client_set_running_def Let_def split: server_resp.split)

lemma same_socket_trans: "same_socket w w' \<Longrightarrow> same_socket w' w'' \<Longrightarrow> same_socket w w''"
  by (auto simp: same_socket_def)

lemma same_socket_input: "same_socket w (snd (client_input input w))"
  unfolding client_input_def Let_def by (simp add: split_beta split: option.split)

lemma same_socket_user: "same_socket w (snd (user_line input w))"
  using same_socket_input [of w input] by (simp add: user_line_def Let_def split_beta)

lemma same_socket_recv: "same_socket w (snd (recv_line_act line w))"
  using same_socket_display [of w "snd (protocol_parse_server_line (c_str line))"]
  by (simp add: recv_line_act_def kick_notice_def Let_def split_beta)

lemma same_socketD:
  assumes "same_socket w w'"
  shows "cl_sockfd w' = cl_sockfd w" "cw_closed w' = cw_closed w" "cw_shutdown w' = cw_shutdown w"
    "cl_receiver_started w' = cl_receiver_started w" "cl_running w' \<Longrightarrow> cl_running w"
    "\<not> cl_running w \<Longrightarrow> cw_wire w' = cw_wire w" "\<exists>s. cw_wire w' = cw_wire w @ s"
  using assms by (simp_all add: same_socket_def)

inductive_cases client_stepE: "client_step s s'"

text \<open>A step of the input loop, by what it may change.\<close>

lemma user_line_target: "fst (user_line input w) \<noteq> U_Read \<and> fst (user_line input w) \<noteq> U_Join \<and>
    fst (user_line input w) \<noteq> U_Done"
  by (simp add: user_line_def Let_def split_beta)

lemma user_act_cases:
  assumes "user_act r u (stdin, w) = Some (u', stdin', w')"
  obtains (call) "same_socket w w'" "u' \<noteq> U_Join" "u' \<noteq> U_Done" "u \<noteq> U_Join" "u \<noteq> U_Done"
      "u' = U_Read \<Longrightarrow> u = U_Test \<and> cl_running w"
      "stdin' = stdin \<or> u = U_Read \<and> (\<exists>l. fgets_line MAX_LINE_LEN stdin = Some (l, stdin'))"
  | (down) "u = U_Shutdown" "u' = U_Join" "stdin' = stdin" "w' = client_shutdown w"
  | (joined) "u = U_Join" "u' = U_Done" "r = R_Left" "stdin' = stdin" "w' = w\<lparr>cl_receiver_started := False\<rparr>"
proof (cases u)
  case (U_Line input)
  then have "u' = fst (user_line input w)" "w' = snd (user_line input w)" "stdin' = stdin"
    using assms by (auto split: prod.splits)
  with U_Line user_line_target [of input w] same_socket_user [of w input] show ?thesis by (intro call) simp_all
next
  case U_Read
  then show ?thesis using assms by (intro call) (auto split: option.splits)
qed (use assms in \<open>auto split: if_splits intro: call down joined\<close>)

section \<open>Invariants\<close>

definition client_inv :: "client_world \<Rightarrow> client_sys \<Rightarrow> bool" where
  "client_inv w0 s \<longleftrightarrow> cl_sockfd (cs_world s) = cl_sockfd w0 \<and> cw_closed (cs_world s) = cw_closed w0 \<and>
     cl_receiver_started (cs_world s) = (cs_user s \<noteq> U_Done) \<and> (cs_user s = U_Done \<longrightarrow> cs_recv s = R_Left) \<and>
     cw_shutdown (cs_world s) = (if cs_user s = U_Join \<or> cs_user s = U_Done then cl_sockfd w0 # cw_shutdown w0
       else cw_shutdown w0) \<and> (\<exists>t. cw_wire (cs_world s) = cw_wire w0 @ t)"

lemma client_inv_same:
  assumes "client_inv w0 s" and "same_socket (cs_world s) w'" and "cs_recv s \<noteq> R_Left"
  shows "client_inv w0 (s\<lparr>cs_world := w', cs_line := line', cs_recv := r\<rparr>)"
    and "client_inv w0 (s\<lparr>cs_world := w', cs_recv := r\<rparr>)"
  using assms same_socketD [OF assms(2)] by (auto simp: client_inv_def)

lemma client_step_inv:
  assumes "client_step s s'" and "client_inv w0 s" and "0 \<le> cl_sockfd w0"
  shows "client_inv w0 s'"
  using assms(1)
proof (cases rule: client_step.cases)
  case (c_user u stdin' w')
  from c_user(2) show ?thesis
  proof (cases rule: user_act_cases)
    case call
    with c_user(1) assms(2) show ?thesis by (auto simp: client_inv_def dest: same_socketD)
  next
    case down
    with c_user(1) assms(2,3) show ?thesis by (auto simp: client_inv_def client_shutdown_def)
  next
    case joined
    with c_user(1) assms(2) show ?thesis by (auto simp: client_inv_def)
  qed
next
  case (c_line rs line' rs' r w')
  then have "same_socket (cs_world s) w'" using same_socket_recv [of "cs_world s" line'] by simp
  with client_inv_same [OF assms(2)] c_line show ?thesis by simp
next
  case (c_lost rs st line' rs')
  with client_inv_same [OF assms(2)] show ?thesis by (simp add: lost_notice_def)
next
  case c_clear
  then have "cs_recv s \<noteq> R_Left" by auto
  with client_inv_same(2) [OF assms(2)] c_clear(1) show ?thesis by simp
qed (use assms(2) in \<open>auto simp: client_inv_def\<close>)

lemma client_steps_inv:
  "client_step\<^sup>*\<^sup>* s s' \<Longrightarrow> client_inv w0 s \<Longrightarrow> 0 \<le> cl_sockfd w0 \<Longrightarrow> client_inv w0 s'"
  by (induction rule: rtranclp_induct) (auto intro: client_step_inv)

lemma client_inv_fork: "cl_receiver_started w \<Longrightarrow> client_inv w (client_fork w stdin line)"
  by (simp add: client_inv_def client_fork_def)

section \<open>Each thread alone\<close>

text \<open>A thread that is not disturbed by the other is the function of \<open>Client\<close>.\<close>

lemma user_step:
  assumes "user_act r u (stdin, w) = Some (u', stdin', w')"
  shows "client_step \<lparr>cs_world = w, cs_stdin = stdin, cs_user = u, cs_line = line, cs_recv = r\<rparr>
     \<lparr>cs_world = w', cs_stdin = stdin', cs_user = u', cs_line = line, cs_recv = r\<rparr>"
  using c_user [of "\<lparr>cs_world = w, cs_stdin = stdin, cs_user = u, cs_line = line, cs_recv = r\<rparr>" u' stdin' w'] assms
  by simp

lemma user_step2:
  assumes "user_act r u (stdin, w) = Some (u1, stdin1, w1)" and "user_act r u1 (stdin1, w1) = Some (u2, stdin2, w2)"
  shows "client_step\<^sup>*\<^sup>* \<lparr>cs_world = w, cs_stdin = stdin, cs_user = u, cs_line = line, cs_recv = r\<rparr>
     \<lparr>cs_world = w2, cs_stdin = stdin2, cs_user = u2, cs_line = line, cs_recv = r\<rparr>"
  by (rule converse_rtranclp_into_rtranclp, rule user_step, rule assms(1), rule r_into_rtranclp, rule user_step, rule assms(2))

lemma client_input_message:
  assumes "is_message input"
  shows "client_input input w =
    (let built = protocol_build_client_msg MAX_LINE_LEN input
     in if fst built \<noteq> CHAT_OK then (True, w)
        else let (st, w1) = client_send_line (snd built) w
             in if st \<noteq> CHAT_OK then (False, client_set_running False w1) else (True, client_print ''> '' w1))"
  using assms by (simp add: client_input_def is_message_def)

lemma client_input_goes_on:
  assumes "\<not> is_message input" and "input \<noteq> ''/quit''" and "input \<noteq> ''/exit''"
  shows "fst (client_input input w)"
  using assms by (auto simp: client_input_def is_message_def split: option.split)

lemma user_line_alone:
  "client_step\<^sup>*\<^sup>* \<lparr>cs_world = w, cs_stdin = stdin, cs_user = U_Line input, cs_line = line, cs_recv = r\<rparr>
     \<lparr>cs_world = snd (client_input input w), cs_stdin = stdin,
      cs_user = (if fst (client_input input w) then U_Test else U_Shutdown), cs_line = line, cs_recv = r\<rparr>"
proof -
  consider "input = ''/quit'' \<or> input = ''/exit''" | "is_message input" |
    "\<not> is_message input" "input \<noteq> ''/quit''" "input \<noteq> ''/exit''" by blast
  then show ?thesis
  proof cases
    case 1
    let ?w1 = "send_built (protocol_build_client_quit MAX_LINE_LEN) w"
    have a: "user_act r (U_Line input) (stdin, w) = Some (U_Quit, stdin, ?w1)" using 1 by (simp add: user_line_def)
    have b: "user_act r U_Quit (stdin, ?w1) = Some (U_Shutdown, stdin, client_set_running False ?w1)" by simp
    have "client_step\<^sup>*\<^sup>* \<lparr>cs_world = w, cs_stdin = stdin, cs_user = U_Line input, cs_line = line, cs_recv = r\<rparr>
      \<lparr>cs_world = client_set_running False ?w1, cs_stdin = stdin, cs_user = U_Shutdown, cs_line = line, cs_recv = r\<rparr>"
      using a b by (rule user_step2)
    moreover have "client_input input w = (False, client_set_running False ?w1)" using 1 by (simp add: client_input_def)
    ultimately show ?thesis by simp
  next
    case 2
    let ?built = "protocol_build_client_msg MAX_LINE_LEN input"
    obtain st w1 where s: "client_send_line (snd ?built) w = (st, w1)" by (cases "client_send_line (snd ?built) w")
    from 2 have q: "input \<noteq> ''/quit''" "input \<noteq> ''/exit''" by (simp_all add: is_message_def)
    show ?thesis
    proof (cases "fst ?built = CHAT_OK")
      case False
      then have "user_act r (U_Line input) (stdin, w) = Some (U_Test, stdin, w)"
        using 2 q by (simp add: user_line_def Let_def)
      from user_step [OF this] False show ?thesis by (auto simp: client_input_message [OF 2] Let_def)
    next
      case True
      let ?u = "if st \<noteq> CHAT_OK then U_Shutdown else U_Test"
        and ?w2 = "if st \<noteq> CHAT_OK then client_set_running False w1 else client_print ''> '' w1"
      have "user_act r (U_Line input) (stdin, w) = Some (U_Sent st, stdin, w1)"
        using 2 q s True by (simp add: user_line_def Let_def)
      moreover have "user_act r (U_Sent st) (stdin, w1) = Some (?u, stdin, ?w2)" by simp
      ultimately have "client_step\<^sup>*\<^sup>* \<lparr>cs_world = w, cs_stdin = stdin, cs_user = U_Line input, cs_line = line, cs_recv = r\<rparr>
          \<lparr>cs_world = ?w2, cs_stdin = stdin, cs_user = ?u, cs_line = line, cs_recv = r\<rparr>"
        by (rule user_step2)
      moreover have "client_input input w = (st = CHAT_OK, ?w2)"
        using s True by (simp add: client_input_message [OF 2] Let_def)
      ultimately show ?thesis by (auto split: if_splits)
    qed
  next
    case 3
    then have "user_act r (U_Line input) (stdin, w) = Some (U_Test, stdin, snd (client_input input w))"
      by (simp add: user_line_def)
    from user_step [OF this] client_input_goes_on [OF 3] show ?thesis by auto
  qed
qed

lemma client_loop_alone:
  "\<exists>rest. client_step\<^sup>*\<^sup>* \<lparr>cs_world = w, cs_stdin = stdin, cs_user = U_Test, cs_line = line, cs_recv = r\<rparr>
     \<lparr>cs_world = client_loop stdin w, cs_stdin = rest, cs_user = U_Shutdown, cs_line = line, cs_recv = r\<rparr>"
proof (induction stdin w rule: client_loop.induct)
  case (1 stdin w)
  let ?s = "\<lambda>w stdin u. \<lparr>cs_world = w, cs_stdin = stdin, cs_user = u, cs_line = line, cs_recv = r\<rparr>"
  show ?case
  proof (cases "cl_running w")
    case False
    then have "client_step (?s w stdin U_Test) (?s w stdin U_Shutdown)" by (intro user_step) simp
    with False show ?thesis by (auto simp: client_loop.simps [of stdin w])
  next
    case run: True
    then have t: "client_step (?s w stdin U_Test) (?s w stdin U_Read)" by (intro user_step) simp
    show ?thesis
    proof (cases "fgets_line 2048 stdin")
      case None
      then have "client_step (?s w stdin U_Read) (?s w stdin U_Shutdown)" by (intro user_step) simp
      with t have "client_step\<^sup>*\<^sup>* (?s w stdin U_Test) (?s w stdin U_Shutdown)" by simp
      with None run show ?thesis by (auto simp: client_loop.simps [of stdin w])
    next
      case (Some p)
      then obtain l rest where p: "fgets_line 2048 stdin = Some (l, rest)" by (cases p) auto
      let ?in = "trim_newline (c_str l)"
      obtain go w' where i: "client_input ?in w = (go, w')" by (cases "client_input ?in w")
      have "client_step (?s w stdin U_Read) (?s w rest (U_Line ?in))" using p by (intro user_step) simp
      with t have "client_step\<^sup>*\<^sup>* (?s w stdin U_Test) (?s w rest (U_Line ?in))" by simp
      moreover have "client_step\<^sup>*\<^sup>* (?s w rest (U_Line ?in)) (?s w' rest (if go then U_Test else U_Shutdown))"
        using user_line_alone [of w rest ?in line r] i by simp
      ultimately have s: "client_step\<^sup>*\<^sup>* (?s w stdin U_Test) (?s w' rest (if go then U_Test else U_Shutdown))"
        by (rule rtranclp_trans)
      show ?thesis
      proof (cases go)
        case True
        with 1 [of "(l, rest)" l rest "(go, w')" go w'] run p i obtain rest' where "client_step\<^sup>*\<^sup>* (?s w' rest U_Test) (?s (client_loop rest w') rest' U_Shutdown)"
          by auto
        with s True have "client_step\<^sup>*\<^sup>* (?s w stdin U_Test) (?s (client_loop rest w') rest' U_Shutdown)"
          by (auto intro: rtranclp_trans)
        with run p i True show ?thesis by (auto simp: client_loop.simps [of stdin w])
      next
        case False
        with s run p i show ?thesis by (auto simp: client_loop.simps [of stdin w])
      qed
    qed
  qed
qed

lemma display_kicked:
  "pr_type resp = RESP_KICKED \<Longrightarrow> display_server_message resp w = client_set_running False (kick_notice (pr_message resp) w)"
  by (simp add: display_server_message_def kick_notice_def Let_def)

lemma receiver_alone:
  "receiver_thread rs line w = Some w' \<Longrightarrow>
   \<exists>line'. client_step\<^sup>*\<^sup>* \<lparr>cs_world = w, cs_stdin = stdin, cs_user = u, cs_line = line, cs_recv = R_Test\<rparr>
     \<lparr>cs_world = w', cs_stdin = stdin, cs_user = u, cs_line = line', cs_recv = R_Left\<rparr>"
proof (induction rs line w rule: receiver_thread.induct)
  case (1 rs line w)
  let ?s = "\<lambda>w line r. \<lparr>cs_world = w, cs_stdin = stdin, cs_user = u, cs_line = line, cs_recv = r\<rparr>"
  show ?case
  proof (cases "cl_running w")
    case False
    then have "client_step (?s w line R_Test) (?s w line R_Left)" using c_stop [of "?s w line R_Test"] by simp
    moreover have "w' = w" using "1.prems" False by (simp add: receiver_thread.simps [of rs line w])
    ultimately show ?thesis by blast
  next
    case run: True
    then have t: "client_step (?s w line R_Test) (?s w line R_Recv)" using c_recv [of "?s w line R_Test"] by simp
    obtain st line' rs' where rc: "client_recv_line (cl_sockfd w) rs line 2048 = Some (st, line', rs')"
      using "1.prems" run by (auto simp: receiver_thread.simps [of rs line w] split: option.splits)
    show ?thesis
    proof (cases "st = CHAT_OK")
      case False
      have l: "client_step (?s w line R_Recv) (?s (lost_notice w) line' R_Lost)"
        using c_lost [of "?s w line R_Recv" rs st line' rs'] rc False by simp
      have c: "client_step (?s (lost_notice w) line' R_Lost) (?s (client_set_running False (lost_notice w)) line' R_Left)"
        using c_clear [of "?s (lost_notice w) line' R_Lost"] by simp
      have "w' = client_set_running False (lost_notice w)"
        using "1.prems" run rc False by (simp add: receiver_thread.simps [of rs line w] lost_notice_def)
      moreover have "client_step\<^sup>*\<^sup>* (?s w line R_Test) (?s (client_set_running False (lost_notice w)) line' R_Left)"
        by (rule converse_rtranclp_into_rtranclp, rule t, rule converse_rtranclp_into_rtranclp, rule l,
            rule r_into_rtranclp, rule c)
      ultimately show ?thesis by blast
    next
      case ok: True
      obtain pst resp where p: "protocol_parse_server_line (c_str line') = (pst, resp)"
        by (cases "protocol_parse_server_line (c_str line')")
      let ?w1 = "if pst \<noteq> CHAT_OK then client_print (LF # ''[server] '' @ c_str line' @ LF # ''> '') w
        else display_server_message resp w"
      obtain r w2 where a: "recv_line_act line' w = (r, w2)" by (cases "recv_line_act line' w")
      have l: "client_step (?s w line R_Recv) (?s w2 line' r)"
        using c_line [of "?s w line R_Recv" rs line' rs' r w2] rc ok a by simp
      have c: "client_step\<^sup>*\<^sup>* (?s w2 line' r) (?s ?w1 line' R_Test)"
      proof (cases "pst = CHAT_OK \<and> pr_type resp = RESP_KICKED")
        case True
        with a p have "r = R_Kicked" "w2 = kick_notice (pr_message resp) w" by (simp_all add: recv_line_act_def)
        with c_clear [of "?s w2 line' r"] True show ?thesis by (auto simp: display_kicked)
      next
        case False
        with a p show ?thesis by (auto simp: recv_line_act_def Let_def split: if_splits)
      qed
      have s: "client_step\<^sup>*\<^sup>* (?s w line R_Test) (?s ?w1 line' R_Test)"
        by (rule converse_rtranclp_into_rtranclp, rule t, rule converse_rtranclp_into_rtranclp, rule l, rule c)
      have more: "receiver_thread rs' line' ?w1 = Some w'"
        using "1.prems" run rc ok p by (cases "pst = CHAT_OK") (simp_all add: receiver_thread.simps [of rs line w])
      have "\<exists>line''. client_step\<^sup>*\<^sup>* (?s ?w1 line' R_Test) (?s w' line'' R_Left)"
      proof (cases "pst = CHAT_OK")
        case True
        with 1(2) [of "(st, line', rs')" st "(line', rs')" line' rs' "(pst, resp)" pst resp] run rc ok p more
        show ?thesis by simp
      next
        case False
        with 1(1) [of "(st, line', rs')" st "(line', rs')" line' rs' "(pst, resp)" pst resp] run rc ok p more
        show ?thesis by simp
      qed
      with s show ?thesis by (blast intro: rtranclp_trans)
    qed
  qed
qed

text \<open>
  \<open>client_run\<close> can return, whatever is on standard input: for one, when the receiver waits
  until the socket is shut down and then ends.
\<close>

lemma client_fork_returns:
  assumes "length line = MAX_LINE_LEN"
  shows "\<exists>s. client_step\<^sup>*\<^sup>* (client_fork w stdin line) s \<and> cs_user s = U_Done"
proof -
  let ?s = "\<lambda>w stdin u r. \<lparr>cs_world = w, cs_stdin = stdin, cs_user = u, cs_line = line, cs_recv = r\<rparr>"
  let ?w0 = "client_print (client_greeting (cw_colors w)) w"
  have 1: "client_step (client_fork w stdin line) (?s ?w0 stdin U_Test R_Test)"
    unfolding client_fork_def by (rule user_step) simp
  obtain rest where 2: "client_step\<^sup>*\<^sup>* (?s ?w0 stdin U_Test R_Test) (?s (client_loop stdin ?w0) rest U_Shutdown R_Test)"
    using client_loop_alone by blast
  let ?w1 = "client_shutdown (client_loop stdin ?w0)"
  have 3: "client_step (?s (client_loop stdin ?w0) rest U_Shutdown R_Test) (?s ?w1 rest U_Join R_Test)"
    by (rule user_step) simp
  have "\<exists>w2. receiver_thread [Recv_Err] line ?w1 = Some w2"
    using assms by (simp add: receiver_thread.simps [of "[Recv_Err]"] client_recv_line_def)
  then obtain w2 line' where 4: "client_step\<^sup>*\<^sup>* (?s ?w1 rest U_Join R_Test)
      \<lparr>cs_world = w2, cs_stdin = rest, cs_user = U_Join, cs_line = line', cs_recv = R_Left\<rparr>"
    using receiver_alone by blast
  let ?final = "\<lparr>cs_world = w2\<lparr>cl_receiver_started := False\<rparr>, cs_stdin = rest, cs_user = U_Done, cs_line = line', cs_recv = R_Left\<rparr>"
  have 5: "client_step \<lparr>cs_world = w2, cs_stdin = rest, cs_user = U_Join, cs_line = line', cs_recv = R_Left\<rparr> ?final"
    by (rule user_step) simp
  from 1 2 3 4 5 have "client_step\<^sup>*\<^sup>* (client_fork w stdin line) ?final"
    by (meson converse_rtranclp_into_rtranclp rtranclp.rtrancl_into_rtrancl rtranclp_trans)
  then show ?thesis by (intro exI [of _ ?final]) simp
qed

lemma client_run_can_return: "\<exists>st w'. client_run thread_ok u p stdin w st w'"
proof -
  obtain st w1 rest where r: "client_run_start thread_ok u p stdin w = (st, w1, rest)"
    by (cases "client_run_start thread_ok u p stdin w") auto
  have line: "length (replicate MAX_LINE_LEN NUL) = MAX_LINE_LEN" by (simp only: length_replicate)
  show ?thesis
  proof (cases "st = CHAT_OK")
    case True
    from client_fork_returns [OF line] obtain s where "client_step\<^sup>*\<^sup>* (client_fork w1 rest (replicate MAX_LINE_LEN NUL)) s"
      "cs_user s = U_Done" by blast
    with r True line show ?thesis by (blast intro: client_run.run_returns)
  next
    case False
    with r show ?thesis by (blast intro: client_run.run_fails)
  qed
qed

text \<open>A user who only quits.\<close>

lemma client_loop_quit:
  "client_loop (''/quit'' @ [LF]) w =
     (if cl_running w then client_set_running False (send_built (protocol_build_client_quit MAX_LINE_LEN) w) else w)"
proof -
  have r: "fgets_line 2048 (''/quit'' @ LF # []) = Some (''/quit'' @ [LF], [])" by (rule fgets_line_short) simp_all
  have t: "trim_newline (c_str (''/quit'' @ [LF])) = ''/quit''"
    by (simp add: c_str_def trim_newline.simps)
  show ?thesis using r t by (subst client_loop.simps) (simp add: client_input_def)
qed

section \<open>A client that has lost its server\<close>

text \<open>The user is about to type a line, and the server ends the connection.\<close>

definition lost_client :: client_sys where
  "lost_client = \<lparr>cs_world = client_set_running False (lost_notice sample_client), cs_stdin = ''hi'' @ [LF],
     cs_user = U_Read, cs_line = replicate 2048 NUL, cs_recv = R_Left\<rparr>"

lemma lost_client_reached:
  "client_step\<^sup>*\<^sup>* (client_start sample_client (''hi'' @ [LF]) (replicate 2048 NUL)) lost_client"
proof -
  let ?line = "replicate 2048 NUL" and ?in = "''hi'' @ [LF]"
  let ?s = "\<lambda>w u r. \<lparr>cs_world = w, cs_stdin = ?in, cs_user = u, cs_line = ?line, cs_recv = r\<rparr>"
  let ?w = "lost_notice sample_client"
  have 1: "client_step (?s sample_client U_Test R_Test) (?s sample_client U_Read R_Test)"
    by (rule user_step) (simp add: sample_client_def)
  have 2: "client_step (?s sample_client U_Read R_Test) (?s sample_client U_Read R_Recv)"
    using c_recv [of "?s sample_client U_Read R_Test"] by (simp add: sample_client_def)
  have 3: "client_step (?s sample_client U_Read R_Recv) (?s ?w U_Read R_Lost)"
    using c_lost [of "?s sample_client U_Read R_Recv" "[Recv_EOF]" CHAT_ERR_IO ?line "[]"]
    by (simp add: client_recv_line_def sample_client_def)
  have 4: "client_step (?s ?w U_Read R_Lost) (?s (client_set_running False ?w) U_Read R_Left)"
    using c_clear [of "?s ?w U_Read R_Lost"] by simp
  show ?thesis unfolding client_start_def lost_client_def
    by (rule converse_rtranclp_into_rtranclp, rule 1, rule converse_rtranclp_into_rtranclp, rule 2,
        rule converse_rtranclp_into_rtranclp, rule 3, rule r_into_rtranclp, rule 4)
qed

lemma lost_client_simps:
  "cs_user lost_client = U_Read" "cs_recv lost_client = R_Left" "cs_stdin lost_client = ''hi'' @ [LF]"
  "\<not> cl_running (cs_world lost_client)" "cw_wire (cs_world lost_client) = []"
  by (simp_all add: lost_client_def lost_notice_def client_print_def client_set_running_def sample_client_def)

lemma lost_client_goes_on:
  "\<exists>s. client_step\<^sup>*\<^sup>* lost_client s \<and> cs_stdin s = []"
proof -
  have r: "fgets_line 2048 (''hi'' @ LF # []) = Some (''hi'' @ [LF], [])" by (rule fgets_line_short) simp_all
  then have "client_step lost_client (lost_client\<lparr>cs_world := cs_world lost_client, cs_stdin := [],
      cs_user := U_Line (trim_newline (c_str (''hi'' @ [LF])))\<rparr>)"
    by (intro c_user) (simp add: lost_client_simps)
  then have "client_step\<^sup>*\<^sup>* lost_client \<lparr>cs_world = cs_world lost_client, cs_stdin = [],
      cs_user = U_Line (trim_newline (c_str (''hi'' @ [LF]))), cs_line = replicate 2048 NUL, cs_recv = R_Left\<rparr>"
    by (auto simp: lost_client_def)
  from rtranclp_trans [OF this user_line_alone] show ?thesis by (intro exI conjI) (assumption, simp)
qed

section \<open>Properties\<close>

text \<open>
  Property C23. The client closes its socket once and not under its receiver: however the two
  threads interleave, the descriptor stays the same and open while either runs; when
  \<open>client_run\<close> returns, the socket has been shut down once and the receiver has ended; and
  \<open>client_destroy\<close> then closes it.
\<close>

theorem client_closes_after_join:
  assumes "client_step\<^sup>*\<^sup>* (client_start w stdin line) s" and "0 \<le> cl_sockfd w" and "cl_receiver_started w"
  shows "cl_sockfd (cs_world s) = cl_sockfd w \<and> cw_closed (cs_world s) = cw_closed w \<and>
     (cs_user s = U_Done \<longrightarrow> cs_recv s = R_Left \<and> \<not> cl_receiver_started (cs_world s) \<and>
        cw_shutdown (cs_world s) = cl_sockfd w # cw_shutdown w \<and>
        cw_closed (client_destroy (cs_world s)) = cl_sockfd w # cw_closed w)"
proof -
  have "client_inv w (client_start w stdin line)" using assms(3) by (simp add: client_inv_def client_start_def)
  with assms(1) have "client_inv w s"
    by (induction rule: rtranclp_induct) (auto intro: client_step_inv [OF _ _ assms(2)])
  with assms(2) show ?thesis
    by (auto simp: client_inv_def client_destroy_def client_disconnect_def client_set_running_def Let_def)
qed

theorem client_closes_after_join_witness:
  "\<exists>s. client_step\<^sup>*\<^sup>* (client_start sample_client (''/quit'' @ [LF]) (replicate 2048 NUL)) s \<and>
     cs_user s = U_Done \<and> cw_wire (cs_world s) = ''QUIT'' @ [LF] \<and> cw_closed (client_destroy (cs_world s)) = [4]"
proof -
  let ?line = "replicate 2048 NUL"
  let ?s = "\<lambda>w stdin u r. \<lparr>cs_world = w, cs_stdin = stdin, cs_user = u, cs_line = ?line, cs_recv = r\<rparr>"
  obtain w1 where e: "client_loop (''/quit'' @ [LF]) sample_client = w1" by blast
  have w1: "w1 = sample_client\<lparr>cw_wire := ''QUIT'' @ [LF], cl_running := False\<rparr>"
    unfolding e [symmetric] client_loop_quit
    by (simp add: client_set_running_def send_built_def client_send_line_def protocol_build_client_quit_def
        snprintf_line_def sample_client_def)
  obtain rest where 1: "client_step\<^sup>*\<^sup>* (?s sample_client (''/quit'' @ [LF]) U_Test R_Test) (?s w1 rest U_Shutdown R_Test)"
    using client_loop_alone [of sample_client "''/quit'' @ [LF]"] unfolding e by blast
  let ?w2 = "client_shutdown w1"
  have 2: "client_step (?s w1 rest U_Shutdown R_Test) (?s ?w2 rest U_Join R_Test)" by (rule user_step) simp
  have nr: "\<not> cl_running ?w2" using w1 by (simp add: client_shutdown_def sample_client_def)
  have 3: "client_step (?s ?w2 rest U_Join R_Test) (?s ?w2 rest U_Join R_Left)"
    using c_stop [of "?s ?w2 rest U_Join R_Test"] nr by simp
  let ?w3 = "?w2\<lparr>cl_receiver_started := False\<rparr>"
  have 4: "client_step (?s ?w2 rest U_Join R_Left) (?s ?w3 rest U_Done R_Left)" by (rule user_step) simp
  have run: "client_step\<^sup>*\<^sup>* (client_start sample_client (''/quit'' @ [LF]) ?line) (?s ?w3 rest U_Done R_Left)"
    unfolding client_start_def
    by (rule rtranclp.rtrancl_into_rtrancl, rule rtranclp.rtrancl_into_rtrancl, rule rtranclp.rtrancl_into_rtrancl,
        rule 1, rule 2, rule 3, rule 4)
  have "0 \<le> cl_sockfd sample_client" "cl_receiver_started sample_client" by (simp_all add: sample_client_def)
  from client_closes_after_join [OF run this] have "cw_closed (client_destroy ?w3) = [4]" by (simp add: sample_client_def)
  moreover have "cw_wire ?w3 = ''QUIT'' @ [LF]" using w1 by (simp add: client_shutdown_def sample_client_def)
  ultimately show ?thesis using run by (intro exI [of _ "?s ?w3 rest U_Done R_Left"]) simp
qed

text \<open>
  Property C24. A client that has stopped is silent: once \<open>running\<close> is cleared, by a kick, a
  lost connection, \<open>/quit\<close> or a failed send, it is never set again, no byte is written to the
  socket any more, and at most one more line is taken from standard input, the one the
  input loop was waiting for.
\<close>

theorem stopped_client_is_silent:
  assumes "client_step\<^sup>*\<^sup>* s s'" and "\<not> cl_running (cs_world s)"
  shows "\<not> cl_running (cs_world s') \<and> cw_wire (cs_world s') = cw_wire (cs_world s) \<and>
     (cs_stdin s' = cs_stdin s \<or>
      cs_user s = U_Read \<and> (\<exists>l. fgets_line MAX_LINE_LEN (cs_stdin s) = Some (l, cs_stdin s')))"
proof -
  let ?P = "\<lambda>s'. \<not> cl_running (cs_world s') \<and> cw_wire (cs_world s') = cw_wire (cs_world s) \<and>
     (cs_user s' = U_Read \<longrightarrow> cs_user s = U_Read \<and> cs_stdin s' = cs_stdin s) \<and>
     (cs_stdin s' = cs_stdin s \<or>
      cs_user s = U_Read \<and> (\<exists>l. fgets_line MAX_LINE_LEN (cs_stdin s) = Some (l, cs_stdin s')))"
  have "?P s'" using assms(1)
  proof (induction rule: rtranclp_induct)
    case base
    with assms(2) show ?case by simp
  next
    case (step x y)
    from step(2) show ?case
    proof (cases rule: client_step.cases)
      case (c_user u stdin' w')
      from c_user(2) show ?thesis
      proof (cases rule: user_act_cases)
        case call
        with c_user(1) step.IH show ?thesis by (auto dest: same_socketD)
      qed (use c_user(1) step.IH in \<open>auto simp: client_shutdown_def\<close>)
    next
      case (c_line rs line' rs' r w')
      then have "same_socket (cs_world x) w'" using same_socket_recv [of "cs_world x" line'] by simp
      with c_line(1) step.IH show ?thesis by (auto dest: same_socketD)
    qed (use step.IH in \<open>auto simp: lost_notice_def client_print_def client_set_running_def\<close>)
  qed
  then show ?thesis by blast
qed

theorem stopped_client_is_silent_witness:
  "\<exists>s. client_step\<^sup>*\<^sup>* lost_client s \<and> cs_stdin lost_client = ''hi'' @ [LF] \<and> cs_stdin s = [] \<and> cw_wire (cs_world s) = []"
proof -
  obtain s where s: "client_step\<^sup>*\<^sup>* lost_client s" "cs_stdin s = []" using lost_client_goes_on by blast
  with stopped_client_is_silent [OF s(1) lost_client_simps(4)] show ?thesis by (auto simp: lost_client_simps)
qed

text \<open>
  Property C35. The client does not end when its server does: a client whose receiver has ended,
  the connection lost or the user kicked, while the input loop is in \<open>fgets\<close>, stays there
  until a line is typed or standard input ends, whatever else happens.
\<close>

theorem client_waits_for_a_line:
  assumes "client_step\<^sup>*\<^sup>* s s'" and "cs_user s = U_Read" and "cs_stdin s \<noteq> []" and "cs_stdin s' = cs_stdin s"
  shows "cs_user s' = U_Read \<and> (cs_recv s = R_Left \<longrightarrow> cs_recv s' = R_Left \<and> cw_out (cs_world s') = cw_out (cs_world s))"
proof -
  let ?P = "\<lambda>s'. length (cs_stdin s') < length (cs_stdin s) \<or> cs_stdin s' = cs_stdin s \<and> cs_user s' = U_Read \<and>
     (cs_recv s = R_Left \<longrightarrow> cs_recv s' = R_Left \<and> cw_out (cs_world s') = cw_out (cs_world s))"
  have "?P s'" using assms(1)
  proof (induction rule: rtranclp_induct)
    case base
    with assms(2) show ?case by simp
  next
    case (step x y)
    from step(2) show ?case
    proof (cases rule: client_step.cases)
      case (c_user u stdin' w')
      have short: "length stdin' \<le> length (cs_stdin x)"
        using c_user(2) by (cases rule: user_act_cases) (auto dest!: fgets_line_shorter)
      show ?thesis
      proof (cases "length (cs_stdin x) < length (cs_stdin s)")
        case True
        with short c_user(1) show ?thesis by simp
      next
        case False
        with step.IH have x: "cs_stdin x = cs_stdin s" "cs_user x = U_Read" by auto
        with assms(3) obtain l rest where l: "fgets_line 2048 (cs_stdin s) = Some (l, rest)"
          by (auto simp: fgets_line_def Let_def)
        with c_user x have "stdin' = rest" by simp
        with fgets_line_shorter [OF l] c_user(1) show ?thesis by simp
      qed
    qed (use step.IH in auto)
  qed
  with assms(4) show ?thesis by simp
qed

theorem client_waits_for_a_line_witness:
  "\<exists>s. client_step\<^sup>*\<^sup>* lost_client s \<and> cw_script (cs_world s) = [Sent 1] \<and> cs_stdin s = ''hi'' @ [LF] \<and> cs_user s = U_Read \<and>
     cw_out (cs_world s) = LF # ''*** Server disconnected ***'' @ [LF]"
proof -
  let ?s = "lost_client\<lparr>cs_world := (cs_world lost_client)\<lparr>cw_script := [Sent 1]\<rparr>\<rparr>"
  have s: "client_step\<^sup>*\<^sup>* lost_client ?s" using c_kernel by (rule r_into_rtranclp)
  have out: "cw_out (cs_world lost_client) = LF # ''*** Server disconnected ***'' @ [LF]"
    by (simp add: lost_client_def lost_notice_def client_print_def client_set_running_def sample_client_def
        C_RED_def C_RESET_def esc_def)
  have "cs_user ?s = U_Read \<and> cw_out (cs_world ?s) = cw_out (cs_world lost_client)"
    using client_waits_for_a_line [OF s lost_client_simps(1)] by (simp add: lost_client_simps)
  with s out show ?thesis by (intro exI [of _ ?s]) (simp add: lost_client_simps)
qed

text \<open>
  Left alone, each thread is its function: the steps of the input loop, while the
  receiver takes none, lead to the state \<open>client_loop\<close> computes for the same standard input, and
  those of the receiver, while the user types nothing, to the one \<open>receiver_thread\<close> computes
  for the same stream, whenever it returns.
\<close>

theorem client_threads_alone:
  "(\<exists>rest. client_step\<^sup>*\<^sup>* \<lparr>cs_world = w, cs_stdin = stdin, cs_user = U_Test, cs_line = line, cs_recv = r\<rparr>
      \<lparr>cs_world = client_loop stdin w, cs_stdin = rest, cs_user = U_Shutdown, cs_line = line, cs_recv = r\<rparr>) \<and>
   (\<forall>w'. receiver_thread rs line w = Some w' \<longrightarrow>
      (\<exists>line'. client_step\<^sup>*\<^sup>* \<lparr>cs_world = w, cs_stdin = stdin, cs_user = u, cs_line = line, cs_recv = R_Test\<rparr>
         \<lparr>cs_world = w', cs_stdin = stdin, cs_user = u, cs_line = line', cs_recv = R_Left\<rparr>))"
  using client_loop_alone [of w stdin line r] receiver_alone [of rs line w _ stdin u] by blast

theorem client_threads_alone_witness:
  "\<exists>line' w'. client_step\<^sup>*\<^sup>* (client_start sample_client [] (replicate 2048 NUL))
     \<lparr>cs_world = w', cs_stdin = [], cs_user = U_Test, cs_line = line', cs_recv = R_Left\<rparr> \<and> \<not> cl_running w'"
proof -
  let ?w' = "client_set_running False (lost_notice sample_client)"
  have "receiver_thread [Recv_EOF] (replicate 2048 NUL) sample_client = Some ?w'"
    by (simp add: receiver_thread.simps [of "[Recv_EOF]"] client_recv_line_def sample_client_def lost_notice_def)
  with client_threads_alone [of sample_client "[]" "replicate 2048 NUL" R_Test "[Recv_EOF]" U_Test]
  have "\<exists>line'. client_step\<^sup>*\<^sup>* (client_start sample_client [] (replicate 2048 NUL))
     \<lparr>cs_world = ?w', cs_stdin = [], cs_user = U_Test, cs_line = line', cs_recv = R_Left\<rparr>"
    unfolding client_start_def by blast
  moreover have "\<not> cl_running ?w'" by (simp add: client_set_running_def)
  ultimately show ?thesis by blast
qed

end
