(* ===== verification/Main_Programs.thy ===== *)
theory Main_Programs
  imports Interleaving_Refinement Client_System
begin

text \<open>
  The two \<open>main\<close> functions, \<open>src/server/main.c\<close> and \<open>src/client/main.c\<close>: how the parts modelled
  in the other theories are put together, from the command line to the exit status.
\<close>

section \<open>The server\<close>

text \<open>
  What a process does about its signals: whether \<open>g_server\<close> is set, and the action for every
  signal. A process starts with the actions it has inherited, which are the default or to ignore.
\<close>

datatype signal = SIGINT | SIGTERM | SIGPIPE | Other_Signal nat

datatype disposition = Sig_Default | Sig_Ignore | Sig_Handler

record signal_state =
  sg_server :: bool
  sg_action :: "signal \<Rightarrow> disposition"

definition sigaction :: "signal \<Rightarrow> disposition \<Rightarrow> signal_state \<Rightarrow> signal_state" where
  "sigaction sig new sg = sg\<lparr>sg_action := (sg_action sg)(sig := new)\<rparr>"

definition server_install_signal_handlers :: "signal_state \<Rightarrow> signal_state" where
  "server_install_signal_handlers sg =
     sigaction SIGTERM Sig_Handler (sigaction SIGINT Sig_Handler (sg\<lparr>sg_server := True\<rparr>))"

text \<open>A signal that arrives: \<^term>\<open>None\<close> when the default action ends the process.\<close>

definition deliver_signal :: "signal_state \<Rightarrow> signal \<Rightarrow> world \<Rightarrow> world option" where
  "deliver_signal sg sig w =
     (case sg_action sg sig of
        Sig_Default \<Rightarrow> None
      | Sig_Ignore \<Rightarrow> Some w
      | Sig_Handler \<Rightarrow> Some (signal_handler (sg_server sg) w))"

text \<open>What the system answers to \<open>socket\<close>, \<open>setsockopt\<close>, \<open>bind\<close>, \<open>listen\<close> and \<open>pthread_create\<close>.\<close>

record listen_env =
  le_fd :: int
  le_setsockopt :: bool
  le_bind :: bool
  le_listen :: bool
  le_thread :: bool

text \<open>
  How \<open>main\<close> gets to an exit status, or to the accept loop: \<open>Serving\<close> has the state in which the
  loop starts, and what the process does about signals from then on.
\<close>

datatype server_outcome =
    Usage_Failure
  | Init_Failure world
  | Run_Failure world
  | Bad_Pointer
  | Serving world signal_state

definition server_main ::
  "init_env \<Rightarrow> listen_env \<Rightarrow> bool \<Rightarrow> mq_message \<Rightarrow> (signal \<Rightarrow> disposition) \<Rightarrow> net \<Rightarrow> string list \<Rightarrow> server_outcome" where
  "server_main ie le mem_ok junk inherited net args =
     (case server_main_args args of
        None \<Rightarrow> Usage_Failure
      | Some (port, users_db) \<Rightarrow>
          (case server_init ie net port (Some users_db) of
             None \<Rightarrow> Bad_Pointer
           | Some (st, w) \<Rightarrow>
               if st \<noteq> CHAT_OK then Init_Failure w
               else
                 let sg = server_install_signal_handlers \<lparr>sg_server = False, sg_action = inherited\<rparr>;
                     (st, w1) = server_listen (le_fd le) (le_setsockopt le) (le_bind le) (le_listen le) (le_thread le) w
                 in if st \<noteq> CHAT_OK then
                      (case server_destroy (server_shutdown mem_ok junk w1) of
                         None \<Rightarrow> Bad_Pointer
                       | Some w2 \<Rightarrow> Run_Failure w2)
                    else Serving w1 sg))"

section \<open>The client\<close>

text \<open>What \<open>main\<close> does once the client is initialised.\<close>

inductive client_after_init ::
  "(int \<times> bool) list option \<Rightarrow> bool \<Rightarrow> string option \<Rightarrow> string option \<Rightarrow> string \<Rightarrow> client_world
    \<Rightarrow> bool \<Rightarrow> client_world \<Rightarrow> bool"
  for addresses thread_ok username password stdin w where
  not_connected: "client_after_init addresses thread_ok username password stdin w False (client_destroy w2)"
    if "client_connect addresses w = (st, w2)" and "st \<noteq> CHAT_OK"
| session_failed: "client_after_init addresses thread_ok username password stdin w False (client_destroy w3)"
    if "client_connect addresses w = (CHAT_OK, w2)"
      and "client_run thread_ok username password stdin w2 st w3" and "st \<noteq> CHAT_OK"
| session_over: "client_after_init addresses thread_ok username password stdin w
      True (client_print (''Disconnected.'' @ [LF]) (client_destroy w3))"
    if "client_connect addresses w = (CHAT_OK, w2)" and "client_run thread_ok username password stdin w2 CHAT_OK w3"

text \<open>
  \<open>main\<close> of the client, its two threads interleaved in any way: whether it exits with success,
  and the final state. \<open>resolve\<close> is what \<open>getaddrinfo\<close>, \<open>socket\<close> and \<open>connect\<close> answer for a host
  and a port.
\<close>

inductive client_main ::
  "(string \<Rightarrow> 16 word \<Rightarrow> (int \<times> bool) list option) \<Rightarrow> bool \<Rightarrow> bool \<Rightarrow> bool \<Rightarrow> bool \<Rightarrow> string \<Rightarrow> string list
    \<Rightarrow> client_world \<Rightarrow> bool \<Rightarrow> client_world \<Rightarrow> bool"
  for resolve tty lock_ok io_lock_ok thread_ok stdin args w where
  bad_usage: "client_main resolve tty lock_ok io_lock_ok thread_ok stdin args w False w"
    if "client_main_args args = None"
| init_failed: "client_main resolve tty lock_ok io_lock_ok thread_ok stdin args w False w1"
    if "client_main_args args = Some (host, port, username, password)"
      and "client_init tty lock_ok io_lock_ok w = (st, w1)" and "st \<noteq> CHAT_OK"
| ran: "client_main resolve tty lock_ok io_lock_ok thread_ok stdin args w success w'"
    if "client_main_args args = Some (host, port, username, password)"
      and "client_init tty lock_ok io_lock_ok w = (CHAT_OK, w1)"
      and "client_after_init (resolve host port) thread_ok username password stdin w1 success w'"

inductive_cases client_runE: "client_run thread_ok u p stdin w st w'"
inductive_cases client_after_initE: "client_after_init addresses thread_ok u p stdin w success w'"

section \<open>Facts\<close>

lemma client_send_line_OK:
  "client_send_line line w = (CHAT_OK, w') \<Longrightarrow> cw_wire w' = cw_wire w @ line \<and> 0 \<le> cl_sockfd w \<and> same_socket w w'"
proof -
  assume s: "client_send_line line w = (CHAT_OK, w')"
  obtain st out ks where l: "client_send_all (cw_script w) line (length line) 0 = (st, out, ks)"
    by (cases "client_send_all (cw_script w) line (length line) 0") auto
  have "same_socket w w'" using same_socket_send(1) [of w line] s by simp
  with s l snd_client.loop_prefix [OF _ l] show ?thesis
    by (auto simp: client_send_line_def Let_def split: if_splits)
qed

lemma ask_frame:
  "cw_wire (ask over prompt w) = cw_wire w" "same_socket w (ask over prompt w)"
  by (simp_all add: ask_def client_print_def same_socket_def)

lemma resolve_credentials_frame:
  assumes "resolve_credentials u p stdin w = (st, w', rest)"
  shows "cw_wire w' = cw_wire w" "same_socket w w'"
    and "st = CHAT_OK \<Longrightarrow> cl_username w' \<noteq> [] \<and> cl_password w' \<noteq> []"
proof -
  let ?w1 = "ask u ''Username: '' w"
  have "cw_wire w' = cw_wire w \<and> same_socket w w' \<and> (st = CHAT_OK \<longrightarrow> cl_username w' \<noteq> [] \<and> cl_password w' \<noteq> [])"
  proof (cases "resolve_field u MAX_USERNAME_LEN stdin")
    case None
    with assms show ?thesis by (auto simp: resolve_credentials_def Let_def ask_frame)
  next
    case (Some a)
    then obtain n r where a: "resolve_field u MAX_USERNAME_LEN stdin = Some (n, r)" by (cases a) auto
    let ?w2 = "ask p ''Password: '' (?w1\<lparr>cl_username := n\<rparr>)"
    have w2: "cw_wire ?w2 = cw_wire w" "same_socket w ?w2"
      using ask_frame(2) [where over = p and prompt = "''Password: ''" and w = "?w1\<lparr>cl_username := n\<rparr>"]
        ask_frame(2) [where over = u and prompt = "''Username: ''" and w = w]
      by (simp_all add: same_socket_def ask_frame(1))
    have name: "cl_username ?w2 = n" by (simp add: ask_def client_print_def)
    show ?thesis
    proof (cases "resolve_field p MAX_PASSWORD_LEN r")
      case None
      with assms a w2 show ?thesis by (auto simp: resolve_credentials_def Let_def)
    next
      case (Some b)
      then obtain pw r' where "resolve_field p MAX_PASSWORD_LEN r = Some (pw, r')" by (cases b) auto
      with assms a have "w' = ?w2\<lparr>cl_password := pw\<rparr>" "st = CHAT_OK \<Longrightarrow> n \<noteq> [] \<and> pw \<noteq> []"
        by (simp_all add: resolve_credentials_def Let_def split: if_splits)
      with w2 name show ?thesis by (simp add: same_socket_def)
    qed
  qed
  then show "cw_wire w' = cw_wire w" "same_socket w w'" "st = CHAT_OK \<Longrightarrow> cl_username w' \<noteq> [] \<and> cl_password w' \<noteq> []"
    by blast+
qed

lemma client_run_start_frame:
  assumes "client_run_start thread_ok u p stdin w = (st, w', rest)"
  shows "cl_sockfd w' = cl_sockfd w" "cw_closed w' = cw_closed w"
    and "st = CHAT_OK \<Longrightarrow> 0 \<le> cl_sockfd w \<and> cl_receiver_started w' \<and> cw_shutdown w' = cw_shutdown w \<and>
       (\<exists>u' p'. u' \<noteq> [] \<and> p' \<noteq> [] \<and> cw_wire w' = cw_wire w @ ''AUTH '' @ u' @ '' '' @ p' @ [LF])"
proof -
  obtain st1 w1 rest1 where r: "resolve_credentials u p stdin w = (st1, w1, rest1)"
    by (cases "resolve_credentials u p stdin w") auto
  note fr = resolve_credentials_frame [OF r]
  note s1 = same_socketD [OF fr(2)]
  let ?built = "protocol_build_client_auth MAX_LINE_LEN (cl_username w1) (cl_password w1)"
  obtain st2 w2 where l: "client_send_line (snd ?built) w1 = (st2, w2)" by (cases "client_send_line (snd ?built) w1")
  have s2: "same_socket w1 w2" using same_socket_send(1) [of w1 "snd ?built", unfolded l] by simp
  have w': "w' = w \<or> w' = w1 \<or> w' = w2 \<or> w' = w2\<lparr>cl_receiver_started := True\<rparr>"
    using assms l by (auto simp: client_run_start_def r Let_def split: if_splits)
  then show "cl_sockfd w' = cl_sockfd w" "cw_closed w' = cw_closed w"
    using s1(1,2) same_socketD(1,2) [OF s2] by auto
  assume "st = CHAT_OK"
  then have ok: "0 \<le> cl_sockfd w" "st1 = CHAT_OK" "fst ?built = CHAT_OK" "st2 = CHAT_OK" "w' = w2\<lparr>cl_receiver_started := True\<rparr>"
    using assms l by (auto simp: client_run_start_def r Let_def split: if_splits)
  then have "snd ?built = ''AUTH '' @ cl_username w1 @ '' '' @ cl_password w1 @ [LF]"
    by (simp add: protocol_build_client_auth_def snprintf_line_def split: if_splits)
  moreover have "cw_wire w2 = cw_wire w1 @ snd ?built" using client_send_line_OK l ok(4) by blast
  ultimately show "0 \<le> cl_sockfd w \<and> cl_receiver_started w' \<and> cw_shutdown w' = cw_shutdown w \<and>
       (\<exists>u' p'. u' \<noteq> [] \<and> p' \<noteq> [] \<and> cw_wire w' = cw_wire w @ ''AUTH '' @ u' @ '' '' @ p' @ [LF])"
    using ok fr s1(3) same_socketD(3) [OF s2] by auto
qed

lemma client_run_sockets:
  assumes "client_run thread_ok u p stdin w st w'"
  shows "cl_sockfd w' = cl_sockfd w \<and> cw_closed w' = cw_closed w \<and>
     (st = CHAT_OK \<longrightarrow> 0 \<le> cl_sockfd w \<and> cw_shutdown w' = cl_sockfd w # cw_shutdown w \<and>
        (\<exists>u' p' s. u' \<noteq> [] \<and> p' \<noteq> [] \<and> cw_wire w' = cw_wire w @ ''AUTH '' @ u' @ '' '' @ p' @ [LF] @ s))"
  using assms
proof (cases rule: client_run.cases)
  case (run_fails rest)
  with client_run_start_frame [OF run_fails(1)] show ?thesis by simp
next
  case (run_returns w1 rest line s)
  note start = client_run_start_frame [OF run_returns(3)]
  with client_steps_inv [OF run_returns(5) client_inv_fork] have "client_inv w1 s" by simp
  with run_returns(1,2,6) start show ?thesis by (fastforce simp: client_inv_def)
qed

lemma client_run_quits:
  assumes "0 \<le> cl_sockfd w" and "resolve_credentials u p stdin w = (CHAT_OK, w1, rest)"
    and "protocol_build_client_auth MAX_LINE_LEN (cl_username w1) (cl_password w1) = (CHAT_OK, line)"
    and "fst (client_send_line line w1) = CHAT_OK"
  shows "\<exists>w'. client_run True u p stdin w CHAT_OK w'"
proof -
  have ok: "fst (client_run_start True u p stdin w) = CHAT_OK"
    using assms by (simp add: client_run_start_def split_beta Let_def)
  obtain st w' where r: "client_run True u p stdin w st w'" using client_run_can_return by blast
  then have "st = CHAT_OK" by (cases rule: client_runE) (use ok in auto)
  with r show ?thesis by blast
qed

lemma server_listen_fails:
  assumes "server_listen fd a b c d w = (st, w1)" and "st \<noteq> CHAT_OK"
  shows "fd < 0 \<and> w1 = w\<lparr>sv_listen_fd := fd\<rparr> \<or>
     0 \<le> fd \<and> w1 = (sys_close fd (w\<lparr>sv_listen_fd := fd\<rparr>))\<lparr>sv_listen_fd := -1\<rparr>"
  using assms by (cases "fd < 0") (auto simp: server_listen_def abandon_listener_def Let_def split: if_splits)

text \<open>A start that fails: \<open>server_shutdown\<close> and \<open>server_destroy\<close> clear up after \<open>server_listen\<close>.\<close>

lemma server_start_aborts:
  assumes i: "server_init ie net port db = Some (CHAT_OK, w)"
    and l: "server_listen fd a b c d w = (st, w1)" and "st \<noteq> CHAT_OK"
  obtains w2 where "server_destroy (server_shutdown mem_ok junk w1) = Some w2"
    and "nt_closed (w_net w2) = (if 0 \<le> fd then fd # nt_closed net else nt_closed net)"
    and "mq_heap (sv_queue w2) = Map.empty" and "cr_nodes (sv_registry w2) = []"
    and "rm_rooms (sv_rooms w2) = []" and "ad_head (sv_auth w2) = []"
proof -
  let ?down = "server_shutdown mem_ok junk w1"
  have q: "sv_queue w1 = mq_empty" "sv_listen_fd w1 < 0"
      "nt_closed (w_net w1) = (if 0 \<le> fd then fd # nt_closed net else nt_closed net)"
    using server_listen_fails [OF l assms(3)] server_init_OK [OF i] by (auto simp: frame_simps sys_close_def)
  have closed: "nt_closed (w_net ?down) = (if 0 \<le> fd then fd # nt_closed net else nt_closed net)" "sv_listen_fd ?down < 0"
    using q(2,3) by (simp_all add: server_shutdown_def Let_def)
  have "mq_inv (sv_queue ?down)" using server_shutdown_queue(1) [of w1] q(1) mq_inv_empty by simp
  then obtain w2 where "server_destroy ?down = Some w2" "nt_closed (w_net w2) = nt_closed (w_net ?down)"
      "mq_heap (sv_queue w2) = Map.empty" "cr_nodes (sv_registry w2) = []" "rm_rooms (sv_rooms w2) = []" "ad_head (sv_auth w2) = []"
    using mq_destroy_spec [of "sv_queue ?down"] closed(2)
    by (auto simp: server_destroy_def Let_def registry_destroy_def room_manager_destroy_def auth_destroy_def)
  with that closed(1) show ?thesis by simp
qed

text \<open>The start of the client, and its end.\<close>

lemma client_init_frame:
  assumes "client_init tty lock_ok io_lock_ok w = (st, w')"
  shows "cw_closed w' = cw_closed w" "cl_sockfd w' = -1" "cw_wire w' = cw_wire w" "cw_shutdown w' = cw_shutdown w"
    and "st = CHAT_OK \<longleftrightarrow> lock_ok \<and> io_lock_ok"
  using assms by (auto simp: client_init_def Let_def colors_init_def split: if_splits)

lemma client_connect_frame:
  assumes "client_connect (Some rs) w = (st, w')" and "connect_loop rs (cw_closed w) = (fd, closed)" and "cl_sockfd w = -1"
  shows "cw_closed w' = closed" "cl_sockfd w' = (if fd < 0 then -1 else fd)" "cw_wire w' = cw_wire w"
    "cw_shutdown w' = cw_shutdown w" "st = CHAT_OK \<longleftrightarrow> 0 \<le> fd"
  using assms by (auto simp: client_connect_def Let_def split: if_splits)

lemma client_destroy_frame:
  "cl_sockfd (client_destroy w) = (if 0 \<le> cl_sockfd w then -1 else cl_sockfd w)" "\<not> cl_running (client_destroy w)" "cw_wire (client_destroy w) = cw_wire w"
  "cw_shutdown (client_destroy w) = cw_shutdown w"
  "cw_closed (client_destroy w) = (if 0 \<le> cl_sockfd w then cl_sockfd w # cw_closed w else cw_closed w)"
  by (simp_all add: client_destroy_def client_disconnect_def client_set_running_def Let_def)

section \<open>Properties\<close>

text \<open>
  Property C21. From the command line to the accept loop, or out: \<open>main\<close> of the server fails on
  bad arguments before it has made anything, fails with every allocation freed when
  \<open>server_init\<close> fails, closes the listening socket once and frees everything when a later part
  of the preparation fails, and otherwise enters the accept loop in an initial state of
  the running server. From then on \<open>SIGINT\<close> and \<open>SIGTERM\<close> clear \<open>running\<close> and do nothing else;
  every other signal keeps the action the process was started with, \<open>SIGPIPE\<close> among them.
\<close>

theorem server_main_outcomes:
  "case server_main ie le mem_ok junk inherited net args of
      Usage_Failure \<Rightarrow> server_main_args args = None
    | Init_Failure w \<Rightarrow> w_net w = net \<and> cr_nodes (sv_registry w) = [] \<and> mq_heap (sv_queue w) = Map.empty \<and>
        rm_rooms (sv_rooms w) = [] \<and> ad_head (sv_auth w) = []
    | Run_Failure w \<Rightarrow> nt_closed (w_net w) = (if 0 \<le> le_fd le then le_fd le # nt_closed net else nt_closed net) \<and>
        mq_heap (sv_queue w) = Map.empty \<and> cr_nodes (sv_registry w) = [] \<and> rm_rooms (sv_rooms w) = [] \<and>
        ad_head (sv_auth w) = []
    | Bad_Pointer \<Rightarrow> False
    | Serving w sg \<Rightarrow> sys_reachable lt (sys_start w) \<and> sv_running w \<and>
        (\<exists>db. server_main_args args = Some (sv_port w, db)) \<and>
        (\<forall>sig. if sig = SIGINT \<or> sig = SIGTERM
               then \<exists>w'. deliver_signal sg sig w = Some w' \<and> \<not> sv_running w' \<and> w'\<lparr>sv_running := True\<rparr> = w
               else sg_action sg sig = inherited sig)"
proof (cases "server_main_args args")
  case None
  then show ?thesis by (simp add: server_main_def)
next
  case (Some a)
  then obtain port db where a: "server_main_args args = Some (port, db)" by (cases a) auto
  obtain st w where i: "server_init ie net port (Some db) = Some (st, w)"
    using server_init_all_or_nothing [where ie = ie and net = net and port = port and users_db = "Some db"] by (auto split: option.splits)
  show ?thesis
  proof (cases "st = CHAT_OK")
    case False
    with a i server_init_all_or_nothing [where ie = ie and net = net and port = port and users_db = "Some db"] show ?thesis
      by (auto simp: server_main_def)
  next
    case ok: True
    let ?l = "server_listen (le_fd le) (le_setsockopt le) (le_bind le) (le_listen le) (le_thread le) w"
    obtain st1 w1 where l: "?l = (st1, w1)" by (cases ?l)
    note init = server_init_OK [OF i [unfolded ok]]
    show ?thesis
    proof (cases "st1 = CHAT_OK")
      case True
      have w1: "w1 = w\<lparr>sv_listen_fd := le_fd le, sv_broadcaster_tid := True\<rparr>" and
        t: "server_listen (le_fd le) True True True True w = (CHAT_OK, w1)"
        using l True by (auto simp: server_listen_def abandon_listener_def Let_def split: if_splits)
      have "server_main ie le mem_ok junk inherited net args =
          Serving w1 (server_install_signal_handlers \<lparr>sg_server = False, sg_action = inherited\<rparr>)"
        using a i ok l True by (simp add: server_main_def)
      with sys_init [OF i [unfolded ok] t] w1 init a show ?thesis
        by (simp add: signal_handler_def deliver_signal_def server_install_signal_handlers_def sigaction_def)
    next
      case False
      then have fail: "server_main ie le mem_ok junk inherited net args =
          (case server_destroy (server_shutdown mem_ok junk w1) of None \<Rightarrow> Bad_Pointer | Some w2 \<Rightarrow> Run_Failure w2)"
        using a i ok l by (simp add: server_main_def)
      show ?thesis
        by (rule server_start_aborts [OF i [unfolded ok] l False, of mem_ok junk]) (simp add: fail)
    qed
  qed
qed

text \<open>The sockets the client has made, given what the command line and the system have to say.\<close>

definition main_sockets :: "(string \<Rightarrow> 16 word \<Rightarrow> (int \<times> bool) list option) \<Rightarrow> bool \<Rightarrow> string list \<Rightarrow> int list" where
  "main_sockets resolve locks_ok args =
     (case client_main_args args of
        None \<Rightarrow> []
      | Some (host, port, u, p) \<Rightarrow>
          if \<not> locks_ok then [] else (case resolve host port of None \<Rightarrow> [] | Some rs \<Rightarrow> sockets_made rs))"

lemma connect_loop_last:
  "connect_loop rs closed = (fd, closed') \<Longrightarrow> 0 \<le> fd \<Longrightarrow> sockets_made rs \<noteq> [] \<and> last (sockets_made rs) = fd"
  by (induction rs closed rule: connect_loop.induct) (auto split: if_splits)

text \<open>The exits of the client that has connected or tried to.\<close>

definition session_outcome :: "int list \<Rightarrow> client_world \<Rightarrow> bool \<Rightarrow> client_world \<Rightarrow> bool" where
  "session_outcome made w success w' \<longleftrightarrow> rev (cw_closed w') = rev (cw_closed w) @ made \<and>
     (success \<longrightarrow> made \<noteq> [] \<and> cl_sockfd w' = -1 \<and> \<not> cl_running w' \<and> cw_shutdown w' = last made # cw_shutdown w \<and>
        (\<exists>u p s. u \<noteq> [] \<and> p \<noteq> [] \<and> cw_wire w' = cw_wire w @ ''AUTH '' @ u @ '' '' @ p @ [LF] @ s))"

lemma client_after_init_sockets:
  assumes "client_after_init addresses thread_ok u p stdin w success w'" and fd: "cl_sockfd w = -1"
  shows "session_outcome (case addresses of None \<Rightarrow> [] | Some rs \<Rightarrow> sockets_made rs) w success w'"
proof (cases addresses)
  case None
  with assms show ?thesis
    by (auto elim!: client_after_initE simp: client_connect_def client_destroy_frame session_outcome_def)
next
  case (Some rs)
  obtain st2 w2 where c: "client_connect (Some rs) w = (st2, w2)" by (cases "client_connect (Some rs) w")
  obtain fd closed where l: "connect_loop rs (cw_closed w) = (fd, closed)" by (cases "connect_loop rs (cw_closed w)")
  note w2 = client_connect_frame [OF c l fd] and made = connect_loop_made [OF l] and last = connect_loop_last [OF l]
  from assms(1) show ?thesis
  proof (cases rule: client_after_init.cases)
    case not_connected
    with c w2 made show ?thesis by (auto simp: Some client_destroy_frame session_outcome_def)
  next
    case (session_failed w2' st w3)
    with c w2 made client_run_sockets [OF session_failed(4)] show ?thesis
      by (auto simp: Some client_destroy_frame session_outcome_def)
  next
    case (session_over w2' w3)
    with c w2 made last client_run_sockets [OF session_over(4)] show ?thesis
      by (auto simp: Some client_destroy_frame client_print_def session_outcome_def)
  qed
qed

lemma client_main_can_return: "\<exists>success w'. client_main resolve tty lock_ok io_lock_ok thread_ok stdin args w success w'"
proof (cases "client_main_args args")
  case None
  then show ?thesis by (blast intro: client_main.bad_usage)
next
  case (Some a)
  then obtain host port u p where a: "client_main_args args = Some (host, port, u, p)" by (cases a) auto
  obtain st1 w1 where i: "client_init tty lock_ok io_lock_ok w = (st1, w1)" by (cases "client_init tty lock_ok io_lock_ok w")
  obtain st2 w2 where c: "client_connect (resolve host port) w1 = (st2, w2)" by (cases "client_connect (resolve host port) w1")
  obtain st3 w3 where r: "client_run thread_ok u p stdin w2 st3 w3" using client_run_can_return by blast
  have "\<exists>success w'. client_after_init (resolve host port) thread_ok u p stdin w1 success w'"
    using c r by (cases "st2 = CHAT_OK"; cases "st3 = CHAT_OK") (blast intro: client_after_init.intros)+
  with a i show ?thesis by (cases "st1 = CHAT_OK") (blast intro: client_main.intros)+
qed

text \<open>
  Property C22. From the command line to the exit status of the client: whatever the user types,
  whatever the resolver, the sockets and the kernel answer, \<open>main\<close> leaves every socket it has
  made closed, each once; and when it exits with success it has opened the conversation with
  one complete \<open>AUTH\<close> line, with a name and a password, and shut the connection down before
  closing it.
\<close>

theorem client_main_outcomes:
  "(\<exists>success w'. client_main resolve tty lock_ok io_lock_ok thread_ok stdin args w success w') \<and>
   (\<forall>success w'. client_main resolve tty lock_ok io_lock_ok thread_ok stdin args w success w' \<longrightarrow>
     rev (cw_closed w') = rev (cw_closed w) @ main_sockets resolve (lock_ok \<and> io_lock_ok) args \<and>
     (success \<longrightarrow> main_sockets resolve (lock_ok \<and> io_lock_ok) args \<noteq> [] \<and> cl_sockfd w' = -1 \<and> \<not> cl_running w' \<and>
        cw_shutdown w' = last (main_sockets resolve (lock_ok \<and> io_lock_ok) args) # cw_shutdown w \<and>
        (\<exists>u p s. u \<noteq> [] \<and> p \<noteq> [] \<and> cw_wire w' = cw_wire w @ ''AUTH '' @ u @ '' '' @ p @ [LF] @ s)))"
proof -
  have "session_outcome (main_sockets resolve (lock_ok \<and> io_lock_ok) args) w success w'"
    if "client_main resolve tty lock_ok io_lock_ok thread_ok stdin args w success w'" for success w'
    using that
  proof (cases rule: client_main.cases)
    case bad_usage
    then show ?thesis by (simp add: main_sockets_def session_outcome_def)
  next
    case (init_failed host port u p st)
    with client_init_frame [OF init_failed(3)] show ?thesis by (auto simp: main_sockets_def session_outcome_def)
  next
    case (ran host port u p w1)
    note w1 = client_init_frame [OF ran(2)]
    from client_after_init_sockets [OF ran(3) w1(2)] w1(1,3-5) ran(1) show ?thesis
      by (simp add: main_sockets_def session_outcome_def)
  qed
  with client_main_can_return show ?thesis unfolding session_outcome_def by blast
qed

theorem client_main_outcomes_witness:
  "\<exists>w'. client_main (\<lambda>host port. Some [(3, False), (4, True)]) False True True True (''/quit'' @ [LF])
       [''chat_client'', ''localhost'', dec 8080, ''alice'', ''pw''] sample_client True w' \<and>
     rev (cw_closed w') = [3, 4] \<and> cw_shutdown w' = [4]"
proof -
  let ?args = "[''chat_client'', ''localhost'', dec 8080, ''alice'', ''pw'']" and ?stdin = "''/quit'' @ [LF]"
  let ?m = "client_main (\<lambda>host port. Some [(3, False), (4, True)]) False True True True ?stdin ?args sample_client"
  have args: "client_main_args ?args = Some (''localhost'', 8080, Some ''alice'', Some ''pw'')"
  proof -
    have "parse_port (dec 8080) = (CHAT_OK, Some 8080)"
      using strtol10_dec [of 8080] by (simp add: parse_port_def)
    then show ?thesis by (simp add: client_main_args_def)
  qed
  let ?w1 = "sample_client\<lparr>cl_sockfd := -1, cl_username := [], cl_password := [], cl_current_room := [],
      cl_authenticated := False, cl_joined := False, cl_receiver_started := False\<rparr>"
  let ?w2 = "?w1\<lparr>cw_closed := [3], cl_sockfd := 4\<rparr>" and ?w3 = "?w1\<lparr>cw_closed := [3], cl_sockfd := 4, cl_username := ''alice'', cl_password := ''pw''\<rparr>"
  have i: "client_init False True True sample_client = (CHAT_OK, ?w1)"
    by (simp add: client_init_def colors_init_def sample_client_def)
  have c: "client_connect (Some [(3, False), (4, True)]) ?w1 = (CHAT_OK, ?w2)"
    by (simp add: client_connect_def sample_client_def)
  have r: "resolve_credentials (Some ''alice'') (Some ''pw'') (''/quit'' @ [LF]) ?w2 = (CHAT_OK, ?w3, ''/quit'' @ [LF])"
    by (simp add: resolve_credentials_def resolve_field_def ask_def)
  have b: "protocol_build_client_auth MAX_LINE_LEN ''alice'' ''pw'' = (CHAT_OK, ''AUTH alice pw'' @ [LF])"
    by (simp add: protocol_build_client_auth_def snprintf_line_def)
  have l: "fst (client_send_line (''AUTH alice pw'' @ [LF]) ?w3) = CHAT_OK"
    by (simp add: client_send_line_def sample_client_def)
  have "\<exists>w3. client_run True (Some ''alice'') (Some ''pw'') ?stdin ?w2 CHAT_OK w3"
    by (rule client_run_quits [OF _ r _ l]) (simp, use b in simp)
  then obtain w3 where "client_run True (Some ''alice'') (Some ''pw'') ?stdin ?w2 CHAT_OK w3" by blast
  from session_over [where w = ?w1, OF c this] have m: "\<exists>w'. ?m True w'"
    by (intro exI) (rule client_main.ran [OF args i])
  then obtain w' where m: "?m True w'" by blast
  have s: "main_sockets (\<lambda>host port. Some [(3, False), (4, True)]) (True \<and> True) ?args = [3, 4]"
    by (simp add: main_sockets_def args)
  have "rev (cw_closed w') = rev (cw_closed sample_client) @ [3, 4] \<and> cw_shutdown w' = 4 # cw_shutdown sample_client"
    using client_main_outcomes [THEN conjunct2, rule_format, OF m] unfolding s by auto
  with m show ?thesis by (intro exI [of _ w']) (simp add: sample_client_def)
qed

end
