(* ===== verification/Server_Types.thy ===== *)
theory Server_Types
  imports Interleaving
begin

text \<open>
  The types of the C program that HOL's types do not show: how many bytes each array has. The
  arrays of the shared structures keep the sizes they are declared with through every action
  of a client thread, and so at every point of every interleaving, and the strings of the
  history fit theirs with their terminators.
\<close>

section \<open>Declared sizes\<close>

definition message_typed :: "mq_message \<Rightarrow> bool" where
  "message_typed m \<longleftrightarrow> length (mm_username m) = MAX_USERNAME_LEN \<and> length (mm_room m) = MAX_ROOM_NAME_LEN \<and>
     length (mm_content m) = MAX_MSG_LEN"

definition entry_typed :: "history_entry \<Rightarrow> bool" where
  "entry_typed e \<longleftrightarrow> length (he_username e) < MAX_USERNAME_LEN \<and> length (he_content e) < MAX_MSG_LEN \<and>
     length (he_timestamp e) < TIMESTAMP_LEN"

definition room_typed :: "room_node \<Rightarrow> bool" where
  "room_typed rn \<longleftrightarrow> length (rn_name rn) < MAX_ROOM_NAME_LEN \<and> length (rn_history rn) = MAX_ROOM_HISTORY \<and>
     (\<forall>e \<in> set (rn_history rn). entry_typed e)"

definition world_typed :: "world \<Rightarrow> bool" where
  "world_typed w \<longleftrightarrow> (\<forall>n \<in> set (cr_nodes (sv_registry w)). node_typed n) \<and>
     mq_inv (sv_queue w) \<and> (\<forall>m \<in> set (events w). message_typed m) \<and>
     (\<forall>rn \<in> set (rm_rooms (sv_rooms w)). room_typed rn)"

text \<open>What \<open>malloc\<close> returns and what the stack holds has the size of its type.\<close>

definition event_env_typed :: "event_env \<Rightarrow> bool" where
  "event_env_typed ev \<longleftrightarrow> message_typed (ee_stack ev)"

definition call_env_typed :: "call_env \<Rightarrow> bool" where
  "call_env_typed e \<longleftrightarrow> (\<forall>n. ce_node e = Some n \<longrightarrow> node_typed n) \<and> event_env_typed (ce_ev1 e) \<and>
     event_env_typed (ce_ev2 e) \<and> localtime_ok (ce_localtime e)"

section \<open>Actions\<close>

text \<open>Every action of a program keeps \<open>P\<close>, whatever other threads that keep \<open>P\<close> do in between.\<close>

inductive keeps :: "(world \<Rightarrow> bool) \<Rightarrow> 'a prog \<Rightarrow> bool"
  for P :: "world \<Rightarrow> bool" where
  keeps_Ret: "keeps P (Ret a)"
| keeps_Act: "(\<forall>w p w'. P w \<and> f w = (p, w') \<longrightarrow> P w' \<and> keeps P p) \<Longrightarrow> keeps P (Act f)"

inductive_simps keeps_Act_iff: "keeps P (Act f)"

named_theorems keep_rules

declare keeps_Ret [simp, keep_rules]

lemma keeps_act [keep_rules]:
  assumes "\<And>w. P w \<Longrightarrow> P (snd (f w))" and "\<And>b. keeps P (k b)"
  shows "keeps P (act f k)"
  unfolding act_def keeps_Act_iff using assms by (fastforce split: prod.splits)

lemma keeps_look [keep_rules]: "(\<And>b. keeps P (k b)) \<Longrightarrow> keeps P (look f k)"
  unfolding look_def by (rule keeps_act) simp_all

lemma keeps_bind [keep_rules]:
  assumes "keeps P p" and "\<And>a. keeps P (k a)"
  shows "keeps P (prog_bind p k)"
  using assms(1)
proof (induction rule: keeps.induct)
  case (keeps_Ret a)
  with assms(2) show ?case by simp
next
  case (keeps_Act f)
  then show ?case unfolding prog_bind.simps keeps_Act_iff by (fastforce simp: map_prod_def split: prod.splits)
qed

lemma keeps_if [keep_rules]: "keeps P p \<Longrightarrow> keeps P q \<Longrightarrow> keeps P (if c then p else q)"
  by simp

lemma keeps_pair [keep_rules]: "(\<And>a b. keeps P (k a b)) \<Longrightarrow> keeps P (case x of (a, b) \<Rightarrow> k a b)"
  by (simp split: prod.split)

lemma keeps_run: "keeps P p \<Longrightarrow> P w \<Longrightarrow> P (snd (run p w))"
proof (induction arbitrary: w rule: keeps.induct)
  case (keeps_Act f)
  obtain p w' where f: "f w = (p, w')" by (cases "f w")
  with keeps_Act show ?case by (simp add: map_prod_def)
qed simp

lemma typed_sends [simp]:
  "world_typed (snd (cmd_send_response fd line w)) = world_typed w" "world_typed (snd (send_err fd msg w)) = world_typed w"
  "world_typed (snd (send_ok fd msg w)) = world_typed w" "world_typed (snd (refuse fd msg w)) = world_typed w"
  "world_typed (sys_close fd w) = world_typed w" "world_typed (sys_shutdown fd w) = world_typed w"
  by (simp_all add: world_typed_def frame_simps refuse_send_err)

lemma typed_push:
  assumes "world_typed w" and "message_typed m"
  shows "world_typed (snd (on_queue (mq_push mem m) w))"
  using assms mq_push_spec [of "sv_queue w" mem m]
  by (auto simp: world_typed_def on_queue_def mq_abs_def split: prod.split if_splits)

lemma typed_events:
  "event_env_typed ev \<Longrightarrow> message_typed (room_event ev ty u rm)"
  "call_env_typed e \<Longrightarrow> message_typed (chat_event e u rm c)"
  by (simp_all add: call_env_typed_def event_env_typed_def message_typed_def room_event_def chat_event_def Let_def)

lemma typed_enqueue:
  "world_typed w \<Longrightarrow> event_env_typed ev \<Longrightarrow> world_typed (snd (enqueue_room_event ev ty u rm w))"
  using typed_push [OF _ typed_events(1)] by (simp add: enqueue_room_event_def on_queue_def)

lemma typed_registry:
  assumes "world_typed w" and "\<And>n. n \<in> set (cr_nodes (snd (f (sv_registry w)))) \<Longrightarrow> node_typed n"
  shows "world_typed (snd (on_registry f w))"
  using assms by (auto simp: world_typed_def on_registry_def split: prod.split)

lemma world_typed_nodes: "world_typed w \<Longrightarrow> \<forall>n \<in> set (cr_nodes (sv_registry w)). node_typed n"
  by (simp add: world_typed_def)

lemma typed_add:
  assumes "\<forall>n \<in> set (cr_nodes reg). node_typed n" and "\<forall>n. mem = Some n \<longrightarrow> node_typed n"
    and "n \<in> set (cr_nodes (snd (registry_add mem reg fd u rm a)))"
  shows "node_typed n"
  using assms by (auto simp: registry_add_def node_typed_def Let_def split: option.splits if_splits)

lemma typed_remove:
  assumes "\<forall>n \<in> set (cr_nodes reg). node_typed n" and "n \<in> set (cr_nodes (snd (registry_remove reg fd)))"
  shows "node_typed n"
  using assms by (auto simp: registry_remove_def dest: remove_first_subset split: option.splits)

lemma typed_set_room:
  assumes "\<forall>n \<in> set (cr_nodes reg). node_typed n" and "n \<in> set (cr_nodes (snd (registry_set_room reg fd rm)))"
  shows "node_typed n"
proof -
  have "\<forall>n \<in> set ns'. node_typed n" if "set_room_loop ns fd rm = Some ns'" "\<forall>n \<in> set ns. node_typed n" for ns ns'
    using that by (induction ns arbitrary: ns') (auto simp: node_typed_def write_room_def split: if_splits)
  with assms show ?thesis by (auto simp: registry_set_room_def split: option.splits)
qed

lemma typed_ring_put: "room_typed rn \<Longrightarrow> entry_typed e \<Longrightarrow> room_typed (ring_put rn e)"
  by (auto simp: room_typed_def ring_put_def dest!: subsetD [OF set_update_subset_insert])

lemma typed_history:
  assumes "world_typed w" and "localtime_ok lt"
  shows "world_typed (snd (on_rooms (\<lambda>rooms. room_history_add mem lt rooms room u c t) w))"
proof -
  have e: "entry_typed (history_entry_of lt u c t)"
    using format_timestamp_ok [OF assms(2), of t] by (simp add: entry_typed_def history_entry_of_def ts_ok_def min_less_iff_disj)
  obtain i mgr' where f: "room_find_or_create mem (sv_rooms w) room = (i, mgr')" by (cases "room_find_or_create mem (sv_rooms w) room")
  have "room_typed (new_room room)" by (simp add: room_typed_def new_room_def entry_typed_def zero_entry_def)
  then have r: "\<forall>rn \<in> set (rm_rooms mgr'). room_typed rn"
    using assms(1) f by (auto simp: room_find_or_create_def world_typed_def split: option.splits if_splits)
  have "\<forall>rn \<in> set (rm_rooms (snd (room_history_add mem lt (sv_rooms w) room u c t))). room_typed rn"
  proof (cases "case i of None \<Rightarrow> False | Some j \<Rightarrow> j < length (rm_rooms mgr')")
    case True
    then obtain j where "i = Some j" "j < length (rm_rooms mgr')" by (cases i) auto
    with r e f typed_ring_put show ?thesis
      by (auto simp: room_history_add_def dest!: subsetD [OF set_update_subset_insert])
  next
    case False
    with r f show ?thesis by (cases i) (simp_all add: room_history_add_def list_update_beyond)
  qed
  with assms(1) show ?thesis by (simp add: world_typed_def on_rooms_def split_beta)
qed

section \<open>Handlers\<close>

lemma keeps_history [keep_rules]: "keeps world_typed (history_prog fd room)"
  unfolding history_prog_def by (intro keep_rules) simp

lemma keeps_handlers:
  assumes "call_env_typed e"
  shows "keeps world_typed (auth_prog e fd u pw)" "keeps world_typed (join_room_prog e fd room)"
    "keeps world_typed (msg_prog e fd c)" "keeps world_typed (pm_prog e fd t c)" "keeps world_typed (list_prog fd)"
    "keeps world_typed (history_cmd_prog fd)" "keeps world_typed (kick_prog fd t)"
proof -
  have ev: "event_env_typed (ce_ev1 e)" "event_env_typed (ce_ev2 e)" and mem: "\<forall>n. ce_node e = Some n \<longrightarrow> node_typed n"
    and lt: "localtime_ok (ce_localtime e)"
    using assms by (simp_all add: call_env_typed_def)
  have add: "world_typed (snd (on_registry (\<lambda>reg. registry_add (ce_node e) reg fd u rm a) w))" if "world_typed w" for fd u rm a w
    by (rule typed_registry [OF that], rule typed_add [OF world_typed_nodes [OF that] mem])
  have remove: "world_typed (snd (on_registry (\<lambda>reg. registry_remove reg fd) w))" if "world_typed w" for fd w
    by (rule typed_registry [OF that], rule typed_remove [OF world_typed_nodes [OF that]])
  have move: "world_typed (snd (on_registry (\<lambda>reg. registry_set_room reg fd rm) w))" if "world_typed w" for fd rm w
    by (rule typed_registry [OF that], rule typed_set_room [OF world_typed_nodes [OF that]])
  note r = keep_rules add remove move typed_enqueue ev typed_history lt typed_push typed_events(2) [OF assms]
  show "keeps world_typed (auth_prog e fd u pw)" unfolding auth_prog_def by (intro r; simp)
  show "keeps world_typed (join_room_prog e fd room)" unfolding join_room_prog_def by (intro r; simp)
  show "keeps world_typed (msg_prog e fd c)" unfolding msg_prog_def by (intro r; simp)
  show "keeps world_typed (pm_prog e fd t c)" unfolding pm_prog_def by (intro r; simp)
  show "keeps world_typed (list_prog fd)" unfolding list_prog_def by (intro r; simp)
  show "keeps world_typed (history_cmd_prog fd)" unfolding history_cmd_prog_def by (intro r; simp)
  show "keeps world_typed (kick_prog fd t)" unfolding kick_prog_def by (intro r; simp)
qed

lemma keeps_leave:
  assumes "event_env_typed ev"
  shows "keeps world_typed (leave_prog ev fd u au)"
proof -
  have remove: "world_typed (snd (on_registry (\<lambda>reg. registry_remove reg fd) w))" if "world_typed w" for w
    by (rule typed_registry [OF that], rule typed_remove [OF world_typed_nodes [OF that]])
  show ?thesis unfolding leave_prog_def Let_def by (intro keep_rules typed_enqueue assms remove; simp)
qed

lemma keeps_dispatch: "keeps P p \<Longrightarrow> keeps P (dispatch p h)"
  unfolding dispatch_def by (intro keep_rules)

lemma keeps_handler:
  assumes "call_env_typed e"
  shows "keeps world_typed (handler_prog e line h)"
proof -
  obtain pst cmd where p: "protocol_parse_client_line line = (pst, cmd)" by (cases "protocol_parse_client_line line")
  have refuse: "keeps world_typed (refuse_prog fd msg h)" for fd msg
    unfolding refuse_prog_def by (intro keep_rules) simp
  have auth: "keeps world_typed (prog_bind (auth_prog e fd u pw) (\<lambda>st. Ret (k st)))" for fd u pw k
    by (intro keep_rules keeps_handlers(1) [OF assms])
  show ?thesis
    using refuse auth keeps_handlers [OF assms]
    by (auto simp: handler_prog_def Let_def p split: client_cmd.split intro: keeps_dispatch)
qed

lemma handler_fields:
  assumes "handler_command e line h w = (go, h', w')"
  shows "hd_fd h' = hd_fd h \<and> hd_line h' = hd_line h \<and>
     (length (hd_username h) < MAX_USERNAME_LEN \<longrightarrow> length (hd_username h') < MAX_USERNAME_LEN)"
  using assms by (auto simp: handler_command_def Let_def split: prod.splits if_splits client_cmd.splits)

lemma bcast_act_typed:
  assumes "bcast_act lt b w = Some (b', w')" and "world_typed w"
  shows "world_typed w'"
proof -
  have quiet: "world_typed w' \<longleftrightarrow> world_typed w" if "sv_registry w' = sv_registry w" "sv_queue w' = sv_queue w"
      "sv_rooms w' = sv_rooms w"
    using that by (simp add: world_typed_def)
  have pop: "world_typed (w\<lparr>sv_queue := q\<rparr>)" if "mq_pop (sv_queue w) = Pop_Returns st m q" for st m q
  proof -
    have inv: "mq_inv (sv_queue w)" using assms(2) by (simp add: world_typed_def)
    have "mq_inv q" using mq_pop_inv [OF inv that] .
    moreover have "set (mq_contents q) \<subseteq> set (events w)"
    proof (cases "events w")
      case Nil
      with that mq_pop_empty [OF inv Nil] show ?thesis by (auto split: if_splits)
    next
      case (Cons a as)
      with that mq_pop_Cons [OF inv Cons] show ?thesis by (auto simp: mq_abs_def)
    qed
    ultimately show ?thesis using assms(2) by (auto simp: world_typed_def)
  qed
  show ?thesis
  proof (cases b)
    case B_Pop
    with assms pop show ?thesis by (auto split: pop_result.splits option.splits)
  next
    case (B_Node room line n live)
    then have "w' = snd (send_to_client line room n w)" using assms(1) by (auto split: prod.splits)
    with quiet assms(2) show ?thesis by (simp add: frame_simps)
  qed (use assms in auto)
qed

lemma server_init_rooms:
  assumes "server_init ie net port users_db = Some (CHAT_OK, w)"
  shows "rm_rooms (sv_rooms w) = [new_room DEFAULT_ROOM]"
proof -
  obtain rooms where "room_manager_init (ie_rooms_mutex ie) (ie_rooms_mem ie) = (CHAT_OK, rooms)" "sv_rooms w = rooms"
    using assms by (auto simp: server_init_def Let_def registry_init_def mq_init_def split: prod.splits if_splits)
  then show ?thesis
    by (auto simp: room_manager_init_def room_find_or_create_def room_manager_empty_def split: if_splits dest: sym)
qed

lemma init_typed:
  assumes "server_init ie net port db = Some (CHAT_OK, w)"
  shows "world_typed w"
proof -
  note init = server_init_OK [OF assms]
  have "cr_nodes (sv_registry w) = []"
    using registry_count_sessions [of "sv_registry w"] init by (simp add: world_inv_def registry_inv_def registry_count_def)
  moreover have "room_typed (new_room DEFAULT_ROOM)"
    by (simp add: room_typed_def new_room_def entry_typed_def zero_entry_def DEFAULT_ROOM_def)
  ultimately show ?thesis
    using init mq_inv_empty by (simp add: world_typed_def mq_contents_def mq_empty_def server_init_rooms [OF assms])
qed

text \<open>
  Property C13. Every array keeps its declared size and every stored string its room for the
  terminator, at every point of every interleaving: each single action of a command, of a
  client that leaves and of the broadcaster takes a state whose nodes, queued messages and
  histories have the sizes of their C types to such a state, given that \<open>malloc\<close> and the stack
  give memory of the type's size; so does a command as a whole, which also keeps the
  thread's own buffers; and the server starts in such a state.
\<close>

theorem arrays_keep_their_sizes:
  assumes "call_env_typed e" and "event_env_typed ev" and "world_typed w"
    and "handler_command e line h w = (go, h', w')" and "length (hd_username h) < MAX_USERNAME_LEN"
  shows "keeps world_typed (handler_prog e line h) \<and> keeps world_typed (leave_prog ev fd u au) \<and>
     world_typed w' \<and> length (hd_line h') = length (hd_line h) \<and> length (hd_username h') < MAX_USERNAME_LEN \<and>
     (\<forall>lt b b' w''. bcast_act lt b w' = Some (b', w'') \<longrightarrow> world_typed w'') \<and>
     (\<forall>ie net port db w0. server_init ie net port db = Some (CHAT_OK, w0) \<longrightarrow> world_typed w0)"
proof -
  have "snd (run (handler_prog e line h) w) = w'" using assms(4) by (simp add: run_handler)
  then have w': "world_typed w'" using keeps_run [OF keeps_handler [OF assms(1), of line h] assms(3)] by simp
  moreover have "keeps world_typed (handler_prog e line h)" "keeps world_typed (leave_prog ev fd u au)"
    using keeps_handler [OF assms(1)] keeps_leave [OF assms(2)] by simp_all
  moreover have "length (hd_line h') = length (hd_line h)" "length (hd_username h') < MAX_USERNAME_LEN"
    using handler_fields [OF assms(4)] assms(5) by simp_all
  ultimately show ?thesis using bcast_act_typed init_typed by (intro conjI allI impI)
qed

theorem arrays_keep_their_sizes_witness:
  "\<exists>w. server_init sample_init quiet_net 8080 (Some ''u'') = Some (CHAT_OK, w) \<and>
     world_typed (snd (snd (handler_command sample_env ''AUTH carol x'' (new_handler 7 (replicate 2048 NUL)) w)))"
proof -
  obtain w where w: "server_init sample_init quiet_net 8080 (Some ''u'') = Some (CHAT_OK, w)"
    using sample_init_OK by blast
  have env: "call_env_typed sample_env" "event_env_typed sample_event"
    by (auto simp: call_env_typed_def event_env_typed_def message_typed_def node_typed_def localtime_ok_def sample_env_def
        sample_event_def zero_stack_def zero_node_def)
  let ?h = "new_handler 7 (replicate 2048 NUL)"
  obtain go h' w' where r: "handler_command sample_env ''AUTH carol x'' ?h w = (go, h', w')"
    by (cases "handler_command sample_env ''AUTH carol x'' ?h w") auto
  have h: "length (hd_username ?h) < MAX_USERNAME_LEN" by (simp add: new_handler_def)
  from arrays_keep_their_sizes [OF env init_typed [OF w] r h] have "world_typed w'" by blast
  with w r show ?thesis by auto
qed

end
