(* ===== verification/Thread_Races.thy ===== *)
theory Thread_Races
  imports Thread_Programs Command_Properties
begin

text \<open>
  The programs of \<open>Thread_Programs\<close> when other threads act between their actions. Uninterrupted
  they are the functions of \<open>Commands\<close> (\<open>run_handler\<close>); interrupted, a command may act on a descriptor that has changed hands since it was
  looked up, and a login on a name that was free when it looked.
\<close>

section \<open>Interrupted runs\<close>

text \<open>
  A run of a program in which the other threads act between its first actions: after each of
  these the shared state is what the next of the functions makes of it.
\<close>

primrec interfered :: "(world \<Rightarrow> world) list \<Rightarrow> 'a prog \<Rightarrow> world \<Rightarrow> 'a \<times> world" where
  "interfered [] p w = run p w"
| "interfered (g # gs) p w =
     (case p of Ret a \<Rightarrow> (a, w) | Act f \<Rightarrow> (case f w of (p', w') \<Rightarrow> interfered gs p' (g w')))"

lemma interfered_look [simp]: "interfered (g # gs) (look f k) w = interfered gs (k (f w)) (g w)"
  by (simp add: look_def act_def interfered.simps(2))

declare interfered.simps(2) [simp del]

lemma online_fd:
  assumes "world_inv w" and "sessions w tfd = Some (target, trm, ta)"
  shows "registry_get_sockfd_by_username (sv_registry w) target = tfd"
  using registry_get_sockfd_sessions(1) [OF world_invD(1) [OF assms(1)] assms(2)] .

text \<open>
  Property C19. A private message and a kick go to a descriptor, not to a user: when the other
  threads act between the lookup of the target's descriptor and the send, and leave a state
  \<open>w'\<close> in which the target is gone and the descriptor belongs to anybody at all, the message
  is written to that connection, and the sender is told that it was delivered; and a kick
  shuts that connection down.
\<close>

theorem descriptor_race:
  assumes "world_inv w" and "sessions w fd = Some (u, rm, a)" and "sessions w tfd = Some (target, trm, ta)"
    and "u \<noteq> target" and "0 \<le> tfd" and "target \<noteq> []" and "content \<noteq> []" and "length content < MAX_MSG_LEN"
    and "localtime_ok (ce_localtime e)" and "open_fd w' fd" and "open_fd w' tfd"
  shows "fst (interfered [id, \<lambda>_. w'] (pm_prog e fd target content) w) = CHAT_OK \<and>
     nt_wire (w_net (snd (interfered [id, \<lambda>_. w'] (pm_prog e fd target content) w))) = (nt_wire (w_net w'))(
       tfd := wire_of w' tfd @ lines_of [S_Pm u (format_timestamp (ce_localtime e) (ce_now e) TIMESTAMP_LEN) content],
       fd := wire_of w' fd @ lines_of [S_Ok ''PM delivered'']) \<and>
     (a \<longrightarrow> nt_shutdown (w_net (snd (interfered [id, id, \<lambda>_. w'] (kick_prog fd target) w)))
             = tfd # nt_shutdown (w_net w'))"
proof -
  let ?ts = "format_timestamp (ce_localtime e) (ce_now e) TIMESTAMP_LEN"
  have "fd \<noteq> tfd" using assms(2-4) by auto
  have "length u < 32" using registry_sessions_short(1) [OF world_invD(1) [OF assms(1)] assms(2)] .
  moreover have "length ?ts < 32" using format_timestamp_ok [OF assms(9)] by (simp add: ts_ok_def)
  ultimately have line: "snd (protocol_build_server_pm 2048 u ?ts content) = lines_of [S_Pm u ?ts content]"
    using build_server_line [of "S_Pm u ?ts content" 2048] assms(8) by simp
  let ?w1 = "snd (cmd_send_response tfd (lines_of [S_Pm u ?ts content]) w')"
  have pm: "interfered [id, \<lambda>_. w'] (pm_prog e fd target content) w = send_ok fd ''PM delivered'' ?w1"
    using assms online_fd [OF assms(1,3)] line
    by (simp add: pm_prog_def lookup_simps run_act split_beta cmd_send_open)
  have w1: "open_fd ?w1 fd" "wire_of ?w1 tfd = wire_of w' tfd @ lines_of [S_Pm u ?ts content]"
    using assms(10,11) cmd_send_open [OF assms(11)] by simp_all
  have "nt_wire (w_net (snd (send_ok fd ''PM delivered'' ?w1))) x = ((nt_wire (w_net w'))(
       tfd := wire_of w' tfd @ lines_of [S_Pm u ?ts content],
       fd := wire_of w' fd @ lines_of [S_Ok ''PM delivered''])) x" for x
    using w1 reply_open(3) [OF w1(1), of "''PM delivered''"] \<open>fd \<noteq> tfd\<close>
    by (cases "x = fd"; cases "x = tfd") (simp_all add: frame_simps)
  moreover have "fst (send_ok fd ''PM delivered'' ?w1) = CHAT_OK"
    using w1(1) by (simp add: reply_open)
  moreover have "nt_shutdown (w_net (snd (interfered [id, id, \<lambda>_. w'] (kick_prog fd target) w)))
      = tfd # nt_shutdown (w_net w')" if a
    using that assms online_fd [OF assms(1,3)]
    by (simp add: kick_prog_def lookup_simps registry_is_admin_sessions run_act split_beta frame_simps sys_shutdown_def)
  ultimately show ?thesis unfolding pm by (simp only: fun_eq_iff) simp
qed

text \<open>Bob leaves and Carol logs in on his descriptor while Alice's message to Bob is on its way.\<close>

definition bob_to_carol :: "world \<Rightarrow> world" where
  "bob_to_carol w = snd (cmd_handle_auth sample_env 6 ''carol'' ''pw''
     (cmd_disconnect_client sample_event 6 ''bob'' True w))"

theorem descriptor_race_witness:
  "sessions (bob_to_carol sample_world) 6 = Some (''carol'', ''lobby'', False) \<and>
   wire_of (snd (interfered [id, \<lambda>_. bob_to_carol sample_world] (pm_prog sample_env 5 ''bob'' ''secret'') sample_world)) 6
     = wire_of (bob_to_carol sample_world) 6 @ ''PM alice unknown secret'' @ [LF] \<and>
   nt_shutdown (w_net (snd (interfered [id, id, \<lambda>_. bob_to_carol sample_world] (kick_prog 5 ''bob'') sample_world))) = [6]"
proof -
  let ?w = "bob_to_carol sample_world"
  have s: "sessions sample_world 5 = Some (''alice'', ''lobby'', True)"
      "sessions sample_world 6 = Some (''bob'', ''lobby'', False)"
    by (simp_all add: sample_world_simps)
  have lt: "localtime_ok (ce_localtime sample_env)" by (simp add: localtime_ok_def sample_env_simps)
  let ?w1 = "cmd_disconnect_client sample_event 6 ''bob'' True sample_world"
  have w1: "world_inv ?w1" "sessions ?w1 = [5 \<mapsto> (''alice'', ''lobby'', True)]"
    using cmd_disconnect_client_spec [OF sample_world_inv, of True 6 "''bob''" sample_event]
    by (simp_all add: sample_world_simps fun_upd_twist)
  have net: "nt_script (w_net ?w1) = (\<lambda>_. [])" "nt_shutdown (w_net ?w1) = []" "sv_auth ?w1 = sv_auth sample_world"
    by (simp_all add: cmd_disconnect_client_def Let_def split_beta frame_simps sample_world_def sys_close_def)
  have "fst (cmd_handle_auth sample_env 6 ''carol'' ''pw'' ?w1) = CHAT_OK"
  proof (rule login_open [THEN conjunct1, OF w1(1)])
    show "auth_verify (ce_evp sample_env) (sv_auth ?w1) ''carol'' ''pw'' = CHAT_OK"
      using sample_auth net(3) by (simp add: sample_env_def)
    show "registry_count (sv_registry ?w1) < MAX_CLIENTS" 
      using registry_count_sessions [OF world_invD(1) [OF w1(1)]] w1(2) by simp
    show "''carol'' \<notin> reg.online (sv_registry ?w1)" using w1(2) by (auto simp: reg.online_def split: if_splits)
  qed (use w1 net in \<open>simp_all add: open_fd_def sample_env_def\<close>)
  then obtain w2 where w2: "cmd_handle_auth sample_env 6 ''carol'' ''pw'' ?w1 = (CHAT_OK, w2)" by (metis prod.collapse)
  then have w: "?w = w2" by (simp add: bob_to_carol_def)
  have "sessions w2 = (sessions ?w1)(6 \<mapsto> (''carol'', DEFAULT_ROOM, auth_is_admin (sv_auth ?w1) ''carol''))"
    using cmd_handle_auth_OK [OF w1(1) sample_mem _ w2] w1(2) by simp
  moreover have "\<not> auth_is_admin (sv_auth ?w1) ''carol''"
    unfolding net(3) by (simp add: auth_is_admin_def sample_world_def sample_user_def)
  ultimately have carol: "sessions ?w 6 = Some (''carol'', ''lobby'', False)" by (simp add: w DEFAULT_ROOM_def)
  have op: "open_fd ?w 5" "open_fd ?w 6" "nt_shutdown (w_net ?w) = []"
    using auth_script [OF net(1), of sample_env 6 "''carol''" "''pw''"] auth_running(2) [of sample_env 6 "''carol''" "''pw''" ?w1] w2 w net(2)
    by (simp_all add: open_fd_def)
  show ?thesis
    using descriptor_race [OF sample_world_inv s _ _ _ _ _ lt op(1,2), of "''secret''"] carol op(3)
    by (simp add: sample_env_simps format_timestamp_def)
qed

text \<open>
  Property C8. Two clients may pass the check for a name in use together, and still only one
  of them gets in: when another thread has logged the same name in between a thread's check
  and its \<open>registry_add\<close>, the test under the registry's lock refuses the second login. It
  leaves the table as it is, its thread ends with \<open>CHAT_ERR_AUTH\<close>, and its client receives
  exactly the line \<open>ERR server full\<close>, whatever room the table has.
\<close>

theorem login_race:
  assumes "auth_verify (ce_evp e) (sv_auth w) u pw = CHAT_OK" and "u \<noteq> []" and "pw \<noteq> []"
    and "u \<notin> reg.online (sv_registry w)" and "world_inv w"
    and "world_inv w'" and "sessions w' fd' = Some (u, rm, a)" and "open_fd w' fd"
  shows "fst (interfered [id, \<lambda>_. w'] (auth_prog e fd u pw) w) = CHAT_ERR_AUTH \<and>
     sv_registry (snd (interfered [id, \<lambda>_. w'] (auth_prog e fd u pw) w)) = sv_registry w' \<and>
     events (snd (interfered [id, \<lambda>_. w'] (auth_prog e fd u pw) w)) = events w' \<and>
     nt_wire (w_net (snd (interfered [id, \<lambda>_. w'] (auth_prog e fd u pw) w)))
       = (nt_wire (w_net w'))(fd := wire_of w' fd @ lines_of [S_Err ''server full''])"
proof -
  let ?add = "registry_add (ce_node e) (sv_registry w') fd u DEFAULT_ROOM (auth_is_admin (sv_auth w') u)"
  have "u \<in> reg.online (sv_registry w')" using assms(7) by (auto simp: reg.online_def)
  then have "list_ex (\<lambda>cur. c_str (cn_username cur) = u) (cr_nodes (sv_registry w'))"
    using registry_online_node [OF world_invD(1) [OF assms(6)], of u] by (auto simp: list_ex_iff)
  then have refused: "fst ?add \<noteq> CHAT_OK"
    by (auto simp: registry_add_def Let_def split: option.split)
  then have same: "snd ?add = sv_registry w'"
    using registry_add_fails [of "ce_node e" "sv_registry w'" fd u DEFAULT_ROOM] by (metis prod.collapse)
  have free: "\<not> registry_username_exists (sv_registry w) u"
    using assms(4) registry_username_exists_online [OF world_invD(1) [OF assms(5)]] by simp
  have "interfered [id, \<lambda>_. w'] (auth_prog e fd u pw) w = (CHAT_ERR_AUTH, snd (send_err fd ''server full'' w'))"
    using assms(1-3) free refused same
    by (simp add: auth_prog_def run_act run_look on_registry_def split_beta)
  then show ?thesis
    using reply_open(4) [OF assms(8), of "''server full''"]
    by (simp add: fun_eq_iff frame_simps)
qed

text \<open>Carol logs in twice at the same moment, while there is room for a hundred clients.\<close>

theorem login_race_witness:
  "let w' = snd (cmd_handle_auth sample_env 7 ''carol'' ''pw'' sample_world);
       res = interfered [id, \<lambda>_. w'] (auth_prog sample_env 8 ''carol'' ''pw'') sample_world
   in sessions w' 7 = Some (''carol'', ''lobby'', False) \<and> registry_count (sv_registry w') = 3 \<and>
      fst res = CHAT_ERR_AUTH \<and> wire_of (snd res) 8 = wire_of w' 8 @ ''ERR server full'' @ [LF]"
proof -
  let ?r = "cmd_handle_auth sample_env 7 ''carol'' ''pw'' sample_world"
  have none: "sessions sample_world 7 = None" by (simp add: sample_world_simps)
  have off: "''carol'' \<notin> reg.online (sv_registry sample_world)"
    using sample_world_simps(1) by (auto simp: reg.online_def split: if_splits)
  have v: "auth_verify (ce_evp sample_env) (sv_auth sample_world) ''carol'' ''pw'' = CHAT_OK"
    using sample_auth by (simp add: sample_env_def)
  have "fst ?r = CHAT_OK"
    by (rule login_open [THEN conjunct1, OF sample_world_inv none _ _ _ _ v off])
       (use registry_count_sessions [OF world_invD(1) [OF sample_world_inv]] in
         \<open>simp_all add: sample_world_simps sample_env_def\<close>)
  then obtain w2 where r: "?r = (CHAT_OK, w2)" by (metis prod.collapse)
  have w2: "world_inv w2" "sessions w2 = (sessions sample_world)(7 \<mapsto> (''carol'', ''lobby'', False))"
    using cmd_handle_auth_OK [OF sample_world_inv sample_mem none r]
    by (simp_all add: DEFAULT_ROOM_def auth_is_admin_def sample_world_def sample_user_def)
  have c: "registry_count (sv_registry w2) = 3"
    using registry_count_sessions [OF world_invD(1) [OF w2(1)]] w2(2) by (simp add: sample_world_simps)
  have "nt_script (w_net sample_world) = (\<lambda>_. [])" by (simp add: sample_world_def)
  from auth_script [OF this, of sample_env 7 "''carol''" "''pw''"] r
  have op: "open_fd w2 8" by (simp add: open_fd_def)
  have s7: "sessions w2 7 = Some (''carol'', ''lobby'', False)" using w2(2) by simp
  show ?thesis
    using login_race [OF v _ _ off sample_world_inv w2(1) s7 op] s7 c
    unfolding Let_def r by simp
qed

end
