(* ===== verification/Spec2Isabelle.thy ===== *)
theory Spec2Isabelle
  imports Main_Programs Server_Types Thread_Races
begin

text \<open>
  A verification development for the chat server and client of this repository (C, POSIX
  sockets and threads, OpenSSL for the password digest).

  \<^bold>\<open>The program.\<close> A server accepts TCP connections, one thread per client; a thread reads
  command lines (\<open>AUTH\<close>, \<open>JOIN_ROOM\<close>, \<open>MSG\<close>, \<open>PM\<close>, \<open>LIST\<close>, \<open>HISTORY\<close>, \<open>KICK\<close>, \<open>QUIT\<close>) and
  answers on the same connection. The threads share a registry of the users online, a room
  manager with a bounded history per room, a user database, a connection counter and a
  queue of events, from which one broadcaster thread writes to all clients of a room. The
  client has a thread for the keyboard and one for the server's lines.

  \<^bold>\<open>The theories\<close>, in the order they build on each other:

  \<^item> \<open>Prelude\<close>: shared facts on lists and the collections of rewrite rules.
  \<^item> \<open>C_Base\<close>: \<open>include/common.h\<close> (limits, status codes) and what the sources use of C's
    library on character arrays: \<open>strncpy\<close>, \<open>strchr\<close>, \<open>snprintf\<close>, \<open>strtol\<close>.
  \<^item> \<open>Utils\<close>: \<open>src/common/utils.c\<close>. Contracts of a sending loop (locale \<open>full_sender\<close>) and of a
    receiving loop (\<open>line_receiver\<close>), interpreted here and again for the copies of the loops
    in \<open>server.c\<close> and \<open>client.c\<close>.
  \<^item> \<open>Protocol\<close>, \<open>Wire_Codec\<close>: \<open>src/common/protocol.c\<close>, and the contract between its builders
    and parsers (\<open>line_codec\<close>), interpreted for both directions; \<open>wire\<close> joins a codec with a
    sender and a receiver and is interpreted below.
  \<^item> \<open>Message_Queue\<close>: \<open>src/common/message_queue.c\<close>, its linked list on an explicit heap, against
    the contract \<open>fifo\<close> and a plain list with a closed flag.
  \<^item> \<open>Client_Registry\<close>: \<open>src/server/client_registry.c\<close>, against \<open>session_table\<close>: a finite map from
    descriptors to a name, a room and the admin flag.
  \<^item> \<open>Room_Manager\<close>: \<open>src/server/room_manager.c\<close>, its rings against \<open>bounded_log\<close>.
  \<^item> \<open>Auth_DB\<close>: \<open>src/server/auth.c\<close>.
  \<^item> \<open>Server_State\<close>: \<open>chat_server_t\<close> with the kernel's side of the sockets, and the parameters
    of one command. \<open>Commands\<close>, \<open>Command_Properties\<close>: \<open>src/server/commands.c\<close>.
  \<^item> \<open>Broadcaster\<close>: \<open>src/server/broadcaster.c\<close>. \<open>Server\<close>, \<open>Server_Threads\<close>: \<open>src/server/server.c\<close>
    and the arguments of its \<open>main\<close>; the loop of a client thread.
  \<^item> \<open>Descriptors\<close>: the descriptors in the table by themselves, which every command keeps in
    agreement with its thread whatever the names are. \<open>Server_System\<close>: the server as a step
    relation in which the threads take turns in any order, each loop's test of \<open>running\<close> and
    the handling of what its waiting call returns being steps of their own; its invariant,
    start and shutdown.
  \<^item> \<open>Thread_Programs\<close>: the handlers of \<open>commands.c\<close> once more, as programs of atomic actions,
    one for each call under a mutex and one for each line sent. \<open>Thread_Safety\<close>: what each
    action relies on and guarantees, once for every \<open>view\<close> of the table (locale \<open>session_view\<close>,
    interpreted for the descriptors alone and for descriptors with names). \<open>Thread_Races\<close>: what
    becomes of a login, a private message and a kick when other threads act in between.
  \<^item> \<open>Interleaving\<close>: the server as a step relation at the grain of these actions, with the
    broadcaster's walk over the registry's list and the calls of the accept loop and of
    \<open>server_shutdown\<close> as single steps. \<open>Interleaving_Properties\<close>, \<open>Interleaving_Runs\<close>: its
    invariant, and runs of it; \<open>Interleaving_Refinement\<close>: \<open>Server_System\<close> is simulated by it;
    \<open>Server_Types\<close>: the sizes of the arrays.
  \<^item> \<open>Client\<close>, \<open>Client_Properties\<close>: \<open>src/client/client.c\<close>, \<open>colors.c\<close>, the arguments of \<open>main\<close>.
    \<open>Client_System\<close>: the two threads of the client as a step relation, and \<open>client_run\<close> as any
    run of it from the start of the receiver to its join.
  \<^item> \<open>Main_Programs\<close>: \<open>src/server/main.c\<close> and \<open>src/client/main.c\<close>, from the command line to the
    exit status or to the start of the server's loop.
  \<^item> This theory: the two wires, and a chat message from the keyboard of one client to the
    screens of the others.

  \<^bold>\<open>How the state corresponds.\<close> A C structure is a record with the structure's fields (a prefix
  tells the structures apart); an enumeration is a datatype; the linked lists of the
  registry, the rooms and the users are lists, head first; the queue's list is on a heap.
  A \<open>char\<close> array that a \<open>memset\<close> or \<open>calloc\<close> has cleared is the string in it, and one that
  \<open>malloc\<close> or the stack left as it was (a session's node, a queued event, the line buffer of a
  thread) is the list of its bytes, a \<open>cbuf\<close>. A function that can fail returns its status
  together with the state it leaves. What a system call or the allocator answers is an
  argument: scripts of results for \<open>send\<close> and \<open>recv\<close>, a Boolean or the memory itself for
  \<open>malloc\<close>, functions for \<open>localtime_r\<close>, the digest and the file system. What is relied on of
  these is a named hypothesis (\<open>localtime_ok\<close>, \<open>evp_sha256\<close>, \<open>node_mem_ok\<close>, \<open>event_mem_ok\<close>). The step
  relations ask of the memory for a session only that it has the size of the structure
  (\<open>node_sized\<close>), as \<open>malloc(sizeof ...)\<close> guarantees, so that the unterminated names of
  \<open>registry_add_unterminated\<close> do occur in them; where the code then reads past the array, which
  C leaves undefined, the model reads the array's 32 bytes. What needs terminated names, the uniqueness of
  names across connections for one, is stated for user databases without a name of 31
  characters (\<open>names_short\<close>).

  \<^bold>\<open>Fuel and termination.\<close> Loops over lists are structural. \<open>client_handler\<close>, \<open>receiver_thread\<close>,
  \<open>client_loop\<close> and \<open>history_entries\<close> are total, since every turn takes some of the input; a
  thread blocked in \<open>recv\<close> is the result \<open>None\<close>. \<open>mq_free_nodes\<close> is given the queue's count,
  which is enough for a well-formed queue (\<open>mq_destroy_spec\<close>); \<open>read_lines\<close> the length of the
  file, every line taking a character of it; \<open>broadcaster_thread\<close> one unit per turn, where one
  more than there are events is enough (\<open>broadcaster_drain\<close>).

  \<^bold>\<open>What the groups of lemmas show.\<close> Per component: its invariant and that every operation keeps
  it; the result of every operation on every branch; the refinement of a simpler
  description. Across components: what each command does to the shared state and which
  connections it writes to; that a message reaches exactly its room; that in every reachable
  state of every interleaving descriptors, threads and the connection counter agree, names
  too where they are terminated, and the arrays keep their sizes (invariants built from
  \<open>safe_prog\<close>, which is proved of every program by following its actions); that the relation with whole turns is a special case of
  the one with single actions (a simulation); that the client closes its socket only when
  both threads are done with it; and how the two \<open>main\<close> functions end. Some theorems state
  behaviour that falls short of what the code means to do: names of 31 characters are not
  terminated, a room name with a space is misread by clients, a broadcast stops at the first
  client it cannot reach, an end of stream inside a line leaves stale bytes in it, the client
  never shows a history and waits for the user before it ends; and, of interleaved threads:
  the second of two logins of one name at the same moment is told that the server is full,
  the broadcaster goes on from a node that was freed while it was sending, a private message
  goes to a descriptor that has passed to somebody else, and \<open>server_destroy\<close> frees the tables
  under clients that are still connected.

  \<^bold>\<open>Not modelled.\<close> Locks are not explicit: what the code runs under a mutex is one step, which
  no other holder of that mutex can see the middle of. The tests of \<open>running\<close>, which the
  server makes without a lock, are steps of their own, with reads that see the last write. A line
  is sent in one step also where the kernel takes it in pieces, so that the bytes of two
  threads that write to the same connection do not mix. \<open>Interleaving\<close> ends with
  \<open>server_destroy\<close>, after which nothing is said about threads that still run.
  \<open>SIGPIPE\<close> is not a step: \<open>server_main_outcomes\<close> shows that it keeps the action the process was
  started with, which by default ends the process, and \<open>Send_Err\<close> stands for the errors of
  \<open>send\<close> in a process that goes on. Messages to the server's standard
  output and error and the address handling of \<open>getaddrinfo\<close> and \<open>inet_ntop\<close> are left out, as
  are \<open>print_usage\<close>, the tests and the build files.
\<close>

section \<open>The two directions of a connection\<close>

interpretation upstream: wire build_client protocol_parse_client_line client_ok client_view
  client_send_all server_recv_line
  by unfold_locales

interpretation downstream: wire build_server protocol_parse_server_line server_ok server_view
  send_all "\<lambda>rs buf n. client_recv_loop rs buf n 0"
  by unfold_locales

section \<open>A chat message from the keyboard to the screens\<close>

lemma cmd_handle_msg_open:
  assumes w: "world_inv w" and s: "sessions w fd = Some (u, room, a)" and c: "c \<noteq> []"
    and q: "ee_mem (ce_ev1 e)" "\<not> mq_shutdown (sv_queue w)" and op: "open_fd w fd"
  shows "fst (cmd_handle_msg e fd c w) = CHAT_OK"
    and "wire_of (snd (cmd_handle_msg e fd c w)) x = wire_of w x @ (if x = fd then lines_of [S_Ok ''message sent''] else [])"
    and "nt_script (w_net (snd (cmd_handle_msg e fd c w))) = nt_script (w_net w)"
    and "mq_shutdown (sv_queue (snd (cmd_handle_msg e fd c w))) = mq_shutdown (sv_queue w)"
proof -
  let ?w1 = "w\<lparr>sv_rooms := snd (room_history_add (ce_calloc e) (ce_localtime e) (sv_rooms w) room u c (ce_now e))\<rparr>"
  let ?push = "mq_push (ee_mem (ce_ev1 e)) (chat_event e u room c) (sv_queue w)"
  let ?w2 = "?w1\<lparr>sv_queue := snd ?push\<rparr>"
  have push: "fst ?push = CHAT_OK" "mq_shutdown (snd ?push) = mq_shutdown (sv_queue w)"
    using mq_push_spec [OF world_invD(3) [OF w]] q by simp_all
  have m: "cmd_handle_msg e fd c w = send_ok fd ''message sent'' ?w2"
    using w s c push(1) by (simp add: cmd_handle_msg_def lookup_simps Let_def)
  have op2: "open_fd ?w2 fd" using op by (simp add: open_fd_def)
  show "fst (cmd_handle_msg e fd c w) = CHAT_OK"
    unfolding m using reply_open(1) [OF op2] by simp
  show "wire_of (snd (cmd_handle_msg e fd c w)) x = wire_of w x @ (if x = fd then lines_of [S_Ok ''message sent''] else [])"
    unfolding m using reply_open(3) [OF op2, of "''message sent''"] by (cases "x = fd") (simp_all add: frame_simps)
  show "mq_shutdown (sv_queue (snd (cmd_handle_msg e fd c w))) = mq_shutdown (sv_queue w)"
    unfolding m using push(2) by (simp add: frame_simps)
  have "snd (send_ok fd ''message sent'' ?w2) = snd (net_send send_all fd
      (snd (protocol_build_server_ok MAX_LINE_LEN (Some ''message sent''))) ?w2)"
    by (simp add: send_ok_def cmd_send_response_def)
  then show "nt_script (w_net (snd (cmd_handle_msg e fd c w))) = nt_script (w_net w)"
    unfolding m using net_send_all_open(3) [OF op2] by simp
qed

lemma chat_event_bytes:
  assumes "event_mem_ok (ce_ev1 e) u room" and "copy_ok (mm_content (ee_stack (ce_ev1 e))) c MAX_MSG_LEN"
    and "server_ok (S_Broadcast u (format_timestamp lt (ce_now e) 32) room c)"
  shows "event_bytes lt rm (chat_event e u room c) =
    (if rm = Some room then server_line (S_Broadcast u (format_timestamp lt (ce_now e) 32) room c) @ [LF] else [])"
proof -
  let ?m = "S_Broadcast u (format_timestamp lt (ce_now e) 32) room c"
  have v: "mm_type (chat_event e u room c) = MQ_CHAT" "c_str (mm_username (chat_event e u room c)) = u"
      "c_str (mm_room (chat_event e u room c)) = room" "c_str (mm_content (chat_event e u room c)) = c"
    using chat_event_view [OF assms(1,2)] by (simp_all add: event_view_def)
  have t: "mm_timestamp (chat_event e u room c) = ce_now e" by (simp add: chat_event_def Let_def)
  have "event_line lt (chat_event e u room c) = build_server ?m 2048"
    by (simp add: event_line_def v t)
  also have "\<dots> = (CHAT_OK, server_line ?m @ [LF])"
    using server_line_text [OF assms(3)] by (intro build_server_line) simp
  finally show ?thesis by (simp add: event_bytes_def v(3))
qed

lemma msg_turn:
  assumes w: "world_inv w" and s: "sessions w (hd_fd h) = Some (u, room, a)" and au: "hd_authenticated h"
    and p: "protocol_parse_client_line line = (CHAT_OK, client_view (Msg c))" and c: "c \<noteq> []"
    and q: "ee_mem (ce_ev1 e)" "\<not> mq_shutdown (sv_queue w)" and op: "open_fd w (hd_fd h)"
  shows "handler_command e line h w = (True, h, snd (cmd_handle_msg e (hd_fd h) c w))"
  using p au cmd_handle_msg_open(1) [OF w s c q op]
  by (simp add: handler_command_def Let_def split_beta)

text \<open>
  Property C1. A chat message goes all the way. A user who is logged in types a message; the
  client writes it to its socket in whatever pieces the kernel takes; the server's thread
  reads it back, logs and queues it and confirms it to the sender; the broadcaster then
  writes one line to every client in the sender's room, the sender included, and nothing to
  anybody else; and each of their receivers reads from that line the sender's name, the
  time, the room and the text as typed. The conditions: the kernel takes the client's whole
  line in the end, the connections of the clients online are open and take what they are
  given, the queue is empty and open, the server and the sender's thread are running; name
  and room are single words and name, room and text fit their fields; and the memory for the
  queued event is there and leaves its three strings terminated (\<open>event_mem_ok\<close>, \<open>copy_ok\<close>: of a
  31-character name or room or a 511-character text the code does not write the last byte).
\<close>

theorem chat_message_end_to_end:
  assumes "world_inv w" and "sv_running w" and "\<not> mq_shutdown (sv_queue w)" and "events w = []" and "all_open w"
    and "sessions w (hd_fd h) = Some (u, room, a)" and "hd_authenticated h" and "length (hd_line h) = MAX_LINE_LEN"
    and "token MAX_USERNAME_LEN u" and "token MAX_ROOM_NAME_LEN room" and "text_field MAX_MSG_LEN c"
    and "event_mem_ok (ce_ev1 e) u room" and "copy_ok (mm_content (ee_stack (ce_ev1 e))) c MAX_MSG_LEN"
    and "ee_mem (ce_ev1 e)" and "localtime_ok lt"
    and "client_send_all ks (snd (protocol_build_client_msg MAX_LINE_LEN c))
           (length (snd (protocol_build_client_msg MAX_LINE_LEN c))) 0 = (CHAT_OK, out, ks')"
  shows "\<exists>b w1 w2 line.
     server_recv_line (map Byte out @ rs) (hd_line h) MAX_LINE_LEN = Some (CHAT_OK, b, rs) \<and>
     handler_command e (c_str b) (h\<lparr>hd_line := b\<rparr>) w = (True, h\<lparr>hd_line := b\<rparr>, w1) \<and>
     broadcaster_thread 2 lt w1 = Waiting w2 \<and>
     (\<forall>x. wire_of w2 x = wire_of w x @ (if x = hd_fd h then lines_of [S_Ok ''message sent''] else []) @
        (if in_room w x room then line else [])) \<and>
     (\<forall>buf rs'. length buf = MAX_LINE_LEN \<longrightarrow>
        (\<exists>b'. client_recv_loop (map Byte line @ rs') buf MAX_LINE_LEN 0 = Some (CHAT_OK, b', rs') \<and>
           protocol_parse_server_line (c_str b') = (CHAT_OK, server_view (S_Broadcast u ((format_timestamp lt (ce_now e) TIMESTAMP_LEN)) room c))))"
proof -
  let ?fd = "hd_fd h" and ?m = "S_Broadcast u ((format_timestamp lt (ce_now e) TIMESTAMP_LEN)) room c"
  have cok: "client_ok (Msg c)" and c: "c \<noteq> []" using assms(11) by (simp_all add: text_field_def)
  have sok: "server_ok ?m"
    using assms(9-11) ts_ok_token [OF format_timestamp_ok [OF assms(15)]] by simp
  let ?line = "server_line ?m @ [LF]"
  have "snd_client.send_string ks (snd (build_client (Msg c) MAX_LINE_LEN)) = (CHAT_OK, out, ks')"
    using assms(16) by (simp add: snd_client.send_string_def)
  from upstream.transport [OF cok assms(8) this, of rs] obtain b
    where b: "server_recv_line (map Byte out @ rs) (hd_line h) MAX_LINE_LEN = Some (CHAT_OK, b, rs)"
      "protocol_parse_client_line (c_str b) = (CHAT_OK, client_view (Msg c))"
    by blast
  have op: "open_fd w ?fd" using assms(5,6) by (simp add: all_open_def)
  let ?w1 = "snd (cmd_handle_msg e ?fd c w)"
  note m = cmd_handle_msg_open [OF assms(1,6) c assms(14,3) op]
  have turn: "handler_command e (c_str b) (h\<lparr>hd_line := b\<rparr>) w = (True, h\<lparr>hd_line := b\<rparr>, ?w1)"
    using msg_turn [of w "h\<lparr>hd_line := b\<rparr>", OF assms(1)] assms(3,6,7,14) b(2) c op by simp
  have eff: "world_inv ?w1" "sessions ?w1 = sessions w" "events ?w1 = [chat_event e u room c]"
    using cmd_handle_msg_spec [OF assms(1), of e ?fd c "fst (cmd_handle_msg e ?fd c w)" ?w1] assms(3,4,6,14) c
    by (simp_all add: queued_def)
  have ty: "mm_type (chat_event e u room c) \<noteq> MQ_SHUTDOWN" by (simp add: chat_event_def Let_def)
  have op1: "all_open ?w1" using assms(5) m(3) eff(2) by (simp add: all_open_def open_fd_def)
  have run: "sv_running ?w1" using assms(2) by (simp add: frame_simps)
  have "\<not> mq_shutdown (sv_queue ?w1)" using assms(3) m(4) by simp
  from broadcaster_drain [OF world_invD(3,1) [OF eff(1)] run this _ op1, of 2 lt] eff(3) ty
  obtain w2 where w2: "broadcaster_thread 2 lt ?w1 = Waiting w2"
      "\<forall>x. wire_of w2 x = wire_of ?w1 x @ event_bytes lt (room_of ?w1 x) (chat_event e u room c)"
    by auto
  have bytes: "event_bytes lt (room_of ?w1 x) (chat_event e u room c) = (if in_room w x room then ?line else [])" for x
    using chat_event_bytes [OF assms(12,13), of lt "room_of ?w1 x"] sok eff(2)
    by (simp add: in_room_room_of room_of_def)
  have wires: "\<forall>x. wire_of w2 x = wire_of w x @ (if x = ?fd then lines_of [S_Ok ''message sent''] else []) @
        (if in_room w x room then ?line else [])"
    using w2(2) bytes m(2) by simp
  have "build_server ?m MAX_LINE_LEN = (CHAT_OK, ?line)"
    using server_line_text [OF sok] by (intro build_server_line) simp
  then have "snd (build_server ?m MAX_LINE_LEN) = ?line" by (simp only: snd_conv)
  moreover have "snd_utils.send_string [] ?line = (CHAT_OK, ?line, [])"
    by (simp add: snd_utils.send_string_def)
  ultimately have rcv: "\<forall>buf rs'. length buf = MAX_LINE_LEN \<longrightarrow>
        (\<exists>b'. client_recv_loop (map Byte ?line @ rs') buf MAX_LINE_LEN 0 = Some (CHAT_OK, b', rs') \<and>
           protocol_parse_server_line (c_str b') = (CHAT_OK, server_view ?m))"
    using downstream.transport [OF sok, of _ "[]" ?line "[]"] by metis
  show ?thesis
    using b(1) turn w2(1) wires rcv by blast
qed


theorem chat_message_end_to_end_witness:
  "\<exists>b w1 w2 line. server_recv_line (map Byte (''MSG hi all'' @ [LF])) (replicate 2048 NUL) MAX_LINE_LEN = Some (CHAT_OK, b, []) \<and>
     handler_command sample_env (c_str b)
       \<lparr>hd_fd = 6, hd_line = b, hd_username = ''bob'', hd_authenticated = True\<rparr> sample_world
         = (True, \<lparr>hd_fd = 6, hd_line = b, hd_username = ''bob'', hd_authenticated = True\<rparr>, w1) \<and>
     broadcaster_thread 2 (\<lambda>_. None) w1 = Waiting w2 \<and>
     wire_of w2 5 = line \<and> wire_of w2 6 = ''OK message sent'' @ LF # line \<and> wire_of w2 7 = []"
proof -
  let ?h = "\<lparr>hd_fd = 6, hd_line = replicate 2048 NUL, hd_username = ''bob'', hd_authenticated = True\<rparr>"
  have run: "sv_running sample_world" "\<not> mq_shutdown (sv_queue sample_world)" "events sample_world = []"
    by (simp_all add: sample_world_def mq_empty_def mq_contents_def)
  have op: "all_open sample_world" by (simp add: all_open_def sample_world_simps)
  have s: "sessions sample_world (hd_fd ?h) = Some (''bob'', ''lobby'', False)" by (simp add: sample_world_simps)
  have h: "hd_authenticated ?h" "length (hd_line ?h) = MAX_LINE_LEN" by simp_all
  have f: "token MAX_USERNAME_LEN ''bob''" "token MAX_ROOM_NAME_LEN ''lobby''" "text_field MAX_MSG_LEN ''hi all''"
    by (simp_all add: token_def text_field_def)
  have mem: "event_mem_ok (ce_ev1 sample_env) ''bob'' ''lobby''"
    "copy_ok (mm_content (ee_stack (ce_ev1 sample_env))) ''hi all'' MAX_MSG_LEN" "ee_mem (ce_ev1 sample_env)"
    "localtime_ok (\<lambda>_. None)"
    by (simp_all add: sample_env_simps sample_event_mem is_c_string_def copy_ok_def localtime_ok_def)
  have sent: "client_send_all [Sent 3, Send_EINTR] (snd (protocol_build_client_msg MAX_LINE_LEN ''hi all''))
      (length (snd (protocol_build_client_msg MAX_LINE_LEN ''hi all''))) 0 = (CHAT_OK, ''MSG hi all'' @ [LF], [])"
    by (simp add: protocol_build_client_msg_def snprintf_line_def)
  have i: "in_room sample_world 5 ''lobby''" "in_room sample_world 6 ''lobby''" "\<not> in_room sample_world 7 ''lobby''"
    by (simp_all add: in_room_def sample_world_simps)
  obtain b w1 w2 line where
    r: "server_recv_line (map Byte (''MSG hi all'' @ [LF]) @ []) (hd_line ?h) MAX_LINE_LEN = Some (CHAT_OK, b, [])"
      "handler_command sample_env (c_str b) (?h\<lparr>hd_line := b\<rparr>) sample_world = (True, ?h\<lparr>hd_line := b\<rparr>, w1)"
      "broadcaster_thread 2 (\<lambda>_. None) w1 = Waiting w2"
      "\<forall>x. wire_of w2 x = wire_of sample_world x @ (if x = hd_fd ?h then lines_of [S_Ok ''message sent''] else []) @
        (if in_room sample_world x ''lobby'' then line else [])"
    using chat_message_end_to_end [OF sample_world_inv run op s h f mem sent, of "[]"] by blast
  from r(4) i have "wire_of w2 5 = line \<and> wire_of w2 6 = ''OK message sent'' @ LF # line \<and> wire_of w2 7 = []"
    by (simp add: sample_world_simps)
  with r(1-3) show ?thesis by (intro exI [of _ b] exI [of _ w1] exI [of _ w2] exI [of _ line]) simp
qed

end
